(* ===== verification/Prelude.thy ===== *)
theory Prelude
  imports Main "HOL-Library.Word" "HOL-Library.Product_Lexorder"
begin

text \<open>
  Shared ground of the development: the machine integers of the Rust sources as words, the
  fallible conversions between them, the decimal and hexadecimal readers and writers of the Rust
  standard library that the sources call, the relational operators the SQL texts use
  (\<open>ORDER BY ... LIMIT 1\<close>, \<open>MAX\<close>, \<open>COALESCE\<close>) and the collections of rules the component
  theories fill.
\<close>

named_theorems invariant_intros \<open>rules that a program or a statement keeps a predicate\<close>
named_theorems engine_simps \<open>equations of the program combinators and of the statement runner\<close>


section \<open>Machine integers\<close>

type_synonym u8 = "8 word"
type_synonym u32 = "32 word"
type_synonym u64 = "64 word"
type_synonym u256 = "256 word"
type_synonym bytes = "8 word list"

text \<open>The environment of the process: a variable that is absent or not Unicode is not in its domain.\<close>

type_synonym environment = "string \<Rightarrow> string option"

text \<open>
  \<open>i64\<close> values are kept as integers; \<open>u256_to_i64\<close> is \<open>U256::try_into::<i64>\<close>, which fails from
  \<open>2 ^ 63\<close> on, and \<open>bigint_ok\<close> is the range PostgreSQL accepts for a \<open>BIGINT\<close> column.
\<close>

definition i64_max :: int where
  "i64_max = 2 ^ 63 - 1"

definition u256_to_i64 :: "u256 \<Rightarrow> int option" where
  "u256_to_i64 v = (if uint v \<le> i64_max then Some (uint v) else None)"

definition u256_to_u64 :: "u256 \<Rightarrow> u64 option" where
  "u256_to_u64 v = (if uint v < 2 ^ 64 then Some (word_of_int (uint v)) else None)"

definition bigint_ok :: "int \<Rightarrow> bool" where
  "bigint_ok i \<longleftrightarrow> - (2 ^ 63) \<le> i \<and> i \<le> i64_max"

definition saturating_sub :: "nat \<Rightarrow> nat \<Rightarrow> nat" where
  "saturating_sub a b = a - b"

definition saturating_mul_u64 :: "u64 \<Rightarrow> u64 \<Rightarrow> u64" where
  "saturating_mul_u64 a b =
     (if unat a * unat b < 2 ^ 64 then a * b else of_nat (2 ^ 64 - 1))"

lemma uint_u256_bounds: "0 \<le> uint (v :: u256)" "uint (v :: u256) < 2 ^ 256"
  using uint_bounded [of v] by simp_all

lemma u256_to_i64_Some_iff:
  "u256_to_i64 v = Some i \<longleftrightarrow> i = uint v \<and> uint v \<le> i64_max"
  by (auto simp: u256_to_i64_def)

lemma u256_to_i64_nonneg: "u256_to_i64 v = Some i \<Longrightarrow> 0 \<le> i"
  by (auto simp: u256_to_i64_Some_iff)

lemma bigint_ok_nonneg: "0 \<le> i \<Longrightarrow> i \<le> i64_max \<Longrightarrow> bigint_ok i"
  by (simp add: bigint_ok_def)

lemma u256_to_i64_bigint_ok: "u256_to_i64 v = Some i \<Longrightarrow> bigint_ok i"
  by (rule bigint_ok_nonneg) (auto simp: u256_to_i64_Some_iff)

lemma u256_to_i64_inject:
  "u256_to_i64 v = Some i \<Longrightarrow> u256_to_i64 w = Some i \<Longrightarrow> v = w"
  by (auto simp: u256_to_i64_Some_iff word_uint_eq_iff)

lemma u256_of_i64_inverse:
  assumes "0 \<le> i" "i \<le> i64_max"
  shows "u256_to_i64 (word_of_int i) = Some i"
proof -
  have "i < 2 ^ 256" using assms by (simp add: i64_max_def)
  then have "uint (word_of_int i :: u256) = i"
    using assms by (simp add: uint_word_of_int take_bit_int_eq_self)
  with assms show ?thesis by (simp add: u256_to_i64_def)
qed

lemma unat_saturating_mul_u64:
  "unat (saturating_mul_u64 a b) = min (unat a * unat b) (2 ^ 64 - 1)"
proof (cases "unat a * unat b < 2 ^ 64")
  case True
  then have "unat (a * b) = unat a * unat b"
    by (simp add: unat_word_ariths)
  with True show ?thesis by (simp add: saturating_mul_u64_def min_def)
next
  case False
  then show ?thesis by (simp add: saturating_mul_u64_def min_def unat_of_nat)
qed


section \<open>Relational operators\<close>

text \<open>
  \<open>first_by f xs\<close> is \<open>ORDER BY f LIMIT 1\<close> (the earliest row among equals), \<open>sql_max\<close> is the
  aggregate \<open>MAX\<close>, which is \<open>NULL\<close> on no row, and \<open>coalesce\<close> replaces that \<open>NULL\<close>.
\<close>

fun first_by :: "('a \<Rightarrow> 'k :: linorder) \<Rightarrow> 'a list \<Rightarrow> 'a option" where
  "first_by f [] = None"
| "first_by f (x # xs) =
     (case first_by f xs of None \<Rightarrow> Some x | Some y \<Rightarrow> if f x \<le> f y then Some x else Some y)"

fun sql_max :: "int list \<Rightarrow> int option" where
  "sql_max [] = None"
| "sql_max (x # xs) = (case sql_max xs of None \<Rightarrow> Some x | Some y \<Rightarrow> Some (max x y))"

definition coalesce :: "'a option \<Rightarrow> 'a \<Rightarrow> 'a" where
  "coalesce x d = (case x of None \<Rightarrow> d | Some v \<Rightarrow> v)"

lemma coalesce_simps [simp]: "coalesce None d = d" "coalesce (Some v) d = v"
  by (simp_all add: coalesce_def)

lemma first_by_None [simp]: "first_by f xs = None \<longleftrightarrow> xs = []"
  by (cases xs) (auto split: option.splits)

lemma first_by_Some:
  "first_by f xs = Some x \<Longrightarrow> x \<in> set xs \<and> (\<forall>y \<in> set xs. f x \<le> f y)"
proof (induction xs arbitrary: x)
  case Nil
  then show ?case by simp
next
  case (Cons z zs)
  show ?case
  proof (cases "first_by f zs")
    case None
    with Cons.prems show ?thesis by auto
  next
    case (Some y)
    with Cons.IH [of y] have y: "y \<in> set zs" "\<forall>w \<in> set zs. f y \<le> f w" by auto
    with Cons.prems Some show ?thesis
      by (auto split: if_splits)
  qed
qed

lemma first_by_in: "first_by f xs = Some x \<Longrightarrow> x \<in> set xs"
  by (drule first_by_Some) simp

lemma first_by_least: "first_by f xs = Some x \<Longrightarrow> y \<in> set xs \<Longrightarrow> f x \<le> f y"
  by (drule first_by_Some) simp

lemma sql_max_None [simp]: "sql_max xs = None \<longleftrightarrow> xs = []"
  by (cases xs) (auto split: option.splits)

lemma sql_max_Some: "sql_max xs = Some m \<Longrightarrow> m \<in> set xs \<and> (\<forall>y \<in> set xs. y \<le> m)"
proof (induction xs arbitrary: m)
  case Nil
  then show ?case by simp
next
  case (Cons x xs)
  then show ?case by (cases "sql_max xs") (auto simp: max_def split: if_splits)
qed

lemma sql_max_upper: "x \<in> set xs \<Longrightarrow> x \<le> coalesce (sql_max xs) d"
proof -
  assume x: "x \<in> set xs"
  then obtain m where "sql_max xs = Some m" by (cases "sql_max xs") auto
  with x sql_max_Some [of xs m] show ?thesis by simp
qed

lemma sql_max_cases:
  obtains "xs = []" "coalesce (sql_max xs) d = d"
  | "xs \<noteq> []" "coalesce (sql_max xs) d \<in> set xs" "\<forall>y \<in> set xs. y \<le> coalesce (sql_max xs) d"
proof (cases "sql_max xs")
  case None
  then show ?thesis by (simp add: that(1))
next
  case (Some m)
  then have m: "m \<in> set xs" "\<forall>y \<in> set xs. y \<le> m" by (auto dest: sql_max_Some)
  show ?thesis by (rule that(2)) (use Some m in auto)
qed


section \<open>Lists\<close>

text \<open>Injectivity of a key on the rows of a table, as \<open>distinct (map key rows)\<close> gives it.\<close>

lemma distinct_map_eq:
  "distinct (map f xs) \<Longrightarrow> x \<in> set xs \<Longrightarrow> y \<in> set xs \<Longrightarrow> f x = f y \<Longrightarrow> x = y"
  by (auto simp: distinct_map dest: inj_onD)

lemma distinct_map_filter_eq:
  "distinct (map f (filter P xs)) \<Longrightarrow> x \<in> set xs \<Longrightarrow> P x \<Longrightarrow> y \<in> set xs \<Longrightarrow> P y \<Longrightarrow>
   f x = f y \<Longrightarrow> x = y"
  using distinct_map_eq [of f "filter P xs" x y] by simp

lemma map_key_map:
  "(\<And>x. key (f x) = key x) \<Longrightarrow> map key (map f xs) = map key xs"
  by simp

end
