(* ===== verification/Rust_Text.thy ===== *)
theory Rust_Text
  imports Prelude
begin

text \<open>
  The parts of the Rust standard library's text handling the sources use: \<open>str::strip_prefix\<close>,
  \<open>str::split\<close>, \<open>str::contains\<close>, the decimal \<open>Display\<close> of unsigned integers, \<open>i64::from_str\<close> and
  \<open>u64::from_str_radix(_, 16)\<close>. A Rust \<open>str\<close> is its sequence of bytes.
\<close>

section \<open>Prefixes, substrings and splitting\<close>

fun strip_prefix :: "string \<Rightarrow> string \<Rightarrow> string option" where
  "strip_prefix [] s = Some s"
| "strip_prefix (p # ps) [] = None"
| "strip_prefix (p # ps) (c # cs) = (if p = c then strip_prefix ps cs else None)"

definition starts_with :: "string \<Rightarrow> string \<Rightarrow> bool" where
  "starts_with p s \<longleftrightarrow> strip_prefix p s \<noteq> None"

fun str_contains :: "string \<Rightarrow> string \<Rightarrow> bool" where
  "str_contains [] pat \<longleftrightarrow> pat = []"
| "str_contains (c # cs) pat \<longleftrightarrow> starts_with pat (c # cs) \<or> str_contains cs pat"

fun split_on :: "char \<Rightarrow> string \<Rightarrow> string list" where
  "split_on d [] = [[]]"
| "split_on d (c # cs) =
     (if c = d then [] # split_on d cs
      else (case split_on d cs of [] \<Rightarrow> [[c]] | w # ws \<Rightarrow> (c # w) # ws))"

lemma strip_prefix_Some_iff: "strip_prefix p s = Some t \<longleftrightarrow> s = p @ t"
  by (induction p s rule: strip_prefix.induct) auto

lemma strip_prefix_append [simp]: "strip_prefix p (p @ t) = Some t"
  by (simp add: strip_prefix_Some_iff)

lemma strip_prefix_None_iff: "strip_prefix p s = None \<longleftrightarrow> (\<forall>t. s \<noteq> p @ t)"
  by (metis not_Some_eq strip_prefix_Some_iff)

lemma str_contains_append: "str_contains (xs @ pat @ ys) pat"
proof (induction xs)
  case Nil
  show ?case
  proof (cases "pat @ ys")
    case Nil
    then show ?thesis by simp
  next
    case (Cons c cs)
    then show ?thesis
      by (metis append_Nil option.distinct(1) starts_with_def str_contains.simps(2) strip_prefix_append)
  qed
next
  case (Cons x xs)
  then show ?case by simp
qed

lemma split_on_nonempty [simp]: "split_on d s \<noteq> []"
  by (cases s) (auto split: list.splits)

lemma split_on_no_sep: "d \<notin> set s \<Longrightarrow> split_on d s = [s]"
  by (induction s) auto

lemma split_on_append_sep:
  "d \<notin> set s \<Longrightarrow> split_on d (s @ d # t) = s # split_on d t"
  by (induction s) auto

lemma split_on_pieces: "w \<in> set (split_on d s) \<Longrightarrow> d \<notin> set w"
proof (induction s arbitrary: w)
  case Nil
  then show ?case by simp
next
  case (Cons c cs)
  then show ?case by (cases "split_on d cs") (auto split: if_splits)
qed


section \<open>Numbers\<close>

definition digit_char :: "nat \<Rightarrow> char" where
  "digit_char n = char_of (48 + n)"

definition dec_digit :: "char \<Rightarrow> nat option" where
  "dec_digit c = (let n = (of_char c :: nat) in if 48 \<le> n \<and> n \<le> 57 then Some (n - 48) else None)"

definition hex_digit :: "char \<Rightarrow> nat option" where
  "hex_digit c = (let n = (of_char c :: nat) in
     if 48 \<le> n \<and> n \<le> 57 then Some (n - 48)
     else if 97 \<le> n \<and> n \<le> 102 then Some (n - 87)
     else if 65 \<le> n \<and> n \<le> 70 then Some (n - 55)
     else None)"

fun show_nat :: "nat \<Rightarrow> string" where
  "show_nat n = (if n < 10 then [digit_char n] else show_nat (n div 10) @ [digit_char (n mod 10)])"

declare show_nat.simps [simp del]

fun read_digits :: "(char \<Rightarrow> nat option) \<Rightarrow> nat \<Rightarrow> nat \<Rightarrow> string \<Rightarrow> nat option" where
  "read_digits dig base acc [] = Some acc"
| "read_digits dig base acc (c # cs) =
     (case dig c of None \<Rightarrow> None | Some d \<Rightarrow> read_digits dig base (acc * base + d) cs)"

text \<open>
  \<open>i64::from_str\<close>: an optional sign, at least one digit, and the value in range at every digit; a
  lone sign is an invalid digit. The error kinds carry the messages \<open>ParseIntError\<close> displays.
  \<open>u64::from_str_radix\<close> takes an optional plus sign only; its callers drop the error.
\<close>

datatype int_error_kind = Empty | InvalidDigit | PosOverflow | NegOverflow

fun show_int_error :: "int_error_kind \<Rightarrow> string" where
  "show_int_error Empty = ''cannot parse integer from empty string''"
| "show_int_error InvalidDigit = ''invalid digit found in string''"
| "show_int_error PosOverflow = ''number too large to fit in target type''"
| "show_int_error NegOverflow = ''number too small to fit in target type''"

fun read_i64 :: "bool \<Rightarrow> int \<Rightarrow> string \<Rightarrow> int_error_kind + int" where
  "read_i64 neg acc [] = Inr acc"
| "read_i64 neg acc (c # cs) =
     (case dec_digit c of
        None \<Rightarrow> Inl InvalidDigit
      | Some d \<Rightarrow>
          (let acc' = (if neg then acc * 10 - int d else acc * 10 + int d) in
           if acc' > i64_max then Inl PosOverflow
           else if acc' < - (2 ^ 63) then Inl NegOverflow
           else read_i64 neg acc' cs))"

definition parse_i64 :: "string \<Rightarrow> int_error_kind + int" where
  "parse_i64 s =
     (case s of [] \<Rightarrow> Inl Empty
      | c # cs \<Rightarrow>
          if (c = CHR ''+'' \<or> c = CHR ''-'') \<and> cs = [] then Inl InvalidDigit
          else if c = CHR ''-'' then read_i64 True 0 cs
          else if c = CHR ''+'' then read_i64 False 0 cs
          else read_i64 False 0 s)"

definition parse_hex_digits_u64 :: "string \<Rightarrow> u64 option" where
  "parse_hex_digits_u64 s =
     (let ds = (case s of [] \<Rightarrow> [] | c # cs \<Rightarrow> if c = CHR ''+'' then cs else s) in
      if ds = [] then None
      else case read_digits hex_digit 16 0 ds of None \<Rightarrow> None
           | Some n \<Rightarrow> if n < 2 ^ 64 then Some (of_nat n) else None)"

lemma of_char_digit_char: "n < 10 \<Longrightarrow> (of_char (digit_char n) :: nat) = 48 + n"
  by (simp add: digit_char_def)

lemma dec_digit_digit_char: "n < 10 \<Longrightarrow> dec_digit (digit_char n) = Some n"
  by (simp add: dec_digit_def of_char_digit_char)

lemma digit_char_not_sign:
  "n < 10 \<Longrightarrow> digit_char n \<noteq> CHR ''-''" "n < 10 \<Longrightarrow> digit_char n \<noteq> CHR ''+''"
  by (auto dest: arg_cong [where f = "of_char :: char \<Rightarrow> nat"] simp: of_char_digit_char)

lemma read_digits_append:
  "read_digits dig b acc (xs @ ys) =
     (case read_digits dig b acc xs of None \<Rightarrow> None | Some a \<Rightarrow> read_digits dig b a ys)"
  by (induction xs arbitrary: acc) (auto split: option.splits)

lemma show_nat_nonempty [simp]: "show_nat n \<noteq> []"
  by (subst show_nat.simps) simp

lemma read_show_nat: "read_digits dec_digit 10 0 (show_nat n) = Some n"
proof (induction n rule: show_nat.induct)
  case (1 n)
  show ?case
  proof (cases "n < 10")
    case True
    then show ?thesis by (subst show_nat.simps) (simp add: dec_digit_digit_char)
  next
    case False
    with "1.IH" show ?thesis
      by (subst show_nat.simps) (simp add: read_digits_append dec_digit_digit_char)
  qed
qed

lemma hd_show_nat: "\<exists>d < 10. hd (show_nat n) = digit_char d"
proof (induction n rule: show_nat.induct)
  case (1 n)
  show ?case
  proof (cases "n < 10")
    case True
    then show ?thesis by (subst show_nat.simps) auto
  next
    case False
    with "1.IH" show ?thesis by (subst show_nat.simps) simp
  qed
qed

lemma show_nat_inject: "show_nat m = show_nat n \<longleftrightarrow> m = n"
  by (metis option.inject read_show_nat)

lemma read_digits_mono: "read_digits dig (Suc b) acc s = Some n \<Longrightarrow> acc \<le> n"
proof (induction s arbitrary: acc)
  case Nil
  then show ?case by simp
next
  case (Cons c cs)
  then obtain d where "dig c = Some d" and "read_digits dig (Suc b) (acc * Suc b + d) cs = Some n"
    by (auto split: option.splits)
  with Cons.IH [of "acc * Suc b + d"] show ?case by simp
qed

lemma read_i64_digits:
  "read_digits dec_digit 10 acc s = Some n \<Longrightarrow> int n \<le> i64_max \<Longrightarrow>
   read_i64 False (int acc) s = Inr (int n)"
proof (induction s arbitrary: acc)
  case Nil
  then show ?case by simp
next
  case (Cons c cs)
  then obtain d where d: "dec_digit c = Some d"
    and rest: "read_digits dec_digit 10 (acc * 10 + d) cs = Some n"
    by (auto split: option.splits)
  have "acc * 10 + d \<le> n" using rest read_digits_mono [of dec_digit 9] by simp
  then have "int acc * 10 + int d \<le> i64_max" using Cons.prems(2) by linarith
  moreover have "\<not> int acc * 10 + int d < - (2 ^ 63)" by simp
  ultimately show ?case
    using d Cons.IH [OF rest Cons.prems(2)] by (simp add: Let_def)
qed

lemma parse_i64_show_nat:
  assumes "int n \<le> i64_max"
  shows "parse_i64 (show_nat n) = Inr (int n)"
proof -
  have "read_i64 False 0 (show_nat n) = Inr (int n)"
    using read_i64_digits [of 0, OF _ assms] read_show_nat by simp
  then show ?thesis
    using hd_show_nat [of n] digit_char_not_sign
    by (cases "show_nat n") (auto simp: parse_i64_def)
qed

end
