(* ===== verification/Lobby_Types.thy ===== *)
theory Lobby_Types
  imports Rust_Text
begin

text \<open>
  The shared vocabulary of \<^verbatim>\<open>crate/primitives/src/types.rs\<close>: identifiers, the transaction
  structures, the state enums of the database tables, the pipeline status and the error types of
  every execution level. \<open>Uuid\<close>, \<open>Address\<close> and \<open>B256\<close> are the bit strings they wrap. A database
  error text is either a literal of the sources or the rendering of a driver error, kept as the
  value of type \<open>sql_error\<close> it renders: the driver's wording is not part of the sources.
\<close>

section \<open>Identifiers\<close>

type_synonym uuid = "128 word"
type_synonym execution_id = "128 word"
type_synonym address = "160 word"
type_synonym tx_hash = "256 word"

datatype chain_id = ChainId (chain_u256: u256)

datatype tx_nonce = TxNonce (nonce_u256: u256)


section \<open>Errors\<close>

datatype sql_error =
    UniqueViolation string
  | CheckViolation string
  | NumericOutOfRange
  | RowNotFound
  | DriverError string

datatype db_message = SqlMessage sql_error | TextMessage string

datatype local_error =
    Local_DatabaseError db_message
  | Local_Internal string
  | Local_Invariant string
  | Local_Rejected string

datatype relay_host_error =
    Relay_ValidationFailed string
  | Relay_DatabaseError sql_error
  | Relay_Internal string
  | Relay_FromAddressMismatch string string

datatype broadcast_error =
    Broadcast_Internal string
  | Broadcast_DatabaseError db_message
  | Broadcast_Invariant string
  | Broadcast_MissingProvider chain_id
  | Broadcast_Rejected string
  | Broadcast_Unexpected string
  | Broadcast_NonceTooLow tx_nonce tx_nonce
  | Broadcast_RpcError string

datatype validator_error =
    Validator_Rpc tx_hash string
  | Validator_Reverted tx_hash
  | Validator_Database sql_error
  | Validator_Internal string
  | Validator_RpcError string


section \<open>Conversions of the numeric wrappers\<close>

definition ChainId_try_from :: "int \<Rightarrow> local_error + chain_id" where
  "ChainId_try_from value =
     (if value < 0
      then Inl (Local_Rejected (''Invalid chain id: -'' @ show_nat (nat (- value))))
      else Inr (ChainId (word_of_int value)))"

definition ChainId_from_str :: "string \<Rightarrow> local_error + chain_id" where
  "ChainId_from_str s =
     (case parse_i64 s of
        Inl e \<Rightarrow> Inl (Local_Rejected (''Invalid chain id string `'' @ s @ ''`: '' @ show_int_error e))
      | Inr value \<Rightarrow> ChainId_try_from value)"

definition show_chain_id :: "chain_id \<Rightarrow> string" where
  "show_chain_id c = show_nat (unat (chain_u256 c))"

definition TxNonce_try_from :: "int \<Rightarrow> local_error + tx_nonce" where
  "TxNonce_try_from value =
     (if value < 0
      then Inl (Local_Rejected (''Invalid Nonce: -'' @ show_nat (nat (- value))))
      else Inr (TxNonce (word_of_int value)))"

definition show_tx_nonce :: "tx_nonce \<Rightarrow> string" where
  "show_tx_nonce n = show_nat (unat (nonce_u256 n))"


section \<open>Transactions\<close>

record access_list_item =
  ali_address :: address
  ali_storage_keys :: "string list"

record eip1193_params =
  p_from :: address
  p_to :: "address option"
  p_gas :: "string option"
  p_max_fee_per_gas :: "string option"
  p_max_priority_fee_per_gas :: "string option"
  p_value :: "string option"
  p_data :: "string option"
  p_chain_id :: string
  p_access_list :: "access_list_item list option"

record eip1559_transaction =
  chain_id :: chain_id
  nonce :: tx_nonce
  max_priority_fee_per_gas :: u256
  max_fee_per_gas :: u256
  gas_limit :: u256
  to_addr :: "address option"
  tx_value :: u256
  tx_data :: bytes
  access_list :: "(address \<times> u256 list) list"

record signed_transaction =
  rlp :: bytes
  with_nonce :: tx_nonce

record client_config =
  client_id :: uuid
  from_address :: address

record broadcast_outcome =
  txn_hash :: tx_hash


section \<open>State enums\<close>

datatype nonce_state = N_Reserved | N_Finalized | N_Released | N_Consumed

datatype sign_state = S_Reserved | S_Signed | S_Failed

datatype pipeline_status =
    PermitAquired
  | Accepted
  | NonceReserved
  | Signed
  | Broadcasted string string
  | ConfirmedOnChain string
  | Failed string string
  | NonceMismatchDetected tx_nonce tx_nonce
  | ValidatorTimedOut string

datatype validator_outcome =
    Included u64 u64
  | NotIncluded
  | Timeout


section \<open>Lemmas on the conversions\<close>

lemma ChainId_try_from_Inr_iff:
  "ChainId_try_from i = Inr c \<longleftrightarrow> 0 \<le> i \<and> c = ChainId (word_of_int i)"
  by (auto simp: ChainId_try_from_def)

lemma TxNonce_try_from_Inr_iff:
  "TxNonce_try_from i = Inr n \<longleftrightarrow> 0 \<le> i \<and> n = TxNonce (word_of_int i)"
  by (auto simp: TxNonce_try_from_def)

lemma TxNonce_try_from_nonneg [simp]:
  "0 \<le> i \<Longrightarrow> TxNonce_try_from i = Inr (TxNonce (word_of_int i))"
  by (simp add: TxNonce_try_from_def)

lemma TxNonce_word_inject:
  "0 \<le> i \<Longrightarrow> i \<le> i64_max \<Longrightarrow> 0 \<le> j \<Longrightarrow> j \<le> i64_max \<Longrightarrow>
   TxNonce (word_of_int i) = TxNonce (word_of_int j) \<longleftrightarrow> i = j"
  by (metis option.inject tx_nonce.inject u256_of_i64_inverse)

lemma TxNonce_uint: "TxNonce (word_of_int (uint (nonce_u256 n))) = n"
  by (cases n) simp

end
