(* ===== verification/Database.thy ===== *)
theory Database
  imports Lobby_Types
begin

text \<open>
  The PostgreSQL store the actors share: the rows of the five tables declared under
  \<^verbatim>\<open>database/migrations\<close>, the clock \<open>now()\<close> reads, and a statement runner. Statements run one
  after another, each atomically; what the service may do beside that is an explicit input, the
  script of events: the time that passes before a statement, a connection that fails before the
  statement runs or after it has committed, and the rows a concurrent transaction holds locked,
  which \<open>FOR UPDATE SKIP LOCKED\<close> passes over. An empty script is a service that answers at once and
  never fails. Times are in microseconds.
\<close>

section \<open>Rows and tables\<close>

type_synonym db_time = int
type_synonym row_key = "execution_id \<times> int"

definition minutes :: "int \<Rightarrow> db_time" where
  "minutes n = n * 60000000"

definition seconds :: "int \<Rightarrow> db_time" where
  "seconds n = n * 1000000"

datatype broadcast_state = B_Received | B_Submitted | B_Rejected

datatype validation_state = V_Pending | V_Included | V_NotIncluded | V_TimedOut

record nonce_row =
  n_execution_id :: execution_id
  n_revision :: int
  n_chain_id :: int
  n_from_address :: address
  n_nonce :: int
  n_state :: nonce_state
  n_created_at :: db_time
  n_updated_at :: db_time

record sign_row =
  s_execution_id :: execution_id
  s_revision :: int
  s_chain_id :: int
  s_from_address :: address
  s_signed_tx :: "bytes option"
  s_state :: sign_state
  s_created_at :: db_time
  s_updated_at :: db_time

record broadcast_row =
  b_execution_id :: execution_id
  b_revision :: int
  b_chain_id :: int
  b_from_address :: address
  b_tx_hash :: "tx_hash option"
  b_state :: broadcast_state
  b_rejection_reason :: "string option"
  b_created_at :: db_time
  b_updated_at :: db_time

record validation_row =
  v_execution_id :: execution_id
  v_revision :: int
  v_chain_id :: int
  v_tx_hash :: tx_hash
  v_state :: validation_state
  v_created_at :: db_time
  v_updated_at :: db_time

record intent_row =
  i_execution_id :: execution_id
  i_client_id :: uuid
  i_chain_id :: int
  i_from_address :: address
  i_to_address :: "address option"
  i_value :: int
  i_data :: bytes
  i_gas_limit :: int
  i_max_fee_per_gas :: int
  i_max_priority_fee_per_gas :: int
  i_access_list :: "(address \<times> u256 list) list"
  i_created_at :: db_time


section \<open>The service and its script\<close>

datatype db_fault = NoFault | FailBefore string | FailAfter string

record db_event =
  ev_delay :: nat
  ev_fault :: db_fault
  ev_locked :: "row_key list"

record db =
  nonce_assignments :: "nonce_row list"
  sign_requests :: "sign_row list"
  broadcast_requests :: "broadcast_row list"
  validation_requests :: "validation_row list"
  transaction_intents :: "intent_row list"
  db_clock :: db_time
  db_script :: "db_event list"

definition init_db :: db where
  "init_db = \<lparr>nonce_assignments = [], sign_requests = [], broadcast_requests = [],
     validation_requests = [], transaction_intents = [], db_clock = 0, db_script = []\<rparr>"

definition quiet_event :: db_event where
  "quiet_event = \<lparr>ev_delay = 0, ev_fault = NoFault, ev_locked = []\<rparr>"

definition next_event :: "db \<Rightarrow> db_event" where
  "next_event d = (case db_script d of [] \<Rightarrow> quiet_event | ev # _ \<Rightarrow> ev)"

definition elapse :: "nat \<Rightarrow> db_event list \<Rightarrow> db \<Rightarrow> db" where
  "elapse k evs d = d\<lparr>db_clock := db_clock d + int k, db_script := evs\<rparr>"

type_synonym 'r stmt = "row_key list \<Rightarrow> db \<Rightarrow> sql_error + 'r \<times> db"

definition run_stmt :: "'r stmt \<Rightarrow> db \<Rightarrow> (sql_error + 'r) \<times> db" where
  "run_stmt q d =
     (let ev = next_event d; d1 = elapse (ev_delay ev) (tl (db_script d)) d in
      case ev_fault ev of
        FailBefore m \<Rightarrow> (Inl (DriverError m), d1)
      | f \<Rightarrow>
          (case q (ev_locked ev) d1 of
             Inl e \<Rightarrow> (Inl e, d1)
           | Inr (r, d2) \<Rightarrow>
               (case f of FailAfter m \<Rightarrow> (Inl (DriverError m), d2) | _ \<Rightarrow> (Inr r, d2))))"


section \<open>Programs over the store\<close>

text \<open>
  A program takes a state to a result and the next state, whatever the result is; \<open>andThen\<close> is the
  sequencing of \<open>?\<close>. The engines run over the store alone or over the store and a network.
\<close>

type_synonym ('s, 'e, 'a) sprog = "'s \<Rightarrow> ('e + 'a) \<times> 's"
type_synonym ('e, 'a) prog = "(db, 'e, 'a) sprog"

definition ret :: "'a \<Rightarrow> ('s, 'e, 'a) sprog" where
  "ret x d = (Inr x, d)"

definition throw :: "'e \<Rightarrow> ('s, 'e, 'a) sprog" where
  "throw e d = (Inl e, d)"

definition lift_result :: "'e + 'a \<Rightarrow> ('s, 'e, 'a) sprog" where
  "lift_result r d = (r, d)"

definition andThen ::
  "('s, 'e, 'a) sprog \<Rightarrow> ('a \<Rightarrow> ('s, 'e, 'b) sprog) \<Rightarrow> ('s, 'e, 'b) sprog" where
  "andThen m k d = (case m d of (Inl e, d1) \<Rightarrow> (Inl e, d1) | (Inr x, d1) \<Rightarrow> k x d1)"

definition sql :: "(sql_error \<Rightarrow> 'e) \<Rightarrow> 'r stmt \<Rightarrow> ('e, 'r) prog" where
  "sql map_err q d =
     (case run_stmt q d of (Inl e, d1) \<Rightarrow> (Inl (map_err e), d1) | (Inr r, d1) \<Rightarrow> (Inr r, d1))"

text \<open>
  An actor call over its mailbox: the mailbox is closed, or the reply channel is dropped before or
  after the handler ran, or the handler's result comes back.
\<close>

datatype link = LinkUp | LinkClosed | ReplyLostBefore | ReplyLostAfter

fun actor_call ::
  "link \<Rightarrow> 'e \<Rightarrow> 'e \<Rightarrow> ('s, 'e, 'a) sprog \<Rightarrow> ('s, 'e, 'a) sprog" where
  "actor_call LinkUp closed dropped h d = h d"
| "actor_call LinkClosed closed dropped h d = (Inl closed, d)"
| "actor_call ReplyLostBefore closed dropped h d = (Inl dropped, d)"
| "actor_call ReplyLostAfter closed dropped h d = (Inl dropped, snd (h d))"

definition keeps :: "('s \<Rightarrow> bool) \<Rightarrow> ('s, 'e, 'a) sprog \<Rightarrow> bool" where
  "keeps P m \<longleftrightarrow> (\<forall>d. P d \<longrightarrow> P (snd (m d)))"

definition time_stable :: "(db \<Rightarrow> bool) \<Rightarrow> bool" where
  "time_stable P \<longleftrightarrow> (\<forall>d k evs. P d \<longrightarrow> P (elapse k evs d))"

definition stmt_keeps :: "(db \<Rightarrow> bool) \<Rightarrow> 'r stmt \<Rightarrow> bool" where
  "stmt_keeps P q \<longleftrightarrow> (\<forall>locked d r d'. P d \<longrightarrow> q locked d = Inr (r, d') \<longrightarrow> P d')"

definition quiet :: "db \<Rightarrow> bool" where
  "quiet d \<longleftrightarrow> db_script d = []"

lemma elapse_none: "quiet d \<Longrightarrow> elapse 0 [] d = d"
  by (cases d) (simp add: elapse_def quiet_def)

lemma run_stmt_quiet [engine_simps]:
  "quiet d \<Longrightarrow> run_stmt q d = (case q [] d of Inl e \<Rightarrow> (Inl e, d) | Inr (r, d') \<Rightarrow> (Inr r, d'))"
  using elapse_none [of d]
  by (auto simp: run_stmt_def next_event_def quiet_event_def quiet_def split: sum.splits prod.splits)

lemma elapse_simps [simp]:
  "nonce_assignments (elapse k evs d) = nonce_assignments d"
  "sign_requests (elapse k evs d) = sign_requests d"
  "broadcast_requests (elapse k evs d) = broadcast_requests d"
  "validation_requests (elapse k evs d) = validation_requests d"
  "transaction_intents (elapse k evs d) = transaction_intents d"
  "db_clock (elapse k evs d) = db_clock d + int k"
  "db_script (elapse k evs d) = evs"
  by (simp_all add: elapse_def)

lemma keeps_ret [invariant_intros]: "keeps P (ret x)"
  by (simp add: keeps_def ret_def)

lemma keeps_throw [invariant_intros]: "keeps P (throw e)"
  by (simp add: keeps_def throw_def)

lemma keeps_lift_result [invariant_intros]: "keeps P (lift_result r)"
  by (simp add: keeps_def lift_result_def)

lemma keeps_andThen [invariant_intros]:
  "keeps P m \<Longrightarrow> (\<And>x. keeps P (k x)) \<Longrightarrow> keeps P (andThen m k)"
  by (auto simp: keeps_def andThen_def split: prod.splits sum.splits)

lemma keeps_sql [invariant_intros]:
  assumes "time_stable P" "stmt_keeps P q"
  shows "keeps P (sql f q)"
proof -
  have "P (snd (run_stmt q d))" if "P d" for d
  proof -
    have step: "P (elapse k evs d)" for k evs
      using assms(1) that by (simp add: time_stable_def)
    have "P d'" if "q l (elapse k evs d) = Inr (r, d')" for l k evs r d'
      using assms(2) step that by (auto simp: stmt_keeps_def)
    with step show ?thesis
      by (auto simp: run_stmt_def Let_def split: prod.splits sum.splits db_fault.splits)
  qed
  then show ?thesis
    by (auto simp: keeps_def sql_def split: prod.splits sum.splits) (metis snd_conv)+
qed

lemma keeps_case_option [invariant_intros]:
  "(x = None \<Longrightarrow> keeps P m) \<Longrightarrow> (\<And>v. x = Some v \<Longrightarrow> keeps P (k v)) \<Longrightarrow>
   keeps P (case x of None \<Rightarrow> m | Some v \<Rightarrow> k v)"
  by (cases x) auto

lemma keeps_if [invariant_intros]:
  "(b \<Longrightarrow> keeps P m) \<Longrightarrow> (\<not> b \<Longrightarrow> keeps P k) \<Longrightarrow> keeps P (if b then m else k)"
  by simp

lemma keeps_actor_call [invariant_intros]: "keeps P h \<Longrightarrow> keeps P (actor_call l closed dropped h)"
  by (cases l) (auto simp: keeps_def)

lemma keeps_case_sum [invariant_intros]:
  "(\<And>v. x = Inl v \<Longrightarrow> keeps P (m v)) \<Longrightarrow> (\<And>v. x = Inr v \<Longrightarrow> keeps P (k v)) \<Longrightarrow>
   keeps P (case x of Inl v \<Rightarrow> m v | Inr v \<Rightarrow> k v)"
  by (cases x) auto

lemma keepsD: "keeps P m \<Longrightarrow> P d \<Longrightarrow> P (snd (m d))"
  by (simp add: keeps_def)

text \<open>
  Where a program relies on what an earlier statement left behind, the same reasoning with a
  postcondition per result: \<open>Q x\<close> after the result \<open>x\<close>, \<open>E\<close> after an error.
\<close>

definition hoare ::
  "('s \<Rightarrow> bool) \<Rightarrow> ('s, 'e, 'a) sprog \<Rightarrow> ('a \<Rightarrow> 's \<Rightarrow> bool) \<Rightarrow> ('s \<Rightarrow> bool) \<Rightarrow> bool" where
  "hoare P m Q E \<longleftrightarrow> (\<forall>s. P s \<longrightarrow> (case m s of (Inl e, s') \<Rightarrow> E s' | (Inr x, s') \<Rightarrow> Q x s'))"

lemma hoare_keeps_iff: "hoare P m (\<lambda>_. P) P \<longleftrightarrow> keeps P m"
proof -
  have "(case m s of (Inl e, s') \<Rightarrow> P s' | (Inr x, s') \<Rightarrow> P s') \<longleftrightarrow> P (snd (m s))" for s
    by (simp add: case_prod_beta split: sum.splits)
  then show ?thesis by (simp add: hoare_def keeps_def)
qed

lemma hoare_weaken: "hoare P m Q E \<Longrightarrow> (\<And>s. P' s \<Longrightarrow> P s) \<Longrightarrow> hoare P' m Q E"
  by (simp add: hoare_def)

lemma hoare_andThen:
  "hoare P m Q E \<Longrightarrow> (\<And>x. hoare (Q x) (k x) R E) \<Longrightarrow> hoare P (andThen m k) R E"
  by (fastforce simp: hoare_def andThen_def split: prod.splits sum.splits)

lemma hoare_ret: "(\<And>s. P s \<Longrightarrow> Q x s) \<Longrightarrow> hoare P (ret x) Q E"
  by (simp add: hoare_def ret_def)

lemma hoare_throw: "(\<And>s. P s \<Longrightarrow> E s) \<Longrightarrow> hoare P (throw e) Q E"
  by (simp add: hoare_def throw_def)

lemma hoare_lift_result: "(\<And>s x. P s \<Longrightarrow> Q x s) \<Longrightarrow> (\<And>s. P s \<Longrightarrow> E s) \<Longrightarrow> hoare P (lift_result r) Q E"
  by (simp add: hoare_def lift_result_def split: sum.splits)

lemma hoare_sql:
  assumes "time_stable P" "\<And>d. P d \<Longrightarrow> E d"
    and "\<And>locked d r d'. P d \<Longrightarrow> q locked d = Inr (r, d') \<Longrightarrow> Q r d' \<and> E d'"
  shows "hoare P (sql f q) Q E"
proof -
  have "case run_stmt q d of (Inl e, d') \<Rightarrow> E d' | (Inr r, d') \<Rightarrow> Q r d'" if "P d" for d
  proof -
    have step: "P (elapse k evs d)" for k evs using assms(1) that by (simp add: time_stable_def)
    have fin: "Q r d'" "E d'" if "q l (elapse k evs d) = Inr (r, d')" for l k evs r d'
      using assms(3) [OF step that] by simp_all
    show ?thesis
      using assms(2) [OF step] fin
      by (auto simp: run_stmt_def Let_def split: prod.splits sum.splits db_fault.splits)
  qed
  then show ?thesis by (fastforce simp: hoare_def sql_def split: prod.splits sum.splits)
qed

lemmas prog_simps [engine_simps] = ret_def throw_def lift_result_def andThen_def sql_def


section \<open>Revisioned tables\<close>

text \<open>
  Four of the tables share the key \<open>(execution_id, revision)\<close>, number the rows of an execution by
  \<open>COALESCE(MAX(revision), 0) + 1\<close>, look the latest row up by \<open>ORDER BY revision DESC LIMIT 1\<close> and
  change a row only in place. The accessors are arguments, so that each table's statements use the
  same operations.
\<close>

definition next_revision ::
  "('r \<Rightarrow> execution_id) \<Rightarrow> ('r \<Rightarrow> int) \<Rightarrow> execution_id \<Rightarrow> 'r list \<Rightarrow> int" where
  "next_revision eid rvn e rows = coalesce (sql_max (map rvn (filter (\<lambda>r. eid r = e) rows))) 0 + 1"

definition latest_row ::
  "('r \<Rightarrow> execution_id) \<Rightarrow> ('r \<Rightarrow> int) \<Rightarrow> ('r \<Rightarrow> bool) \<Rightarrow> execution_id \<Rightarrow> 'r list \<Rightarrow> 'r option" where
  "latest_row eid rvn sel e rows = first_by (\<lambda>r. - rvn r) (filter (\<lambda>r. eid r = e \<and> sel r) rows)"

definition update_row ::
  "('r \<Rightarrow> execution_id) \<Rightarrow> ('r \<Rightarrow> int) \<Rightarrow> row_key \<Rightarrow> ('r \<Rightarrow> 'r) \<Rightarrow> 'r list \<Rightarrow> 'r list" where
  "update_row eid rvn k f rows = map (\<lambda>r. if (eid r, rvn r) = k then f r else r) rows"

definition gapless :: "('r \<Rightarrow> execution_id) \<Rightarrow> ('r \<Rightarrow> int) \<Rightarrow> 'r list \<Rightarrow> bool" where
  "gapless eid rvn rows \<longleftrightarrow>
     (\<forall>e. map rvn (filter (\<lambda>r. eid r = e) rows) = [1..int (length (filter (\<lambda>r. eid r = e) rows))])"

text \<open>
  \<open>unique_commit\<close> is the check of the primary key and of one partial unique index when a statement
  has produced its rows; a violation aborts the whole statement.
\<close>

definition unique_commit ::
  "string \<Rightarrow> string \<Rightarrow> ('r \<Rightarrow> row_key) \<Rightarrow> ('r \<Rightarrow> 'k) \<Rightarrow> ('r \<Rightarrow> bool) \<Rightarrow> 'r list \<Rightarrow> sql_error + 'r list"
  where
  "unique_commit pk idx key ikey active rows =
     (if \<not> distinct (map key rows) then Inl (UniqueViolation pk)
      else if \<not> distinct (map ikey (filter active rows)) then Inl (UniqueViolation idx)
      else Inr rows)"

lemma unique_commit_Inr_iff:
  "unique_commit pk idx key ikey active rows = Inr rows' \<longleftrightarrow>
     rows' = rows \<and> distinct (map key rows) \<and> distinct (map ikey (filter active rows))"
  by (auto simp: unique_commit_def)

lemma latest_row_Some:
  assumes "latest_row eid rvn sel e rows = Some r"
  shows "r \<in> set rows" "eid r = e" "sel r"
    "\<And>r'. r' \<in> set rows \<Longrightarrow> eid r' = e \<Longrightarrow> sel r' \<Longrightarrow> rvn r' \<le> rvn r"
  using first_by_Some [OF assms [unfolded latest_row_def]] by auto

lemma latest_row_None:
  "latest_row eid rvn sel e rows = None \<longleftrightarrow> (\<forall>r \<in> set rows. \<not> (eid r = e \<and> sel r))"
  by (auto simp: latest_row_def filter_empty_conv)

lemma latest_row_filter:
  "latest_row eid rvn sel e rows = latest_row eid rvn (\<lambda>_. True) e (filter sel rows)"
  by (simp add: latest_row_def conj_commute)

lemma next_revision_upper: "r \<in> set rows \<Longrightarrow> eid r = e \<Longrightarrow> rvn r < next_revision eid rvn e rows"
proof -
  assume r: "r \<in> set rows" "eid r = e"
  then have "rvn r \<le> coalesce (sql_max (map rvn (filter (\<lambda>r. eid r = e) rows))) 0"
    by (intro sql_max_upper) auto
  then show ?thesis by (simp add: next_revision_def)
qed

lemma sql_max_upto: "coalesce (sql_max [1..int n]) 0 = int n"
proof (cases n)
  case 0
  then show ?thesis by simp
next
  case (Suc m)
  then have mem: "int n \<in> set [1..int n]" by simp
  show ?thesis
  proof (rule sql_max_cases [of "[1..int n]" 0])
    assume "[1..int n] = []"
    with mem show ?thesis by simp
  next
    assume "coalesce (sql_max [1..int n]) 0 \<in> set [1..int n]"
      and "\<forall>y \<in> set [1..int n]. y \<le> coalesce (sql_max [1..int n]) 0"
    with mem show ?thesis by fastforce
  qed
qed

lemma gapless_next_revision:
  "gapless eid rvn rows \<Longrightarrow>
   next_revision eid rvn e rows = int (length (filter (\<lambda>r. eid r = e) rows)) + 1"
  by (simp add: next_revision_def gapless_def sql_max_upto)

lemma gapless_Nil [simp]: "gapless eid rvn []"
  by (simp add: gapless_def)

lemma gapless_append:
  assumes "gapless eid rvn rows" "rvn r = next_revision eid rvn (eid r) rows"
  shows "gapless eid rvn (rows @ [r])"
proof -
  have "rvn r = int (length (filter (\<lambda>x. eid x = eid r) rows)) + 1"
    using assms gapless_next_revision by metis
  with assms(1) show ?thesis
    by (auto simp: gapless_def upto_rec2)
qed

lemma gapless_revision_pos:
  assumes "gapless eid rvn rows" "r \<in> set rows"
  shows "1 \<le> rvn r"
proof -
  have "rvn r \<in> set (map rvn (filter (\<lambda>x. eid x = eid r) rows))" using assms(2) by auto
  with assms(1) show ?thesis by (simp add: gapless_def)
qed

lemma update_row_append:
  assumes "rvn r = next_revision eid rvn (eid r) rows"
  shows "update_row eid rvn (eid r, rvn r) f (rows @ [r]) = rows @ [f r]"
proof -
  have "(eid x, rvn x) \<noteq> (eid r, rvn r)" if "x \<in> set rows" for x
    using next_revision_upper [OF that, of eid "eid r" rvn] assms by auto
  then show ?thesis by (auto simp: update_row_def intro!: map_idI)
qed

text \<open>
  What an in-place change owes a revisioned table: it keeps the key. The facts every table needs
  about such changes are proved once from that law.
\<close>

locale revision_table =
  fixes eid :: "'r \<Rightarrow> execution_id"
    and rvn :: "'r \<Rightarrow> int"
    and change :: "'c \<Rightarrow> 'r \<Rightarrow> 'r"
  assumes eid_change [simp]: "eid (change c r) = eid r"
    and rev_change [simp]: "rvn (change c r) = rvn r"
begin

lemma update_keys [simp]:
  "map (\<lambda>r. (eid r, rvn r)) (update_row eid rvn k (change c) rows) = map (\<lambda>r. (eid r, rvn r)) rows"
  by (auto simp: update_row_def)

lemma gapless_update [simp]:
  "gapless eid rvn (update_row eid rvn k (change c) rows) = gapless eid rvn rows"
  by (simp add: gapless_def update_row_def filter_map o_def if_distrib [of eid] if_distrib [of rvn]
      cong: if_cong)

lemma set_update:
  "r \<in> set (update_row eid rvn k (change c) rows) \<Longrightarrow>
   (r \<in> set rows \<and> (eid r, rvn r) \<noteq> k) \<or> (\<exists>r0 \<in> set rows. (eid r0, rvn r0) = k \<and> r = change c r0)"
  by (auto simp: update_row_def)

lemma set_update_iff:
  "r \<in> set (update_row eid rvn k (change c) rows) \<longleftrightarrow>
   (r \<in> set rows \<and> (eid r, rvn r) \<noteq> k) \<or> (\<exists>r0 \<in> set rows. (eid r0, rvn r0) = k \<and> r = change c r0)"
  by (auto simp: update_row_def)

lemma update_other:
  "r \<in> set rows \<Longrightarrow> (eid r, rvn r) \<noteq> k \<Longrightarrow> r \<in> set (update_row eid rvn k (change c) rows)"
  by (auto simp: update_row_def)

lemma guarded_update:
  assumes "distinct (map (\<lambda>r. (eid r, rvn r)) rows)"
  shows "map (\<lambda>r. if eid r = e \<and> rvn r = v \<and> q r then change c r else r) rows =
      (if \<exists>r \<in> set rows. (eid r, rvn r) = (e, v) \<and> q r then update_row eid rvn (e, v) (change c) rows else rows)"
    and "length (filter (\<lambda>r. eid r = e \<and> rvn r = v \<and> q r) rows) =
      of_bool (\<exists>r \<in> set rows. (eid r, rvn r) = (e, v) \<and> q r)"
proof -
  have same: "r = r'" if "r \<in> set rows" "r' \<in> set rows" "(eid r, rvn r) = (e, v)" "(eid r', rvn r') = (e, v)" for r r'
    using distinct_map_eq [OF assms that(1,2)] that(3,4) by simp
  show "map (\<lambda>r. if eid r = e \<and> rvn r = v \<and> q r then change c r else r) rows =
      (if \<exists>r \<in> set rows. (eid r, rvn r) = (e, v) \<and> q r then update_row eid rvn (e, v) (change c) rows else rows)"
    using same by (auto simp: update_row_def intro!: map_idI)
  have "length (filter (\<lambda>r. eid r = e \<and> rvn r = v \<and> q r) rows) = card {r \<in> set rows. eid r = e \<and> rvn r = v \<and> q r}"
    using assms by (simp add: distinct_map distinct_length_filter Int_def conj_commute)
  also have "\<dots> = of_bool (\<exists>r \<in> set rows. (eid r, rvn r) = (e, v) \<and> q r)"
  proof (cases "\<exists>r \<in> set rows. (eid r, rvn r) = (e, v) \<and> q r")
    case True
    then obtain r0 where "r0 \<in> set rows" "(eid r0, rvn r0) = (e, v)" "q r0" by blast
    then have "{r \<in> set rows. eid r = e \<and> rvn r = v \<and> q r} = {r0}" using same by auto
    with True show ?thesis by simp
  next
    case False
    then have "{r \<in> set rows. eid r = e \<and> rvn r = v \<and> q r} = {}" by auto
    with False show ?thesis by (simp del: Collect_empty_eq)
  qed
  finally show "length (filter (\<lambda>r. eid r = e \<and> rvn r = v \<and> q r) rows) =
      of_bool (\<exists>r \<in> set rows. (eid r, rvn r) = (e, v) \<and> q r)" .
qed

lemma append_keys_distinct:
  assumes "distinct (map (\<lambda>r. (eid r, rvn r)) rows)" "rvn r = next_revision eid rvn (eid r) rows"
  shows "distinct (map (\<lambda>r. (eid r, rvn r)) (rows @ [r]))"
  using assms next_revision_upper [of _ rows eid "eid r" rvn] by force

lemma filter_update_weaker:
  assumes "distinct (map ikey (filter act rows))"
    and "\<And>r. (eid r, rvn r) = k \<Longrightarrow> r \<in> set rows \<Longrightarrow> act (change c r) \<Longrightarrow> act r"
    and "\<And>r. ikey (change c r) = ikey r"
  shows "distinct (map ikey (filter act (update_row eid rvn k (change c) rows)))"
  using assms(1,2)
proof (induction rows)
  case Nil
  then show ?case by (simp add: update_row_def)
next
  case (Cons r rows)
  have IH: "distinct (map ikey (filter act (update_row eid rvn k (change c) rows)))"
    using Cons.prems by (intro Cons.IH) (auto split: if_splits)
  have sub: "ikey ` {x \<in> set (update_row eid rvn k (change c) rows). act x} \<subseteq>
      ikey ` {x \<in> set rows. act x}"
    using Cons.prems(2) by (force simp: update_row_def assms(3))
  show ?case
    using Cons.prems IH sub by (auto simp: update_row_def assms(3) split: if_splits)
qed

end


section \<open>Leases\<close>

text \<open>
  The guard \<open>WHERE NOT EXISTS (... settled OR (in progress AND updated_at > now() - lease))\<close> with
  which the sign, broadcast and validation requests and the nonce reservations are inserted.
\<close>

definition lease_blocks ::
  "('r \<Rightarrow> execution_id) \<Rightarrow> ('r \<Rightarrow> db_time) \<Rightarrow> ('r \<Rightarrow> bool) \<Rightarrow> ('r \<Rightarrow> bool) \<Rightarrow>
   db_time \<Rightarrow> db_time \<Rightarrow> execution_id \<Rightarrow> 'r list \<Rightarrow> bool" where
  "lease_blocks eid upd settled in_progress now lease e rows \<longleftrightarrow>
     list_ex (\<lambda>r. eid r = e \<and> (settled r \<or> in_progress r \<and> now - lease < upd r)) rows"

lemma lease_blocks_iff:
  "lease_blocks eid upd settled in_progress now lease e rows \<longleftrightarrow>
     (\<exists>r \<in> set rows. eid r = e \<and> (settled r \<or> in_progress r \<and> now - lease < upd r))"
  by (auto simp: lease_blocks_def list_ex_iff)


section \<open>Requests under a lease\<close>

text \<open>
  The sign, broadcast and validation tables admit a request by one statement: unless the lease guard
  blocks it, a row with the next revision is added, and the primary key and the partial unique index
  on the execution identifier are checked. The result is the new revision, or none.
\<close>

definition lease_insert ::
  "string \<Rightarrow> string \<Rightarrow> ('r \<Rightarrow> execution_id) \<Rightarrow> ('r \<Rightarrow> int) \<Rightarrow> ('r \<Rightarrow> db_time) \<Rightarrow> ('r \<Rightarrow> bool) \<Rightarrow>
   ('r \<Rightarrow> bool) \<Rightarrow> ('r \<Rightarrow> bool) \<Rightarrow> (int \<Rightarrow> bool) \<Rightarrow> db_time \<Rightarrow> execution_id \<Rightarrow> (int \<Rightarrow> 'r) \<Rightarrow> 'r list \<Rightarrow>
   sql_error + int option \<times> 'r list" where
  "lease_insert pk idx eid rvn upd settled in_progress indexed fits now e mk rows =
     (if lease_blocks eid upd settled in_progress now (minutes 2) e rows then Inr (None, rows)
      else
        let v = next_revision eid rvn e rows in
        if \<not> fits v then Inl NumericOutOfRange
        else
          case unique_commit pk idx (\<lambda>r. (eid r, rvn r)) eid indexed (rows @ [mk v]) of
            Inl err \<Rightarrow> Inl err
          | Inr rows' \<Rightarrow> Inr (Some v, rows'))"

definition request_inv ::
  "('r \<Rightarrow> execution_id) \<Rightarrow> ('r \<Rightarrow> int) \<Rightarrow> ('r \<Rightarrow> db_time) \<Rightarrow> ('r \<Rightarrow> bool) \<Rightarrow> db_time \<Rightarrow> 'r list \<Rightarrow> bool" where
  "request_inv eid rvn upd indexed now rows \<longleftrightarrow>
     distinct (map (\<lambda>r. (eid r, rvn r)) rows) \<and> distinct (map eid (filter indexed rows)) \<and>
     gapless eid rvn rows \<and> (\<forall>r \<in> set rows. upd r \<le> now) \<and>
     (\<forall>r \<in> set rows. indexed r \<longrightarrow> (\<forall>r' \<in> set rows. eid r' = eid r \<longrightarrow> rvn r' \<le> rvn r))"

lemma request_inv_Nil [simp]: "request_inv eid rvn upd indexed now []"
  by (simp add: request_inv_def)

lemma request_revision_fits:
  assumes "request_inv eid rvn upd indexed now rows" "int (length rows) < i64_max"
  shows "bigint_ok (next_revision eid rvn e rows)"
proof -
  have "next_revision eid rvn e rows = int (length (filter (\<lambda>r. eid r = e) rows)) + 1"
    using assms(1) by (intro gapless_next_revision) (simp add: request_inv_def)
  moreover have "length (filter (\<lambda>r. eid r = e) rows) \<le> length rows" by (rule length_filter_le)
  ultimately have "0 \<le> next_revision eid rvn e rows" "next_revision eid rvn e rows \<le> i64_max"
    using assms(2) by linarith+
  then show ?thesis by (rule bigint_ok_nonneg)
qed

lemma request_inv_later: "request_inv eid rvn upd indexed now rows \<Longrightarrow> now \<le> now' \<Longrightarrow>
    request_inv eid rvn upd indexed now' rows"
  by (fastforce simp: request_inv_def)

locale lease_table = revision_table eid rvn change
  for eid :: "'r \<Rightarrow> execution_id" and rvn :: "'r \<Rightarrow> int" and change :: "'c \<Rightarrow> 'r \<Rightarrow> 'r" +
  fixes upd :: "'r \<Rightarrow> db_time" and settled in_progress indexed :: "'r \<Rightarrow> bool"
    and moment :: "'c \<Rightarrow> db_time"
  assumes in_progress_indexed: "in_progress r \<Longrightarrow> indexed r"
    and indexed_cases: "indexed r \<Longrightarrow> settled r \<or> in_progress r"
    and upd_change: "upd (change c r) = upd r \<or> upd (change c r) = moment c"
begin


text \<open>
  Once a request is in progress no other is admitted: while the lease is alive the guard suppresses
  the insertion, and when the lease is over the unique index still holds the row and aborts it.
\<close>

lemma insert_in_progress:
  assumes "request_inv eid rvn upd indexed now rows" "r0 \<in> set rows" "eid r0 = e" "in_progress r0"
    and "\<And>v. eid (mk v) = e" "\<And>v. rvn (mk v) = v" "\<And>v. indexed (mk v)"
  shows "lease_insert pk idx eid rvn upd settled in_progress indexed fits now e mk rows =
    (if lease_blocks eid upd settled in_progress now (minutes 2) e rows then Inr (None, rows)
     else if fits (next_revision eid rvn e rows) then Inl (UniqueViolation idx) else Inl NumericOutOfRange)"
proof -
  have "distinct (map (\<lambda>r. (eid r, rvn r)) (rows @ [mk (next_revision eid rvn e rows)]))"
    using assms by (intro append_keys_distinct) (auto simp: request_inv_def)
  moreover have "e \<in> set (map eid (filter indexed rows))"
    using assms(2-4) in_progress_indexed by force
  then have "\<not> distinct (map eid (filter indexed (rows @ [mk (next_revision eid rvn e rows)])))"
    using assms(5,7) by simp
  ultimately show ?thesis by (simp add: lease_insert_def unique_commit_def Let_def)
qed

lemma insert_fresh:
  assumes "request_inv eid rvn upd indexed now rows"
    and "\<And>r. r \<in> set rows \<Longrightarrow> eid r = e \<Longrightarrow> \<not> settled r \<and> \<not> indexed r"
    and "\<And>v. eid (mk v) = e" "\<And>v. rvn (mk v) = v" "\<And>v. indexed (mk v)"
    and "fits (next_revision eid rvn e rows)"
  shows "lease_insert pk idx eid rvn upd settled in_progress indexed fits now e mk rows =
    Inr (Some (next_revision eid rvn e rows), rows @ [mk (next_revision eid rvn e rows)])"
proof -
  have "\<not> lease_blocks eid upd settled in_progress now (minutes 2) e rows"
    using assms(2) in_progress_indexed by (auto simp: lease_blocks_iff)
  moreover have "distinct (map (\<lambda>r. (eid r, rvn r)) (rows @ [mk (next_revision eid rvn e rows)]))"
    using assms by (intro append_keys_distinct) (auto simp: request_inv_def)
  moreover have "distinct (map eid (filter indexed (rows @ [mk (next_revision eid rvn e rows)])))"
    using assms(1-3) by (auto simp: request_inv_def)
  ultimately show ?thesis
    using assms(6) by (simp add: lease_insert_def unique_commit_def Let_def)
qed

text \<open>The complete outcome of an admission.\<close>

lemma insert_outcome:
  assumes "request_inv eid rvn upd indexed now rows" "fits (next_revision eid rvn e rows)"
    and "\<And>v. eid (mk v) = e" "\<And>v. rvn (mk v) = v" "\<And>v. indexed (mk v)"
  shows "lease_insert pk idx eid rvn upd settled in_progress indexed fits now e mk rows =
    (if \<exists>r \<in> set rows. eid r = e \<and> (settled r \<or> in_progress r \<and> now - minutes 2 < upd r) then Inr (None, rows)
     else if \<exists>r \<in> set rows. eid r = e \<and> in_progress r then Inl (UniqueViolation idx)
     else Inr (Some (next_revision eid rvn e rows), rows @ [mk (next_revision eid rvn e rows)]))"
proof (cases "\<exists>r \<in> set rows. eid r = e \<and> (settled r \<or> in_progress r \<and> now - minutes 2 < upd r)")
  case True
  then have "lease_blocks eid upd settled in_progress now (minutes 2) e rows" by (simp only: lease_blocks_iff)
  with True show ?thesis by (simp only: lease_insert_def if_True)
next
  case free: False
  then have nb: "\<not> lease_blocks eid upd settled in_progress now (minutes 2) e rows" by (simp only: lease_blocks_iff) simp
  show ?thesis
  proof (cases "\<exists>r \<in> set rows. eid r = e \<and> in_progress r")
    case True
    then obtain r0 where "r0 \<in> set rows" "eid r0 = e" "in_progress r0" by blast
    from insert_in_progress [OF assms(1) this assms(3-5)] nb free True assms(2) show ?thesis by (simp only: if_True if_False)
  next
    case False
    then have "\<not> settled r \<and> \<not> indexed r" if "r \<in> set rows" "eid r = e" for r
      using that free indexed_cases by blast
    from insert_fresh [where mk = mk and fits = fits, OF assms(1) this assms(3-5,2)] free False show ?thesis by (simp only: if_False)
  qed
qed

lemma latest_is_indexed:
  assumes "request_inv eid rvn upd indexed now rows" "r \<in> set rows" "indexed r"
  shows "latest_row eid rvn (\<lambda>_. True) (eid r) rows = Some r"
proof -
  obtain t where t: "latest_row eid rvn (\<lambda>_. True) (eid r) rows = Some t"
    using latest_row_None [of eid rvn "\<lambda>_. True" "eid r" rows] assms(2)
    by (cases "latest_row eid rvn (\<lambda>_. True) (eid r) rows") auto
  have "rvn r = rvn t"
    using latest_row_Some [OF t] assms by (intro antisym) (auto simp: request_inv_def)
  then have "r = t"
    using assms latest_row_Some(1,2) [OF t] distinct_map_eq [of "\<lambda>r. (eid r, rvn r)" rows r t]
    by (simp add: request_inv_def)
  with t show ?thesis by simp
qed

lemma insert_adds:
  "lease_insert pk idx eid rvn upd settled in_progress indexed fits now e mk rows = Inr (x, rows') \<Longrightarrow>
   x = None \<and> rows' = rows \<or>
   x = Some (next_revision eid rvn e rows) \<and> rows' = rows @ [mk (next_revision eid rvn e rows)]"
  by (auto simp: lease_insert_def Let_def unique_commit_def split: if_splits)

lemma insert_keeps_inv:
  assumes "request_inv eid rvn upd indexed now rows"
    and "lease_insert pk idx eid rvn upd settled in_progress indexed fits now e mk rows = Inr (x, rows')"
    and "\<And>v. eid (mk v) = e" "\<And>v. rvn (mk v) = v" "\<And>v. upd (mk v) \<le> now" "\<And>v. indexed (mk v)"
  shows "request_inv eid rvn upd indexed now rows'"
proof (cases "lease_blocks eid upd settled in_progress now (minutes 2) e rows")
  case True
  with assms(1,2) show ?thesis by (simp add: lease_insert_def)
next
  case False
  let ?new = "mk (next_revision eid rvn e rows)"
  have gap: "gapless eid rvn (rows @ [?new])"
    using assms(1,3,4) by (intro gapless_append) (auto simp: request_inv_def)
  have rows': "rows' = rows @ [?new]" "distinct (map (\<lambda>r. (eid r, rvn r)) (rows @ [?new]))"
    "distinct (map eid (filter indexed (rows @ [?new])))"
    using assms(2) False by (auto simp: lease_insert_def Let_def unique_commit_def split: if_splits)
  have top: "rvn r' \<le> rvn r" if "r \<in> set (rows @ [?new])" "indexed r" "r' \<in> set (rows @ [?new])" "eid r' = eid r" for r r'
  proof (cases "r = ?new")
    case True
    then have rv: "rvn r = next_revision eid rvn e rows" "eid r' = e" using that(4) assms(3,4) by auto
    show ?thesis
    proof (cases "r' = r")
      case False
      then have "r' \<in> set rows" using that(3) True by simp
      from next_revision_upper [of r' rows eid e rvn, OF this rv(2)] rv(1) show ?thesis by simp
    qed simp
  next
    case False
    then have r: "r \<in> set rows" using that(1) by simp
    then have "eid r \<in> eid ` {x \<in> set rows. indexed x}" using that(2) by blast
    then have "eid r \<noteq> e" using rows'(3) assms(3,6) by auto
    then have "r' \<in> set rows" using that(3,4) assms(3) by auto
    then show ?thesis using r that(2,4) assms(1) unfolding request_inv_def by blast
  qed
  have "\<forall>r \<in> set rows'. upd r \<le> now" using assms(1,5) by (auto simp: rows'(1) request_inv_def)
  with gap rows' top show ?thesis unfolding request_inv_def rows'(1) by blast
qed

lemma update_keeps_inv:
  assumes "request_inv eid rvn upd indexed now rows" "moment c \<le> now"
    and "\<And>r. (eid r, rvn r) = k \<Longrightarrow> r \<in> set rows \<Longrightarrow> indexed (change c r) \<Longrightarrow> indexed r"
  shows "request_inv eid rvn upd indexed now (update_row eid rvn k (change c) rows)"
proof -
  have "distinct (map eid (filter indexed (update_row eid rvn k (change c) rows)))"
    using assms(1,3) by (intro filter_update_weaker) (auto simp: request_inv_def)
  moreover have "upd r \<le> now" if "r \<in> set (update_row eid rvn k (change c) rows)" for r
    using set_update [OF that] assms(1,2) upd_change by (metis request_inv_def)
  moreover have "rvn r' \<le> rvn r"
    if r: "r \<in> set (update_row eid rvn k (change c) rows)" "indexed r" and
      r': "r' \<in> set (update_row eid rvn k (change c) rows)" and same: "eid r' = eid r" for r r'
  proof -
    obtain r0 where r0: "r0 \<in> set rows" "eid r0 = eid r" "rvn r0 = rvn r" "indexed r0"
      using set_update [OF r(1)] r(2) assms(3) by (metis eid_change rev_change)
    obtain r1 where "r1 \<in> set rows" "eid r1 = eid r'" "rvn r1 = rvn r'"
      using set_update [OF r'] by (metis eid_change rev_change)
    with r0 same assms(1) show ?thesis unfolding request_inv_def by metis
  qed
  ultimately show ?thesis using assms(1) by (simp add: request_inv_def)
qed

end

end
