(* ===== verification/Nonce_Engine.thy ===== *)
theory Nonce_Engine
  imports Database
begin

text \<open>
  The nonce actor, \<^verbatim>\<open>crate/actors/src/nonce/engine.rs\<close>: the three command handlers over
  the table \<^verbatim>\<open>nonce.nonce_assignments\<close>, each SQL text one statement. The reservation is one
  statement with data-modifying CTEs: all its parts read the same snapshot, and the CTE \<open>consumed\<close>
  takes effect whether or not the final \<open>INSERT\<close> adds a row.
\<close>

section \<open>The table\<close>

definition n_active :: "nonce_row \<Rightarrow> bool" where
  "n_active r \<longleftrightarrow> n_state r = N_Reserved \<or> n_state r = N_Finalized"

definition n_key :: "nonce_row \<Rightarrow> row_key" where
  "n_key r = (n_execution_id r, n_revision r)"

definition n_slot :: "nonce_row \<Rightarrow> int \<times> address \<times> int" where
  "n_slot r = (n_chain_id r, n_from_address r, n_nonce r)"

text \<open>\<open>SET state = s\<close> under the trigger that stamps \<open>updated_at\<close> on a state change.\<close>

definition set_nonce_state :: "db_time \<times> nonce_state \<Rightarrow> nonce_row \<Rightarrow> nonce_row" where
  "set_nonce_state c r =
     (if n_state r \<noteq> snd c then r\<lparr>n_state := snd c, n_updated_at := fst c\<rparr> else r)"

definition nonce_commit :: "nonce_row list \<Rightarrow> 'r \<Rightarrow> db \<Rightarrow> sql_error + 'r \<times> db" where
  "nonce_commit rows x d =
     (case unique_commit ''nonce_assignments_pkey'' ''uniq_active_nonce'' n_key n_slot n_active rows of
        Inl e \<Rightarrow> Inl e
      | Inr rows' \<Rightarrow> Inr (x, d\<lparr>nonce_assignments := rows'\<rparr>))"

definition update_nonce_state ::
  "db_time \<Rightarrow> nonce_state \<Rightarrow> row_key \<Rightarrow> nonce_row list \<Rightarrow> nonce_row list" where
  "update_nonce_state now s k rows =
     update_row n_execution_id n_revision k (set_nonce_state (now, s)) rows"

definition reserved_row ::
  "db_time \<Rightarrow> execution_id \<Rightarrow> int \<Rightarrow> int \<Rightarrow> address \<Rightarrow> int \<Rightarrow> nonce_row" where
  "reserved_row now e rvn c a n =
     \<lparr>n_execution_id = e, n_revision = rvn, n_chain_id = c, n_from_address = a, n_nonce = n,
      n_state = N_Reserved, n_created_at = now, n_updated_at = now\<rparr>"

definition insert_reserved ::
  "execution_id \<Rightarrow> int \<Rightarrow> int \<Rightarrow> address \<Rightarrow> int \<Rightarrow> nonce_row list \<Rightarrow> db \<Rightarrow>
   sql_error + (int \<times> int) option \<times> db" where
  "insert_reserved e rvn c a n rows d =
     (if \<not> bigint_ok n \<or> \<not> bigint_ok rvn then Inl NumericOutOfRange
      else nonce_commit (rows @ [reserved_row (db_clock d) e rvn c a n]) (Some (n, rvn)) d)"

definition nonce_lease :: "db_time \<Rightarrow> db_time \<Rightarrow> execution_id \<Rightarrow> nonce_row list \<Rightarrow> bool" where
  "nonce_lease now lease e rows =
     lease_blocks n_execution_id n_updated_at (\<lambda>r. n_state r = N_Finalized)
       (\<lambda>r. n_state r = N_Reserved) now lease e rows"

definition nonce_revision :: "execution_id \<Rightarrow> nonce_row list \<Rightarrow> int" where
  "nonce_revision e rows = next_revision n_execution_id n_revision e rows"


section \<open>Reservation\<close>

text \<open>The CTEs \<open>target_release\<close> and \<open>max_nonce\<close> of the reservation statement.\<close>

definition released_rows :: "int \<Rightarrow> address \<Rightarrow> nonce_row list \<Rightarrow> nonce_row list" where
  "released_rows c a rows =
     filter (\<lambda>r. n_chain_id r = c \<and> n_from_address r = a \<and> n_state r = N_Released) rows"

definition target_release ::
  "int \<Rightarrow> address \<Rightarrow> row_key list \<Rightarrow> nonce_row list \<Rightarrow> nonce_row option" where
  "target_release c a locked rows =
     first_by (\<lambda>r. (n_nonce r, - n_revision r))
       (filter (\<lambda>r. n_key r \<notin> set locked) (released_rows c a rows))"

definition max_nonce :: "int \<Rightarrow> address \<Rightarrow> nonce_row list \<Rightarrow> int" where
  "max_nonce c a rows =
     coalesce (sql_max (map n_nonce
       (filter (\<lambda>r. n_chain_id r = c \<and> n_from_address r = a \<and> n_active r) rows))) (-1)"

definition reserve_stmt :: "execution_id \<Rightarrow> int \<Rightarrow> address \<Rightarrow> (int \<times> int) option stmt" where
  "reserve_stmt e c a locked d =
     (let rows = nonce_assignments d;
          target = target_release c a locked rows;
          rows' = (case target of None \<Rightarrow> rows
                   | Some t \<Rightarrow> update_nonce_state (db_clock d) N_Consumed (n_key t) rows);
          n = (case target of Some t \<Rightarrow> n_nonce t | None \<Rightarrow> max_nonce c a rows + 1)
      in if nonce_lease (db_clock d) (minutes 2) e rows then nonce_commit rows' None d
         else insert_reserved e (nonce_revision e rows) c a n rows' d)"

definition existing_stmt :: "execution_id \<Rightarrow> nonce_row option stmt" where
  "existing_stmt e locked d =
     Inr (latest_row n_execution_id n_revision n_active e (nonce_assignments d), d)"

definition existing_one_stmt :: "execution_id \<Rightarrow> nonce_row stmt" where
  "existing_one_stmt e locked d =
     (case latest_row n_execution_id n_revision n_active e (nonce_assignments d) of
        None \<Rightarrow> Inl RowNotFound | Some r \<Rightarrow> Inr (r, d))"

definition local_db :: "sql_error \<Rightarrow> local_error" where
  "local_db e = Local_DatabaseError (SqlMessage e)"

definition handle_reserve ::
  "chain_id \<Rightarrow> address \<Rightarrow> execution_id \<Rightarrow> (local_error, tx_nonce) prog" where
  "handle_reserve c a e =
     (case u256_to_i64 (chain_u256 c) of
        None \<Rightarrow> throw (Local_Invariant ''chain_id does not fit in i64'')
      | Some ci \<Rightarrow>
          andThen (sql local_db (reserve_stmt e ci a)) (\<lambda>candidate.
            case candidate of
              Some row \<Rightarrow> lift_result (TxNonce_try_from (fst row))
            | None \<Rightarrow>
                andThen (sql local_db (existing_one_stmt e)) (\<lambda>existing.
                  lift_result (TxNonce_try_from (n_nonce existing)))))"


section \<open>Synchronisation with the chain\<close>

definition sync_stmt ::
  "execution_id \<Rightarrow> int \<Rightarrow> address \<Rightarrow> int \<Rightarrow> (int \<times> int) option stmt" where
  "sync_stmt e c a n locked d =
     (let rows = nonce_assignments d; now = db_clock d in
      if nonce_lease now (minutes 5) e rows
         \<or> list_ex (\<lambda>r. n_slot r = (c, a, n) \<and> n_state r = N_Reserved
                        \<and> now - minutes 5 < n_updated_at r) rows
      then Inr (None, d)
      else insert_reserved e (nonce_revision e rows) c a n rows d)"

definition handle_sync ::
  "chain_id \<Rightarrow> address \<Rightarrow> execution_id \<Rightarrow> tx_nonce \<Rightarrow> (local_error, tx_nonce) prog" where
  "handle_sync c a e nonce_on_chain =
     (case u256_to_i64 (chain_u256 c) of
        None \<Rightarrow> throw (Local_Invariant ''chain_id does not fit in i64'')
      | Some ci \<Rightarrow>
         (case u256_to_i64 (nonce_u256 nonce_on_chain) of
            None \<Rightarrow> throw (Local_Invariant ''nonce_on_chain does not fit in i64'')
          | Some ni \<Rightarrow>
              andThen (sql local_db (sync_stmt e ci a ni)) (\<lambda>reserved.
                case reserved of
                  Some row \<Rightarrow> lift_result (TxNonce_try_from (fst row))
                | None \<Rightarrow>
                    andThen (sql local_db (existing_stmt e)) (\<lambda>existing.
                      case existing of
                        Some row \<Rightarrow> lift_result (TxNonce_try_from (n_nonce row))
                      | None \<Rightarrow>
                          throw (Local_Rejected (''nonce '' @ show_tx_nonce nonce_on_chain @
                            '' was already reserved by another execution during sync''))))))"


section \<open>Resolution\<close>

definition show_nonce_state :: "nonce_state \<Rightarrow> string" where
  "show_nonce_state s =
     (case s of N_Reserved \<Rightarrow> ''Reserved'' | N_Finalized \<Rightarrow> ''Finalized''
      | N_Released \<Rightarrow> ''Released'' | N_Consumed \<Rightarrow> ''Consumed'')"

definition resolve_stmt :: "execution_id \<Rightarrow> nonce_state \<Rightarrow> nat stmt" where
  "resolve_stmt e s locked d =
     (let rows = nonce_assignments d in
      case latest_row n_execution_id n_revision
             (\<lambda>r. n_state r = N_Reserved \<and> n_key r \<notin> set locked) e rows of
        None \<Rightarrow> Inr (0, d)
      | Some t \<Rightarrow> nonce_commit (update_nonce_state (db_clock d) s (n_key t) rows) 1 d)"

definition latest_nonce_stmt :: "execution_id \<Rightarrow> nonce_row option stmt" where
  "latest_nonce_stmt e locked d =
     Inr (latest_row n_execution_id n_revision (\<lambda>_. True) e (nonce_assignments d), d)"

definition handle_resolve :: "execution_id \<Rightarrow> nonce_state \<Rightarrow> (local_error, unit) prog" where
  "handle_resolve e s =
     (if s = N_Reserved then throw (Local_Internal ''noce should have been 'reserved' by now'')
      else
        andThen (sql local_db (resolve_stmt e s)) (\<lambda>rows_affected.
          if rows_affected > 0 then ret ()
          else
            andThen (sql local_db (latest_nonce_stmt e)) (\<lambda>latest.
              case latest of
                Some row \<Rightarrow>
                  (if n_state row = s then ret ()
                   else if n_state row \<noteq> N_Reserved
                   then throw (Local_Internal (''execution_id already resolved to '' @
                          show_nonce_state (n_state row) @ '', cannot transition to '' @
                          show_nonce_state s))
                   else throw (Local_Invariant ''expected reserved state but UPDATE failed''))
              | None \<Rightarrow> throw (Local_Invariant ''invalid execution_id''))))"


section \<open>The actor loop\<close>

text \<open>
  Each command carries its own reply channel; the actor takes one command at a time and sends the
  handler's result back.
\<close>

datatype nonce_command =
    Reserve chain_id address execution_id
  | Resolve execution_id nonce_state
  | Sync chain_id address execution_id tx_nonce

datatype nonce_reply =
    NonceReply "local_error + tx_nonce"
  | UnitReply "local_error + unit"

fun nonce_handle :: "nonce_command \<Rightarrow> db \<Rightarrow> nonce_reply \<times> db" where
  "nonce_handle (Reserve c a e) d = (case handle_reserve c a e d of (r, d') \<Rightarrow> (NonceReply r, d'))"
| "nonce_handle (Resolve e s) d = (case handle_resolve e s d of (r, d') \<Rightarrow> (UnitReply r, d'))"
| "nonce_handle (Sync c a e n) d = (case handle_sync c a e n d of (r, d') \<Rightarrow> (NonceReply r, d'))"

fun nonce_run :: "nonce_command list \<Rightarrow> db \<Rightarrow> nonce_reply list \<times> db" where
  "nonce_run [] d = ([], d)"
| "nonce_run (cmd # cmds) d =
     (case nonce_handle cmd d of (reply, d1) \<Rightarrow>
      case nonce_run cmds d1 of (replies, d2) \<Rightarrow> (reply # replies, d2))"


section \<open>The handle\<close>

text \<open>
  \<^verbatim>\<open>nonce/handle.rs\<close>: a call sends a command and waits for the reply. The mailbox may be
  closed, and the actor may drop the reply before or after it has run the handler.
\<close>

definition NonceHandle_reserve ::
  "link \<Rightarrow> chain_id \<Rightarrow> address \<Rightarrow> execution_id \<Rightarrow> (local_error, tx_nonce) prog" where
  "NonceHandle_reserve l c a e =
     actor_call l (Local_Internal ''nonce actor has shut down'')
       (Local_Internal ''nonce actor has dropped the reply channel'') (handle_reserve c a e)"

definition NonceHandle_resolve ::
  "link \<Rightarrow> execution_id \<Rightarrow> nonce_state \<Rightarrow> (local_error, unit) prog" where
  "NonceHandle_resolve l e s =
     actor_call l (Local_Internal ''nonce actor has shut down'')
       (Local_Internal ''nonce actor has dropped the reply channel'') (handle_resolve e s)"

definition NonceHandle_sync ::
  "link \<Rightarrow> chain_id \<Rightarrow> address \<Rightarrow> execution_id \<Rightarrow> tx_nonce \<Rightarrow> (local_error, tx_nonce) prog" where
  "NonceHandle_sync l c a e n =
     actor_call l (Local_Internal ''nonce actor has shut down'')
       (Local_Internal ''nonce actor has dropped the reply channel'') (handle_sync c a e n)"


section \<open>The invariant of the table\<close>

definition nonce_row_ok :: "db_time \<Rightarrow> nonce_row \<Rightarrow> bool" where
  "nonce_row_ok now r \<longleftrightarrow>
     0 \<le> n_nonce r \<and> n_nonce r \<le> i64_max \<and> n_created_at r \<le> n_updated_at r \<and> n_updated_at r \<le> now"

definition nonce_inv :: "db \<Rightarrow> bool" where
  "nonce_inv d \<longleftrightarrow>
     distinct (map n_key (nonce_assignments d)) \<and>
     distinct (map n_slot (filter n_active (nonce_assignments d))) \<and>
     gapless n_execution_id n_revision (nonce_assignments d) \<and>
     (\<forall>r \<in> set (nonce_assignments d). nonce_row_ok (db_clock d) r)"

text \<open>
  How a table may evolve: old rows stay, in place, with their key and slot; a reserved row may be
  resolved, a released row may be consumed, and nothing else changes; what is added is reserved.
\<close>

definition nonce_row_step :: "nonce_row \<Rightarrow> nonce_row \<Rightarrow> bool" where
  "nonce_row_step r r' \<longleftrightarrow>
     n_key r' = n_key r \<and> n_slot r' = n_slot r \<and>
     (n_state r' = n_state r \<or> n_state r = N_Reserved \<or>
      n_state r = N_Released \<and> n_state r' = N_Consumed)"

definition nonce_evolves :: "nonce_row list \<Rightarrow> nonce_row list \<Rightarrow> bool" where
  "nonce_evolves rows rows' \<longleftrightarrow>
     length rows \<le> length rows' \<and> (\<forall>i < length rows. nonce_row_step (rows ! i) (rows' ! i))"

interpretation nt: revision_table n_execution_id n_revision set_nonce_state
  by unfold_locales (auto simp: set_nonce_state_def)

lemma n_key_eta: "n_key = (\<lambda>r. (n_execution_id r, n_revision r))"
  by (rule ext) (simp add: n_key_def)

lemma set_nonce_state_simps [simp]:
  "n_key (set_nonce_state c r) = n_key r"
  "n_slot (set_nonce_state c r) = n_slot r"
  "n_nonce (set_nonce_state c r) = n_nonce r"
  "n_chain_id (set_nonce_state c r) = n_chain_id r"
  "n_from_address (set_nonce_state c r) = n_from_address r"
  "n_state (set_nonce_state c r) = snd c"
  "n_created_at (set_nonce_state c r) = n_created_at r"
  by (simp_all add: set_nonce_state_def n_key_def n_slot_def)

lemma reserved_row_simps [simp]:
  "n_key (reserved_row now e v c a n) = (e, v)"
  "n_slot (reserved_row now e v c a n) = (c, a, n)"
  "n_state (reserved_row now e v c a n) = N_Reserved"
  "n_execution_id (reserved_row now e v c a n) = e"
  "n_revision (reserved_row now e v c a n) = v"
  "n_nonce (reserved_row now e v c a n) = n"
  "n_updated_at (reserved_row now e v c a n) = now"
  "n_active (reserved_row now e v c a n)"
  by (simp_all add: reserved_row_def n_key_def n_slot_def n_active_def)

lemma update_nonce_keys [simp]: "map n_key (update_nonce_state now s k rows) = map n_key rows"
  unfolding update_nonce_state_def n_key_eta by (rule nt.update_keys)

lemma update_nonce_gapless [simp]:
  "gapless n_execution_id n_revision (update_nonce_state now s k rows) =
   gapless n_execution_id n_revision rows"
  by (simp add: update_nonce_state_def)

lemma update_nonce_length [simp]: "length (update_nonce_state now s k rows) = length rows"
  by (simp add: update_nonce_state_def update_row_def)

lemma update_nonce_nth:
  "i < length rows \<Longrightarrow> update_nonce_state now s k rows ! i =
     (if n_key (rows ! i) = k then set_nonce_state (now, s) (rows ! i) else rows ! i)"
  by (simp add: update_nonce_state_def update_row_def n_key_def)

lemma set_update_nonce:
  "set (update_nonce_state now s k rows) =
     (\<lambda>r. if n_key r = k then set_nonce_state (now, s) r else r) ` set rows"
  by (simp add: update_nonce_state_def update_row_def n_key_def)

lemma update_nonce_next_revision [simp]:
  "nonce_revision e (update_nonce_state now s k rows) = nonce_revision e rows"
proof -
  have "map n_revision (filter (\<lambda>r. n_execution_id r = e) (update_nonce_state now s k rows)) =
      map n_revision (filter (\<lambda>r. n_execution_id r = e) rows)"
    by (simp add: update_nonce_state_def update_row_def filter_map o_def
        if_distrib [of n_execution_id] if_distrib [of n_revision] cong: if_cong)
  then show ?thesis by (simp add: nonce_revision_def next_revision_def)
qed


subsection \<open>Preservation\<close>

lemma nonce_commit_Inr:
  "nonce_commit rows x d = Inr (y, d') \<longleftrightarrow>
     y = x \<and> d' = d\<lparr>nonce_assignments := rows\<rparr> \<and> distinct (map n_key rows) \<and>
     distinct (map n_slot (filter n_active rows))"
  by (auto simp: nonce_commit_def unique_commit_def)

lemma nonce_row_ok_set_state:
  "nonce_row_ok now r \<Longrightarrow> nonce_row_ok now (set_nonce_state (now, s) r)"
  by (auto simp: nonce_row_ok_def set_nonce_state_def)

lemma nonce_inv_update:
  assumes "nonce_inv d" "distinct (map n_slot (filter n_active (update_nonce_state (db_clock d) s k (nonce_assignments d))))"
  shows "nonce_inv (d\<lparr>nonce_assignments := update_nonce_state (db_clock d) s k (nonce_assignments d)\<rparr>)"
  using assms by (auto simp: nonce_inv_def set_update_nonce nonce_row_ok_set_state)

lemma nonce_inv_append:
  assumes "nonce_inv (d\<lparr>nonce_assignments := rows\<rparr>)" "v = nonce_revision e rows" "0 \<le> n" "bigint_ok n"
    and "distinct (map n_key (rows @ [reserved_row (db_clock d) e v c a n]))"
    and "distinct (map n_slot (filter n_active (rows @ [reserved_row (db_clock d) e v c a n])))"
  shows "nonce_inv (d\<lparr>nonce_assignments := rows @ [reserved_row (db_clock d) e v c a n]\<rparr>)"
proof -
  have "gapless n_execution_id n_revision (rows @ [reserved_row (db_clock d) e v c a n])"
    using assms(1,2) by (intro gapless_append) (auto simp: nonce_inv_def nonce_revision_def)
  moreover have "nonce_row_ok (db_clock d) (reserved_row (db_clock d) e v c a n)"
    using assms(3,4) by (simp add: nonce_row_ok_def bigint_ok_def reserved_row_def)
  ultimately show ?thesis using assms by (simp add: nonce_inv_def)
qed

lemma nonce_inv_time_stable [invariant_intros]: "time_stable nonce_inv"
  by (force simp: time_stable_def nonce_inv_def nonce_row_ok_def)

lemma target_release_Some:
  assumes "target_release c a locked rows = Some t"
  shows "t \<in> set rows" "n_chain_id t = c" "n_from_address t = a" "n_state t = N_Released"
    "n_key t \<notin> set locked"
    "\<And>r. r \<in> set (released_rows c a rows) \<Longrightarrow> n_key r \<notin> set locked \<Longrightarrow> n_nonce t \<le> n_nonce r"
  using first_by_Some [OF assms [unfolded target_release_def]]
  by (auto simp: released_rows_def less_eq_prod_def)

lemma max_nonce_ge: "\<lbrakk>\<forall>r \<in> set rows. 0 \<le> n_nonce r\<rbrakk> \<Longrightarrow> - 1 \<le> max_nonce c a rows"
  unfolding max_nonce_def
  by (rule sql_max_cases [of "map n_nonce (filter (\<lambda>r. n_chain_id r = c \<and> n_from_address r = a \<and> n_active r) rows)" "-1"])
     fastforce+

lemma consume_keeps_slots:
  assumes "distinct (map n_slot (filter n_active rows))" "s = N_Consumed \<or> s = N_Released"
  shows "distinct (map n_slot (filter n_active (update_nonce_state now s k rows)))"
  unfolding update_nonce_state_def using assms
  by (intro nt.filter_update_weaker) (auto simp: n_active_def)

lemma reserve_stmt_keeps [invariant_intros]: "stmt_keeps nonce_inv (reserve_stmt e c a)"
  unfolding stmt_keeps_def
proof (intro allI impI)
  fix locked d x d'
  assume inv: "nonce_inv d" and run: "reserve_stmt e c a locked d = Inr (x, d')"
  define rows where "rows = nonce_assignments d"
  define rows' where "rows' = (case target_release c a locked rows of None \<Rightarrow> rows
     | Some t \<Rightarrow> update_nonce_state (db_clock d) N_Consumed (n_key t) rows)"
  define n where "n = (case target_release c a locked rows of Some t \<Rightarrow> n_nonce t
     | None \<Rightarrow> max_nonce c a rows + 1)"
  have ok: "\<forall>r \<in> set rows. 0 \<le> n_nonce r" using inv by (simp add: nonce_inv_def rows_def nonce_row_ok_def)
  have n: "0 \<le> n"
    using max_nonce_ge [OF ok, of c a] ok target_release_Some(1) [of c a locked rows]
    by (auto simp: n_def split: option.splits)
  have inv': "nonce_inv (d\<lparr>nonce_assignments := rows'\<rparr>)"
  proof (cases "target_release c a locked rows")
    case None
    then show ?thesis using inv by (simp add: rows'_def rows_def)
  next
    case (Some t)
    then show ?thesis
      using inv nonce_inv_update [of d N_Consumed "n_key t"] consume_keeps_slots
      by (simp add: rows'_def rows_def nonce_inv_def)
  qed
  have rev: "nonce_revision e rows' = nonce_revision e rows"
    by (simp add: rows'_def split: option.splits)
  from run show "nonce_inv d'"
    using inv' n nonce_inv_append [OF inv' rev [symmetric] n]
    by (auto simp: reserve_stmt_def Let_def insert_reserved_def nonce_commit_Inr
        simp flip: rows_def rows'_def n_def split: if_splits)
qed

lemma sync_stmt_keeps [invariant_intros]: "0 \<le> n \<Longrightarrow> stmt_keeps nonce_inv (sync_stmt e c a n)"
  using nonce_inv_append [OF _ refl]
  by (auto simp: stmt_keeps_def sync_stmt_def Let_def insert_reserved_def nonce_commit_Inr split: if_splits)

lemma resolve_stmt_keeps [invariant_intros]: "stmt_keeps nonce_inv (resolve_stmt e s)"
  by (auto simp: stmt_keeps_def resolve_stmt_def Let_def nonce_commit_Inr split: option.splits
      intro!: nonce_inv_update)

lemma select_stmts_keep [invariant_intros]:
  "stmt_keeps P (existing_stmt e)" "stmt_keeps P (existing_one_stmt e)"
  "stmt_keeps P (latest_nonce_stmt e)"
  by (auto simp: stmt_keeps_def existing_stmt_def existing_one_stmt_def latest_nonce_stmt_def
      split: option.splits)


subsection \<open>Evolution\<close>

text \<open>
  The invariant together with the table's history since a given moment is again a predicate of the
  store, so the rules for \<open>keeps\<close> carry both at once.
\<close>

definition nonce_from :: "nonce_row list \<Rightarrow> db \<Rightarrow> bool" where
  "nonce_from rows0 d \<longleftrightarrow> nonce_inv d \<and> nonce_evolves rows0 (nonce_assignments d)"

lemma nonce_evolves_refl [simp]: "nonce_evolves rows rows"
  by (simp add: nonce_evolves_def nonce_row_step_def)

lemma nonce_row_step_trans: "nonce_row_step r r' \<Longrightarrow> nonce_row_step r' r'' \<Longrightarrow> nonce_row_step r r''"
  by (auto simp: nonce_row_step_def)

lemma nonce_evolves_trans:
  "nonce_evolves rows rows' \<Longrightarrow> nonce_evolves rows' rows'' \<Longrightarrow> nonce_evolves rows rows''"
  by (auto simp: nonce_evolves_def intro: nonce_row_step_trans dest: less_le_trans)

lemma nonce_evolves_append: "nonce_evolves rows rows' \<Longrightarrow> nonce_evolves rows (rows' @ new)"
  by (auto simp: nonce_evolves_def nth_append)

lemma nonce_evolves_update:
  assumes "\<And>r. r \<in> set rows \<Longrightarrow> n_key r = k \<Longrightarrow>
      n_state r = N_Reserved \<or> n_state r = N_Released \<and> s = N_Consumed"
  shows "nonce_evolves rows (update_nonce_state now s k rows)"
  using assms by (auto simp: nonce_evolves_def nonce_row_step_def update_nonce_nth)

lemma nonce_key_eq:
  "nonce_inv d \<Longrightarrow> r \<in> set (nonce_assignments d) \<Longrightarrow> t \<in> set (nonce_assignments d) \<Longrightarrow>
   n_key r = n_key t \<Longrightarrow> r = t"
  unfolding nonce_inv_def by (blast intro: distinct_map_eq [of n_key])

lemma nonce_consume_evolves:
  assumes "nonce_inv d" "t \<in> set (nonce_assignments d)" "n_state t = N_Released \<and> s = N_Consumed \<or> n_state t = N_Reserved"
  shows "nonce_evolves (nonce_assignments d) (update_nonce_state now s (n_key t) (nonce_assignments d))"
  using assms nonce_key_eq [OF assms(1) _ assms(2)] by (intro nonce_evolves_update) auto

lemma reserve_stmt_evolves:
  assumes "nonce_inv d" "reserve_stmt e c a locked d = Inr (x, d')"
  shows "nonce_evolves (nonce_assignments d) (nonce_assignments d')"
proof -
  let ?rows = "nonce_assignments d"
  have "nonce_evolves ?rows (case target_release c a locked ?rows of None \<Rightarrow> ?rows
      | Some t \<Rightarrow> update_nonce_state (db_clock d) N_Consumed (n_key t) ?rows)"
    using nonce_consume_evolves [OF assms(1)] target_release_Some(1,4)
    by (auto split: option.splits)
  then show ?thesis
    using assms(2) nonce_evolves_append
    by (auto simp: reserve_stmt_def Let_def insert_reserved_def nonce_commit_Inr split: if_splits)
qed

lemma sync_stmt_evolves:
  "sync_stmt e c a n locked d = Inr (x, d') \<Longrightarrow>
   nonce_evolves (nonce_assignments d) (nonce_assignments d')"
  by (auto simp: sync_stmt_def Let_def insert_reserved_def nonce_commit_Inr nonce_evolves_append
      split: if_splits)

lemma resolve_stmt_evolves:
  assumes "nonce_inv d" "resolve_stmt e s locked d = Inr (x, d')"
  shows "nonce_evolves (nonce_assignments d) (nonce_assignments d')"
proof (cases "latest_row n_execution_id n_revision
      (\<lambda>r. n_state r = N_Reserved \<and> n_key r \<notin> set locked) e (nonce_assignments d)")
  case None
  then show ?thesis using assms(2) by (auto simp: resolve_stmt_def)
next
  case (Some t)
  note t = latest_row_Some(1,3) [OF Some]
  with assms(2) Some show ?thesis
    using nonce_consume_evolves [OF assms(1) t(1)]
    by (auto simp: resolve_stmt_def nonce_commit_Inr)
qed

lemma stmt_keeps_from:
  assumes "stmt_keeps nonce_inv q"
    and "\<And>locked d x d'. nonce_inv d \<Longrightarrow> q locked d = Inr (x, d') \<Longrightarrow>
      nonce_evolves (nonce_assignments d) (nonce_assignments d')"
  shows "stmt_keeps (nonce_from rows0) q"
  using assms by (auto simp: stmt_keeps_def nonce_from_def) (blast intro: nonce_evolves_trans)

lemma nonce_from_time_stable [invariant_intros]: "time_stable (nonce_from rows0)"
  using nonce_inv_time_stable by (auto simp: nonce_from_def time_stable_def)

lemma reserve_stmt_from [invariant_intros]: "stmt_keeps (nonce_from rows0) (reserve_stmt e c a)"
  by (blast intro: stmt_keeps_from reserve_stmt_keeps reserve_stmt_evolves)

lemma sync_stmt_from [invariant_intros]: "0 \<le> n \<Longrightarrow> stmt_keeps (nonce_from rows0) (sync_stmt e c a n)"
  by (blast intro: stmt_keeps_from sync_stmt_keeps sync_stmt_evolves)

lemma resolve_stmt_from [invariant_intros]: "stmt_keeps (nonce_from rows0) (resolve_stmt e s)"
  by (blast intro: stmt_keeps_from resolve_stmt_keeps resolve_stmt_evolves)

lemma handle_reserve_from [invariant_intros]: "keeps (nonce_from rows0) (handle_reserve c a e)"
  unfolding handle_reserve_def by (intro invariant_intros)

lemma handle_sync_from [invariant_intros]: "keeps (nonce_from rows0) (handle_sync c a e n)"
  unfolding handle_sync_def by (intro invariant_intros) (rule u256_to_i64_nonneg)

lemma handle_resolve_from [invariant_intros]: "keeps (nonce_from rows0) (handle_resolve e s)"
  unfolding handle_resolve_def by (intro invariant_intros)

lemma nonce_handle_snd:
  "snd (nonce_handle (Reserve c a e) d) = snd (handle_reserve c a e d)"
  "snd (nonce_handle (Resolve e s) d) = snd (handle_resolve e s d)"
  "snd (nonce_handle (Sync c a e n) d) = snd (handle_sync c a e n d)"
  by (simp_all split: prod.splits)

lemma nonce_handle_from: "nonce_from rows0 d \<Longrightarrow> nonce_from rows0 (snd (nonce_handle cmd d))"
  by (cases cmd)
     (simp_all only: nonce_handle_snd keepsD [OF handle_reserve_from] keepsD [OF handle_sync_from]
       keepsD [OF handle_resolve_from])


section \<open>Which nonce a reservation takes\<close>

text \<open>
  The abstract allocator: the lowest released nonce of the address, else the successor of the
  highest active one, else zero.
\<close>

definition released_nonces :: "int \<Rightarrow> address \<Rightarrow> nonce_row list \<Rightarrow> int set" where
  "released_nonces c a rows = n_nonce ` set (released_rows c a rows)"

definition active_nonces :: "int \<Rightarrow> address \<Rightarrow> nonce_row list \<Rightarrow> int set" where
  "active_nonces c a rows =
     n_nonce ` {r \<in> set rows. n_chain_id r = c \<and> n_from_address r = a \<and> n_active r}"

definition next_nonce :: "int \<Rightarrow> address \<Rightarrow> nonce_row list \<Rightarrow> int" where
  "next_nonce c a rows =
     (if released_nonces c a rows \<noteq> {} then Min (released_nonces c a rows)
      else if active_nonces c a rows \<noteq> {} then Max (active_nonces c a rows) + 1
      else 0)"

definition consume_lowest :: "int \<Rightarrow> address \<Rightarrow> db_time \<Rightarrow> nonce_row list \<Rightarrow> nonce_row list" where
  "consume_lowest c a now rows =
     (case target_release c a [] rows of None \<Rightarrow> rows
      | Some t \<Rightarrow> update_nonce_state now N_Consumed (n_key t) rows)"

lemma finite_nonces [simp]: "finite (released_nonces c a rows)" "finite (active_nonces c a rows)"
  by (simp_all add: released_nonces_def active_nonces_def)

lemma active_nonces_iff: "n \<in> active_nonces c a rows \<longleftrightarrow> (c, a, n) \<in> n_slot ` {r \<in> set rows. n_active r}"
  by (auto simp: active_nonces_def n_slot_def)

lemma target_release_None [simp]:
  "target_release c a [] rows = None \<longleftrightarrow> released_nonces c a rows = {}"
  by (simp add: target_release_def released_nonces_def)

lemma target_release_Min:
  assumes "target_release c a [] rows = Some t"
  shows "n_nonce t = Min (released_nonces c a rows)"
proof -
  have "n_nonce t \<in> released_nonces c a rows"
    using target_release_Some(1-4) [OF assms] by (auto simp: released_nonces_def released_rows_def)
  moreover have "n_nonce t \<le> m" if "m \<in> released_nonces c a rows" for m
    using target_release_Some(6) [OF assms] that by (auto simp: released_nonces_def)
  ultimately show ?thesis by (intro Min_eqI [symmetric]) auto
qed

lemma max_nonce_Max:
  "max_nonce c a rows = (if active_nonces c a rows = {} then - 1 else Max (active_nonces c a rows))"
proof -
  let ?xs = "map n_nonce (filter (\<lambda>r. n_chain_id r = c \<and> n_from_address r = a \<and> n_active r) rows)"
  have set: "set ?xs = active_nonces c a rows" by (auto simp: active_nonces_def)
  show ?thesis
  proof (rule sql_max_cases [of ?xs "- 1"])
    assume "?xs = []" "coalesce (sql_max ?xs) (- 1) = - 1"
    then show ?thesis using set by (simp add: max_nonce_def)
  next
    assume "?xs \<noteq> []" "coalesce (sql_max ?xs) (- 1) \<in> set ?xs"
      and "\<forall>y \<in> set ?xs. y \<le> coalesce (sql_max ?xs) (- 1)"
    then have "Max (active_nonces c a rows) = max_nonce c a rows" "active_nonces c a rows \<noteq> {}"
      unfolding max_nonce_def set by (auto intro: Max_eqI)
    then show ?thesis by simp
  qed
qed

lemma reserve_candidate:
  "(case target_release c a [] rows of Some t \<Rightarrow> n_nonce t | None \<Rightarrow> max_nonce c a rows + 1) =
   next_nonce c a rows"
proof (cases "target_release c a [] rows")
  case None
  then show ?thesis by (simp add: next_nonce_def max_nonce_Max del: target_release_None)
      (simp add: None flip: target_release_None)
next
  case (Some t)
  then have "released_nonces c a rows \<noteq> {}" by (metis option.distinct(1) target_release_None)
  with Some show ?thesis by (simp add: next_nonce_def target_release_Min)
qed

lemma reserve_stmt_unlocked:
  "reserve_stmt e c a [] d =
     (if nonce_lease (db_clock d) (minutes 2) e (nonce_assignments d)
      then nonce_commit (consume_lowest c a (db_clock d) (nonce_assignments d)) None d
      else insert_reserved e (nonce_revision e (nonce_assignments d)) c a
             (next_nonce c a (nonce_assignments d))
             (consume_lowest c a (db_clock d) (nonce_assignments d)) d)"
  by (simp add: reserve_stmt_def Let_def reserve_candidate consume_lowest_def)

lemma consume_lowest_active:
  "{r \<in> set (consume_lowest c a now rows). n_active r} \<subseteq> {r \<in> set rows. n_active r}"
  by (auto simp: consume_lowest_def set_update_nonce n_active_def split: option.splits if_splits)

lemma filter_active_update:
  assumes "\<forall>r \<in> set rows. n_key r = k \<longrightarrow> \<not> n_active r"
  shows "filter n_active (update_nonce_state now N_Consumed k rows) = filter n_active rows"
  using assms
  by (induction rows) (auto simp: update_nonce_state_def update_row_def n_key_def n_active_def)

lemma consume_lowest_filter:
  assumes "nonce_inv d"
  shows "filter n_active (consume_lowest c a now (nonce_assignments d)) =
         filter n_active (nonce_assignments d)"
proof (cases "target_release c a [] (nonce_assignments d)")
  case None
  then show ?thesis by (simp add: consume_lowest_def del: target_release_None)
next
  case (Some t)
  note t = target_release_Some(1,4) [OF Some]
  have "\<forall>r \<in> set (nonce_assignments d). n_key r = n_key t \<longrightarrow> \<not> n_active r"
    using nonce_key_eq [OF assms _ t(1)] t(2)
    by (metis n_active_def nonce_state.distinct(3) nonce_state.distinct(7))
  then show ?thesis using Some by (simp add: consume_lowest_def filter_active_update)
qed

lemma consume_lowest_keys [simp]: "map n_key (consume_lowest c a now rows) = map n_key rows"
  by (simp add: consume_lowest_def split: option.splits)

lemma next_nonce_nonneg: "nonce_inv d \<Longrightarrow> 0 \<le> next_nonce c a (nonce_assignments d)"
  using max_nonce_ge [of "nonce_assignments d" c a] target_release_Some(1) [of c a "[]" "nonce_assignments d"]
  unfolding reserve_candidate [symmetric]
  by (auto simp: nonce_inv_def nonce_row_ok_def split: option.splits)

lemma revision_bounds:
  assumes "nonce_inv d"
  shows "1 \<le> nonce_revision e (nonce_assignments d)"
    "nonce_revision e (nonce_assignments d) \<le> int (length (nonce_assignments d)) + 1"
  using assms gapless_next_revision [of n_execution_id n_revision "nonce_assignments d" e]
  by (simp_all add: nonce_inv_def nonce_revision_def)

lemma new_key_fresh:
  "map n_key rows' = map n_key rows \<Longrightarrow> (e, nonce_revision e rows) \<notin> n_key ` set rows'"
proof -
  assume "map n_key rows' = map n_key rows"
  then have "n_key ` set rows' = n_key ` set rows" by (metis list.set_map)
  moreover have "(e, nonce_revision e rows) \<notin> n_key ` set rows"
    using next_revision_upper [of _ rows n_execution_id e n_revision]
    by (fastforce simp: n_key_def nonce_revision_def)
  ultimately show ?thesis by simp
qed

text \<open>What an insertion does once its number is in range: exactly the active index decides.\<close>

lemma insert_reserved_cases:
  assumes "nonce_inv d" "bigint_ok n" "int (length (nonce_assignments d)) < i64_max"
    and "map n_key rows = map n_key (nonce_assignments d)"
    and "filter n_active rows = filter n_active (nonce_assignments d)"
    and "v = nonce_revision e (nonce_assignments d)"
  shows "insert_reserved e v c a n rows d =
    (if n \<in> active_nonces c a (nonce_assignments d) then Inl (UniqueViolation ''uniq_active_nonce'')
     else Inr (Some (n, v), d\<lparr>nonce_assignments := rows @ [reserved_row (db_clock d) e v c a n]\<rparr>))"
proof -
  have v: "bigint_ok v" using revision_bounds [OF assms(1), of e] assms(3,6)
    by (simp add: bigint_ok_def)
  have keys: "distinct (map n_key (rows @ [reserved_row (db_clock d) e v c a n]))"
    using assms(1) new_key_fresh [OF assms(4), of e] assms(4,6)
    by (simp add: nonce_inv_def) (metis list.set_map)
  have "distinct (map n_slot (filter n_active (rows @ [reserved_row (db_clock d) e v c a n]))) \<longleftrightarrow>
      n \<notin> active_nonces c a (nonce_assignments d)"
    using assms(1,5) by (auto simp: nonce_inv_def active_nonces_iff)
  with keys v assms(2) show ?thesis
    by (simp add: insert_reserved_def nonce_commit_def unique_commit_def)
qed

end
