(* ===== verification/Sweeper.thy ===== *)
theory Sweeper
  imports Nonce_Engine
begin

text \<open>
  The sweeper bot, \<^verbatim>\<open>lobby/src/bots/sweeper.rs\<close>: one statement that releases, for at most a
  hundred executions in the order of their identifiers, the latest reservation that is older than
  two minutes and five seconds, and the loop that runs it every thirty seconds.
\<close>

section \<open>The statement\<close>

definition stale_row :: "db_time \<Rightarrow> nonce_row \<Rightarrow> bool" where
  "stale_row now r \<longleftrightarrow> n_state r = N_Reserved \<and> n_updated_at r < now - (minutes 2 + seconds 5)"

definition stale_executions :: "db_time \<Rightarrow> nonce_row list \<Rightarrow> execution_id list" where
  "stale_executions now rows = sort (remdups (map n_execution_id (filter (stale_row now) rows)))"

definition stale_targets :: "db_time \<Rightarrow> nonce_row list \<Rightarrow> row_key list" where
  "stale_targets now rows =
     map n_key (List.map_filter (\<lambda>e. latest_row n_execution_id n_revision (stale_row now) e rows)
       (take 100 (stale_executions now rows)))"

definition release_rows :: "db_time \<Rightarrow> row_key list \<Rightarrow> nonce_row list \<Rightarrow> nonce_row list" where
  "release_rows now ks rows =
     map (\<lambda>r. if n_key r \<in> set ks then set_nonce_state (now, N_Released) r else r) rows"

definition expire_stmt :: "(int \<times> execution_id) list stmt" where
  "expire_stmt locked d =
     (let rows = nonce_assignments d; ks = stale_targets (db_clock d) rows in
      nonce_commit (release_rows (db_clock d) ks rows)
        (map (\<lambda>r. (n_nonce r, n_execution_id r)) (filter (\<lambda>r. n_key r \<in> set ks) rows)) d)"

definition expire_states :: "(sql_error, nat \<times> execution_id list) prog" where
  "expire_states = andThen (sql id expire_stmt) (\<lambda>result. ret (length result, map snd result))"


section \<open>The loop\<close>

datatype sweep_log = StaleReleased nat "execution_id list" | NothingStale | ExpirationFailed sql_error

definition sweep_once :: "db \<Rightarrow> sweep_log \<times> db" where
  "sweep_once d =
     (case expire_states d of
        (Inr (count, txn_list), d') \<Rightarrow>
          (if count > 0 then StaleReleased count txn_list else NothingStale, d')
      | (Inl e, d') \<Rightarrow> (ExpirationFailed e, d'))"

fun sweeper_ticks :: "nat \<Rightarrow> db \<Rightarrow> sweep_log list \<times> db" where
  "sweeper_ticks 0 d = ([], d)"
| "sweeper_ticks (Suc n) d =
     (case sweep_once d of (l, d1) \<Rightarrow>
      case sweeper_ticks n (elapse (nat (seconds 30)) (db_script d1) d1) of (ls, d2) \<Rightarrow> (l # ls, d2))"


section \<open>Preservation\<close>

lemma stale_targets_row:
  assumes "k \<in> set (stale_targets now rows)"
  obtains r where "r \<in> set rows" "n_key r = k" "stale_row now r"
    "latest_row n_execution_id n_revision (stale_row now) (n_execution_id r) rows = Some r"
proof -
  obtain e r where "latest_row n_execution_id n_revision (stale_row now) e rows = Some r" "k = n_key r"
    using assms by (auto simp: stale_targets_def map_filter_def)
  with latest_row_Some(1-3) [of n_execution_id n_revision "stale_row now" e rows r] that
  show ?thesis by blast
qed

lemma stale_target_stale:
  assumes "nonce_inv d" "r \<in> set (nonce_assignments d)"
    and "n_key r \<in> set (stale_targets now (nonce_assignments d))"
  shows "stale_row now r"
  using stale_targets_row [OF assms(3)] nonce_key_eq [OF assms(1,2)] by metis

lemma release_rows_simps [simp]:
  "map n_key (release_rows now ks rows) = map n_key rows"
  "length (release_rows now ks rows) = length rows"
  "i < length rows \<Longrightarrow> release_rows now ks rows ! i =
     (if n_key (rows ! i) \<in> set ks then set_nonce_state (now, N_Released) (rows ! i) else rows ! i)"
  by (simp_all add: release_rows_def)

lemma release_rows_slots:
  "distinct (map n_slot (filter n_active rows)) \<Longrightarrow>
   distinct (map n_slot (filter n_active (release_rows now ks rows)))"
  by (induction rows) (auto simp: release_rows_def n_active_def split: if_splits)

lemma release_rows_gapless:
  "gapless n_execution_id n_revision (release_rows now ks rows) = gapless n_execution_id n_revision rows"
  by (simp add: gapless_def release_rows_def filter_map o_def if_distrib [of n_execution_id]
      if_distrib [of n_revision] cong: if_cong)

lemma release_rows_inv:
  "nonce_inv d \<Longrightarrow> nonce_inv (d\<lparr>nonce_assignments := release_rows (db_clock d) ks (nonce_assignments d)\<rparr>)"
  using release_rows_slots
  by (auto simp: nonce_inv_def release_rows_gapless)
     (auto simp: release_rows_def nonce_row_ok_set_state)

text \<open>The unique indexes never stand in the way of a sweep.\<close>

lemma expire_stmt_Inr:
  "nonce_inv d \<Longrightarrow> expire_stmt locked d =
     Inr (map (\<lambda>r. (n_nonce r, n_execution_id r))
            (filter (\<lambda>r. n_key r \<in> set (stale_targets (db_clock d) (nonce_assignments d))) (nonce_assignments d)),
          d\<lparr>nonce_assignments := release_rows (db_clock d)
              (stale_targets (db_clock d) (nonce_assignments d)) (nonce_assignments d)\<rparr>)"
  using release_rows_inv [of d "stale_targets (db_clock d) (nonce_assignments d)"]
  by (simp add: expire_stmt_def Let_def nonce_commit_def unique_commit_def nonce_inv_def)

lemma expire_stmt_from [invariant_intros]: "stmt_keeps (nonce_from rows0) expire_stmt"
proof (rule stmt_keeps_from)
  show "stmt_keeps nonce_inv expire_stmt"
    by (auto simp: stmt_keeps_def expire_stmt_Inr release_rows_inv)
next
  fix locked d x d'
  assume "nonce_inv d" "expire_stmt locked d = Inr (x, d')"
  then show "nonce_evolves (nonce_assignments d) (nonce_assignments d')"
    using stale_target_stale [of d _ "db_clock d"]
    by (auto simp: expire_stmt_Inr nonce_evolves_def nonce_row_step_def stale_row_def split: if_splits)
qed

lemma expire_states_from [invariant_intros]: "keeps (nonce_from rows0) expire_states"
  unfolding expire_states_def by (intro invariant_intros)

lemma expire_states_quiet:
  assumes "nonce_inv d" "quiet d"
  shows "snd (expire_states d) = d\<lparr>nonce_assignments := release_rows (db_clock d)
     (stale_targets (db_clock d) (nonce_assignments d)) (nonce_assignments d)\<rparr>"
  using assms by (simp add: expire_states_def engine_simps expire_stmt_Inr)

end
