(* ===== verification/Nonce_Safety.thy ===== *)
theory Nonce_Safety
  imports Sweeper
begin

text \<open>
  What the nonce actor and the sweeper guarantee together: the step relation of the table under
  commands, sweeps and the rest of the service, its invariant, the fate of finalized nonces, and
  the exact result of every operation.
\<close>

section \<open>Steps\<close>

text \<open>
  A step is a command of the actor, a sweep, or anything that leaves the table alone while the clock
  moves on (the other actors, the passage of time, a new script of events).
\<close>

inductive nonce_step :: "db \<Rightarrow> db \<Rightarrow> bool" where
  command: "nonce_handle cmd d = (reply, d') \<Longrightarrow> nonce_step d d'"
| sweep: "expire_states d = (res, d') \<Longrightarrow> nonce_step d d'"
| other: "nonce_assignments d' = nonce_assignments d \<Longrightarrow> db_clock d \<le> db_clock d' \<Longrightarrow> nonce_step d d'"

inductive nonce_steps :: "db \<Rightarrow> db \<Rightarrow> bool" where
  none: "nonce_steps d d"
| more: "nonce_steps d d' \<Longrightarrow> nonce_step d' d'' \<Longrightarrow> nonce_steps d d''"

definition nonce_reachable :: "db \<Rightarrow> bool" where
  "nonce_reachable d \<longleftrightarrow> nonce_steps init_db d"

lemma nonce_step_from:
  assumes "nonce_step d d'" "nonce_from rows0 d"
  shows "nonce_from rows0 d'"
  using assms
proof cases
  case (command cmd reply)
  then show ?thesis using nonce_handle_from [OF assms(2), of cmd] by simp
next
  case (sweep res)
  then show ?thesis using keepsD [OF expire_states_from assms(2)] by simp
next
  case other
  with assms(2) show ?thesis
    unfolding nonce_from_def nonce_inv_def nonce_row_ok_def by fastforce
qed

lemma nonce_steps_from: "nonce_steps d d' \<Longrightarrow> nonce_from rows0 d \<Longrightarrow> nonce_from rows0 d'"
  by (induction rule: nonce_steps.induct) (auto intro: nonce_step_from)

lemma nonce_steps_evolves:
  "nonce_steps d d' \<Longrightarrow> nonce_inv d \<Longrightarrow> nonce_evolves (nonce_assignments d) (nonce_assignments d')"
  using nonce_steps_from [of d d' "nonce_assignments d"] by (simp add: nonce_from_def)

lemma nonce_steps_inv: "nonce_steps d d' \<Longrightarrow> nonce_inv d \<Longrightarrow> nonce_inv d'"
  using nonce_steps_from [of d d' "nonce_assignments d"] by (simp add: nonce_from_def)

lemma nonce_inv_init [simp]: "nonce_inv init_db"
  by (simp add: nonce_inv_def init_db_def)

lemma nonce_reachable_inv: "nonce_reachable d \<Longrightarrow> nonce_inv d"
  unfolding nonce_reachable_def by (erule nonce_steps_inv) simp

lemma active_row_unique:
  assumes "nonce_inv d" "i < length (nonce_assignments d)" "j < length (nonce_assignments d)"
    and "n_active (nonce_assignments d ! i)" "n_active (nonce_assignments d ! j)"
    and "n_slot (nonce_assignments d ! i) = n_slot (nonce_assignments d ! j)"
  shows "i = j"
proof -
  let ?rows = "nonce_assignments d"
  have "?rows ! i = ?rows ! j"
    using assms by (intro distinct_map_filter_eq [of n_slot n_active ?rows]) (auto simp: nonce_inv_def)
  moreover have "distinct ?rows" using assms(1) by (auto simp: nonce_inv_def distinct_map)
  ultimately show ?thesis using assms(2,3) nth_eq_iff_index_eq by blast
qed


section \<open>Sample store\<close>

text \<open>
  The store after execution 1 has reserved nonce 0 of an address and execution 2 has reserved and
  released nonce 1 of it.
\<close>

definition sample_db :: db where
  "sample_db =
     snd (nonce_run [Reserve (ChainId 1) 7 1, Reserve (ChainId 1) 7 2, Resolve 2 N_Released] init_db)"

lemma sample_db_eq:
  "sample_db = init_db\<lparr>nonce_assignments :=
     [reserved_row 0 1 1 1 7 0, set_nonce_state (0, N_Released) (reserved_row 0 2 1 1 7 1)]\<rparr>"
  by code_simp

lemma sample_db_simps [simp]:
  "nonce_assignments sample_db =
     [reserved_row 0 1 1 1 7 0, set_nonce_state (0, N_Released) (reserved_row 0 2 1 1 7 1)]"
  "db_clock sample_db = 0" "quiet sample_db"
  by (simp_all add: sample_db_eq init_db_def quiet_def)

lemma init_quiet [simp]: "quiet init_db"
  by (simp add: init_db_def quiet_def)

lemma nonce_run_steps: "nonce_steps d (snd (nonce_run cmds d))"
proof (induction cmds rule: rev_induct)
  case Nil
  show ?case by (simp add: nonce_steps.none)
next
  case (snoc cmd cmds)
  have "snd (nonce_run (cs @ [cmd]) d0) = snd (nonce_handle cmd (snd (nonce_run cs d0)))" for cs d0
    by (induction cs arbitrary: d0) (auto split: prod.splits, metis snd_conv)
  with snoc show ?case by (metis nonce_step.command nonce_steps.more prod.collapse)
qed

lemma sample_db_reachable: "nonce_reachable sample_db"
  unfolding nonce_reachable_def sample_db_def by (rule nonce_run_steps)

lemma sample_db_inv [simp]: "nonce_inv sample_db"
  using sample_db_reachable by (rule nonce_reachable_inv)


section \<open>Safety\<close>

text \<open>
  C1. In every store that commands of the nonce actor, sweeps and the rest of the service can
  produce, whatever faults, delays and row locks occur: rows have distinct keys, no nonce of an
  address on a chain is held by two reserved or finalized rows, the revisions of each execution
  count up from one without a gap, and every nonce is a non-negative \<open>i64\<close>.
\<close>

theorem nonce_table_invariant: "nonce_reachable d \<Longrightarrow> nonce_inv d"
  by (rule nonce_reachable_inv)

theorem nonce_table_invariant_witness: "nonce_reachable sample_db \<and> nonce_inv sample_db"
  using nonce_table_invariant [of sample_db] sample_db_reachable by simp

text \<open>
  C2. A finalized nonce is spent for good: after any further steps its row is still in place, with its
  key, its slot and the state finalized, and no other reserved or finalized row holds that slot, so
  no later reservation or synchronisation hands the nonce out again.
\<close>

theorem finalized_nonce_never_reassigned:
  assumes "nonce_reachable d" "nonce_steps d d'"
    and "i < length (nonce_assignments d)" "n_state (nonce_assignments d ! i) = N_Finalized"
  defines "r \<equiv> nonce_assignments d ! i" and "rows' \<equiv> nonce_assignments d'"
  shows "i < length rows' \<and> n_key (rows' ! i) = n_key r \<and> n_slot (rows' ! i) = n_slot r \<and>
    n_state (rows' ! i) = N_Finalized \<and>
    (\<forall>j < length rows'. n_active (rows' ! j) \<and> n_slot (rows' ! j) = n_slot r \<longrightarrow> j = i)"
proof -
  have inv: "nonce_inv d" using assms(1) by (rule nonce_reachable_inv)
  have "nonce_evolves (nonce_assignments d) rows'"
    using nonce_steps_evolves [OF assms(2) inv] by (simp add: rows'_def)
  then have i: "i < length rows'" "nonce_row_step r (rows' ! i)"
    using assms(3) by (auto simp: nonce_evolves_def r_def)
  then have row: "n_key (rows' ! i) = n_key r" "n_slot (rows' ! i) = n_slot r"
    "n_state (rows' ! i) = N_Finalized"
    using assms(4) by (auto simp: nonce_row_step_def r_def)
  have "j = i" if "j < length rows'" "n_active (rows' ! j)" "n_slot (rows' ! j) = n_slot r" for j
    using active_row_unique [OF nonce_steps_inv [OF assms(2) inv], of j i] that i(1) row
    by (simp add: n_active_def flip: rows'_def)
  with i(1) row show ?thesis by blast
qed

definition finalized_db :: db where
  "finalized_db = snd (nonce_run [Reserve (ChainId 1) 7 1, Resolve 1 N_Finalized] init_db)"

definition later_db :: db where
  "later_db = snd (nonce_run [Reserve (ChainId 1) 7 2, Resolve 1 N_Released] finalized_db)"

theorem finalized_nonce_never_reassigned_witness:
  "n_state (nonce_assignments finalized_db ! 0) = N_Finalized \<and>
   n_state (nonce_assignments later_db ! 0) = N_Finalized \<and>
   n_slot (nonce_assignments later_db ! 0) = (1, 7, 0)"
proof -
  have reach: "nonce_reachable finalized_db"
    unfolding nonce_reachable_def finalized_db_def by (rule nonce_run_steps)
  have steps: "nonce_steps finalized_db later_db"
    unfolding later_db_def by (rule nonce_run_steps)
  have nth: "n_state (nonce_assignments finalized_db ! 0) = N_Finalized"
    "n_slot (nonce_assignments finalized_db ! 0) = (1, 7, 0)" "0 < length (nonce_assignments finalized_db)"
    by code_simp+
  with finalized_nonce_never_reassigned [OF reach steps nth(3,1)] show ?thesis by simp
qed


section \<open>Reservations\<close>

text \<open>
  \<open>arrival d\<close> is the store when the next statement reaches the service: the delay of the script's
  next event has passed. The reservation passes over released rows that another transaction holds
  locked, so the nonce it takes and the row it consumes are those of the rows it can see.
\<close>

definition arrival :: "db \<Rightarrow> db" where
  "arrival d = elapse (ev_delay (next_event d)) (tl (db_script d)) d"

definition unlocked_rows :: "row_key list \<Rightarrow> nonce_row list \<Rightarrow> nonce_row list" where
  "unlocked_rows locked rows = filter (\<lambda>r. n_key r \<notin> set locked) rows"

definition next_free_nonce :: "int \<Rightarrow> address \<Rightarrow> row_key list \<Rightarrow> nonce_row list \<Rightarrow> int" where
  "next_free_nonce c a locked rows =
     (let free = released_nonces c a (unlocked_rows locked rows) in
      if free \<noteq> {} then Min free
      else if active_nonces c a rows \<noteq> {} then Max (active_nonces c a rows) + 1
      else 0)"

definition consume_free ::
  "int \<Rightarrow> address \<Rightarrow> row_key list \<Rightarrow> db_time \<Rightarrow> nonce_row list \<Rightarrow> nonce_row list" where
  "consume_free c a locked now rows =
     (case target_release c a [] (unlocked_rows locked rows) of None \<Rightarrow> rows
      | Some t \<Rightarrow> update_nonce_state now N_Consumed (n_key t) rows)"

lemma arrival_simps [simp]:
  "nonce_assignments (arrival d) = nonce_assignments d"
  "db_clock (arrival d) = db_clock d + int (ev_delay (next_event d))"
  "db_script (arrival d) = tl (db_script d)"
  "nonce_inv d \<Longrightarrow> nonce_inv (arrival d)"
  using nonce_inv_time_stable by (auto simp: arrival_def time_stable_def)

lemma next_event_quiet [simp]: "quiet d \<Longrightarrow> next_event d = quiet_event" "quiet d \<Longrightarrow> arrival d = d"
  using elapse_none [of d] by (auto simp: next_event_def quiet_def arrival_def quiet_event_def)

lemma quiet_event_simps [simp]:
  "ev_delay quiet_event = 0" "ev_fault quiet_event = NoFault" "ev_locked quiet_event = []"
  by (simp_all add: quiet_event_def)

lemma run_stmt_arrival:
  "run_stmt q d =
     (case ev_fault (next_event d) of
        FailBefore m \<Rightarrow> (Inl (DriverError m), arrival d)
      | f \<Rightarrow> (case q (ev_locked (next_event d)) (arrival d) of
               Inl e \<Rightarrow> (Inl e, arrival d)
             | Inr (r, d2) \<Rightarrow> (case f of FailAfter m \<Rightarrow> (Inl (DriverError m), d2) | _ \<Rightarrow> (Inr r, d2))))"
  unfolding run_stmt_def arrival_def Let_def ..

lemma unlocked_none [simp]: "unlocked_rows [] rows = rows"
  by (simp add: unlocked_rows_def)

lemma next_free_unlocked [simp]: "next_free_nonce c a [] rows = next_nonce c a rows"
  by (simp add: next_free_nonce_def next_nonce_def Let_def)

lemma consume_free_unlocked [simp]: "consume_free c a [] now rows = consume_lowest c a now rows"
  by (simp add: consume_free_def consume_lowest_def)

lemma target_release_unlocked:
  "target_release c a locked rows = target_release c a [] (unlocked_rows locked rows)"
  by (simp add: target_release_def released_rows_def unlocked_rows_def conj_ac)

lemma reserve_free_candidate:
  "(case target_release c a [] (unlocked_rows locked rows) of
      Some t \<Rightarrow> n_nonce t | None \<Rightarrow> max_nonce c a rows + 1) = next_free_nonce c a locked rows"
proof (cases "target_release c a [] (unlocked_rows locked rows)")
  case None
  then have "released_nonces c a (unlocked_rows locked rows) = {}" by simp
  with None show ?thesis by (simp add: next_free_nonce_def max_nonce_Max del: target_release_None)
next
  case (Some t)
  then have "released_nonces c a (unlocked_rows locked rows) \<noteq> {}"
    by (metis option.distinct(1) target_release_None)
  with Some show ?thesis by (simp add: next_free_nonce_def target_release_Min)
qed

lemma reserve_stmt_free:
  "reserve_stmt e c a locked d =
     (let rows = nonce_assignments d; rows' = consume_free c a locked (db_clock d) rows in
      if nonce_lease (db_clock d) (minutes 2) e rows then nonce_commit rows' None d
      else insert_reserved e (nonce_revision e rows) c a (next_free_nonce c a locked rows) rows' d)"
  by (simp add: reserve_stmt_def target_release_unlocked [of c a locked] Let_def reserve_free_candidate
      consume_free_def)

lemma consume_free_keys [simp]: "map n_key (consume_free c a locked now rows) = map n_key rows"
  by (simp add: consume_free_def split: option.splits)

lemma consume_free_filter:
  assumes "nonce_inv d"
  shows "filter n_active (consume_free c a locked now (nonce_assignments d)) =
         filter n_active (nonce_assignments d)"
proof (cases "target_release c a [] (unlocked_rows locked (nonce_assignments d))")
  case None
  then show ?thesis by (simp add: consume_free_def del: target_release_None)
next
  case (Some t)
  have t: "t \<in> set (nonce_assignments d)" "n_state t = N_Released"
    using target_release_Some(1,4) [OF Some] by (auto simp: unlocked_rows_def)
  have "\<forall>r \<in> set (nonce_assignments d). n_key r = n_key t \<longrightarrow> \<not> n_active r"
    using nonce_key_eq [OF assms _ t(1)] t(2)
    by (metis n_active_def nonce_state.distinct(3) nonce_state.distinct(7))
  then show ?thesis using Some by (simp add: consume_free_def filter_active_update)
qed

lemma next_free_nonneg:
  assumes "nonce_inv d"
  shows "0 \<le> next_free_nonce c a locked (nonce_assignments d)"
proof -
  have ok: "\<forall>r \<in> set (nonce_assignments d). 0 \<le> n_nonce r"
    using assms by (simp add: nonce_inv_def nonce_row_ok_def)
  have "0 \<le> n_nonce t" if "target_release c a [] (unlocked_rows locked (nonce_assignments d)) = Some t" for t
    using target_release_Some(1) [OF that] ok by (auto simp: unlocked_rows_def)
  then show ?thesis
    using max_nonce_ge [OF ok, of c a] unfolding reserve_free_candidate [symmetric]
    by (auto split: option.splits)
qed

lemma handle_reserve_outcome:
  fixes a :: address
  assumes "nonce_inv d" "u256_to_i64 (chain_u256 c) = Some ci"
  defines "ev \<equiv> next_event d" and "d1 \<equiv> arrival d" and "rows \<equiv> nonce_assignments d"
  defines "n \<equiv> next_free_nonce ci a (ev_locked ev) rows"
  assumes "\<not> nonce_lease (db_clock d1) (minutes 2) e rows" "n \<le> i64_max" "int (length rows) < i64_max"
  shows "handle_reserve c a e d =
    (case ev_fault ev of
       FailBefore m \<Rightarrow> (Inl (local_db (DriverError m)), d1)
     | f \<Rightarrow>
         if n \<in> active_nonces ci a rows then (Inl (local_db (UniqueViolation ''uniq_active_nonce'')), d1)
         else (case f of FailAfter m \<Rightarrow> Inl (local_db (DriverError m)) | _ \<Rightarrow> Inr (TxNonce (word_of_int n)),
               d1\<lparr>nonce_assignments := consume_free ci a (ev_locked ev) (db_clock d1) rows @
                 [reserved_row (db_clock d1) e (nonce_revision e rows) ci a n]\<rparr>))"
proof -
  have inv: "nonce_inv d1" using assms(1) by (simp add: d1_def)
  have n: "0 \<le> n" using next_free_nonneg [OF assms(1)] by (simp add: n_def rows_def)
  then have ok: "bigint_ok n" using assms(8) by (simp add: bigint_ok_def)
  have rows: "nonce_assignments d1 = rows" by (simp add: d1_def rows_def)
  have ins: "insert_reserved e (nonce_revision e rows) ci a n
        (consume_free ci a (ev_locked ev) (db_clock d1) rows) d1 =
      (if n \<in> active_nonces ci a rows then Inl (UniqueViolation ''uniq_active_nonce'')
       else Inr (Some (n, nonce_revision e rows),
         d1\<lparr>nonce_assignments := consume_free ci a (ev_locked ev) (db_clock d1) rows @
              [reserved_row (db_clock d1) e (nonce_revision e rows) ci a n]\<rparr>))"
    using insert_reserved_cases [OF inv ok, of "consume_free ci a (ev_locked ev) (db_clock d1) rows"
        "nonce_revision e rows" e ci a] assms(9) consume_free_filter [OF inv]
    by (simp add: rows)
  have "reserve_stmt e ci a (ev_locked ev) d1 =
      (if n \<in> active_nonces ci a rows then Inl (UniqueViolation ''uniq_active_nonce'')
       else Inr (Some (n, nonce_revision e rows),
         d1\<lparr>nonce_assignments := consume_free ci a (ev_locked ev) (db_clock d1) rows @
              [reserved_row (db_clock d1) e (nonce_revision e rows) ci a n]\<rparr>))"
    using assms(7) ins by (simp add: reserve_stmt_free Let_def rows flip: n_def)
  then show ?thesis
    using assms(2) n
    by (simp add: handle_reserve_def prog_simps run_stmt_arrival engine_simps
        flip: ev_def d1_def split: db_fault.splits)
qed

lemma handle_reserve_insert:
  assumes "nonce_inv d" "quiet d" "u256_to_i64 (chain_u256 c) = Some ci"
    and "\<not> nonce_lease (db_clock d) (minutes 2) e (nonce_assignments d)"
    and "next_nonce ci a (nonce_assignments d) \<le> i64_max"
    and "int (length (nonce_assignments d)) < i64_max"
  shows "handle_reserve c a e d =
    (let rows = nonce_assignments d; n = next_nonce ci a rows in
     if n \<in> active_nonces ci a rows then (Inl (local_db (UniqueViolation ''uniq_active_nonce'')), d)
     else (Inr (TxNonce (word_of_int n)),
           d\<lparr>nonce_assignments := consume_lowest ci a (db_clock d) rows @
               [reserved_row (db_clock d) e (nonce_revision e rows) ci a n]\<rparr>))"
  using handle_reserve_outcome [OF assms(1,3), where e = e and a = a] assms(2,4-6) by (simp add: Let_def)

lemma handle_reserve_repeat:
  assumes "nonce_inv d" "quiet d" "u256_to_i64 (chain_u256 c) = Some ci"
    and "nonce_lease (db_clock d) (minutes 2) e (nonce_assignments d)"
  obtains r where "latest_row n_execution_id n_revision n_active e (nonce_assignments d) = Some r"
    and "handle_reserve c a e d = (Inr (TxNonce (word_of_int (n_nonce r))),
      d\<lparr>nonce_assignments := consume_lowest ci a (db_clock d) (nonce_assignments d)\<rparr>)"
proof -
  let ?rows = "nonce_assignments d" and ?rows' = "consume_lowest ci a (db_clock d) (nonce_assignments d)"
  let ?d' = "d\<lparr>nonce_assignments := ?rows'\<rparr>"
  have "\<exists>r \<in> set ?rows. n_execution_id r = e \<and> n_active r"
    using assms(4) by (auto simp: nonce_lease_def lease_blocks_iff n_active_def)
  then obtain r where r: "latest_row n_execution_id n_revision n_active e ?rows = Some r"
    using latest_row_None [of n_execution_id n_revision n_active e ?rows]
    by (cases "latest_row n_execution_id n_revision n_active e ?rows") auto
  have r': "latest_row n_execution_id n_revision n_active e ?rows' = Some r"
    using r latest_row_filter [of n_execution_id n_revision n_active e] consume_lowest_filter [OF assms(1)]
    by simp
  have "distinct (map n_slot (filter n_active ?rows'))" "distinct (map n_key ?rows')"
    using assms(1) by (simp_all add: consume_lowest_filter [OF assms(1)] nonce_inv_def)
  moreover have "0 \<le> n_nonce r"
    using assms(1) latest_row_Some(1) [OF r] by (simp add: nonce_inv_def nonce_row_ok_def)
  moreover have "quiet ?d'" using assms(2) by (simp add: quiet_def)
  ultimately have "handle_reserve c a e d = (Inr (TxNonce (word_of_int (n_nonce r))), ?d')"
    using assms(2-4) r'
    by (simp add: handle_reserve_def engine_simps reserve_stmt_unlocked nonce_commit_def
        unique_commit_def existing_one_stmt_def)
  with r that show ?thesis by blast
qed

text \<open>
  C7. A reservation by an execution that holds no finalized nonce and no reservation younger than
  two minutes takes the lowest released nonce of its address among the rows no other transaction
  holds locked when the statement runs, or, when there is none, the successor of the highest active
  nonce, or zero. It is refused, with nothing changed, exactly when that nonce is active; otherwise
  the released row is consumed and one reserved row with the next revision of the execution is
  added. A connection that fails before the statement leaves the table as it was, one that fails
  after it leaves the reservation behind with the error returned. Time may pass before the
  statement.
\<close>

theorem reserve_takes_next_nonce:
  fixes a :: address
  assumes "nonce_inv d" "u256_to_i64 (chain_u256 c) = Some ci"
  defines "ev \<equiv> next_event d" and "d1 \<equiv> arrival d" and "rows \<equiv> nonce_assignments d"
  defines "n \<equiv> next_free_nonce ci a (ev_locked ev) rows"
  assumes "\<not> nonce_lease (db_clock d1) (minutes 2) e rows" "n \<le> i64_max" "int (length rows) < i64_max"
  shows "handle_reserve c a e d =
    (case ev_fault ev of
       FailBefore m \<Rightarrow> (Inl (local_db (DriverError m)), d1)
     | f \<Rightarrow>
         if n \<in> active_nonces ci a rows then (Inl (local_db (UniqueViolation ''uniq_active_nonce'')), d1)
         else (case f of FailAfter m \<Rightarrow> Inl (local_db (DriverError m)) | _ \<Rightarrow> Inr (TxNonce (word_of_int n)),
               d1\<lparr>nonce_assignments := consume_free ci a (ev_locked ev) (db_clock d1) rows @
                 [reserved_row (db_clock d1) e (nonce_revision e rows) ci a n]\<rparr>))"
  using assms(1,2,7-9) unfolding ev_def d1_def rows_def n_def by (rule handle_reserve_outcome)

text \<open>
  Two released nonces, the lower of which another transaction holds locked: the reservation passes
  over it and takes the higher one.
\<close>

definition locked_db :: db where
  "locked_db = (snd (nonce_run
     [Reserve (ChainId 1) 7 1, Reserve (ChainId 1) 7 2, Resolve 1 N_Released, Resolve 2 N_Released]
     init_db))\<lparr>db_script := [\<lparr>ev_delay = 5, ev_fault = NoFault, ev_locked = [(1, 1)]\<rparr>]\<rparr>"

lemma nonce_inv_script [simp]: "nonce_inv (d\<lparr>db_script := evs\<rparr>) = nonce_inv d"
  by (simp add: nonce_inv_def)

lemma nonce_run_inv: "nonce_inv (snd (nonce_run cmds init_db))"
  using nonce_run_steps [of init_db cmds] nonce_inv_init by (rule nonce_steps_inv)

theorem reserve_takes_next_nonce_witness:
  "released_nonces 1 7 (nonce_assignments locked_db) = {0, 1} \<and>
   fst (handle_reserve (ChainId 1) 7 3 locked_db) = Inr (TxNonce 1)"
proof -
  have inv: "nonce_inv locked_db" by (simp only: locked_db_def nonce_inv_script nonce_run_inv)
  have side: "u256_to_i64 (chain_u256 (ChainId 1)) = Some 1"
    "\<not> nonce_lease (db_clock (arrival locked_db)) (minutes 2) 3 (nonce_assignments locked_db)"
    "next_free_nonce 1 7 (ev_locked (next_event locked_db)) (nonce_assignments locked_db) \<le> i64_max"
    "int (length (nonce_assignments locked_db)) < i64_max"
    by code_simp+
  have rows: "ev_fault (next_event locked_db) = NoFault"
    "next_free_nonce 1 7 (ev_locked (next_event locked_db)) (nonce_assignments locked_db) = 1"
    "active_nonces 1 7 (nonce_assignments locked_db) = {}"
    "released_nonces 1 7 (nonce_assignments locked_db) = {0, 1}"
    by code_simp+
  show ?thesis
    using reserve_takes_next_nonce [OF inv side(1), where e = 3 and a = 7] side(2-4) rows by simp
qed

text \<open>
  A reservation repeated while the execution's nonce is finalized or its lease is alive answers
  with the nonce the execution already holds and adds no row. (The statement still consumes the
  lowest released nonce of the address, if there is one.)
\<close>

theorem reserve_repeats_same_nonce:
  assumes "nonce_inv d" "quiet d" "u256_to_i64 (chain_u256 c) = Some ci"
    and "nonce_lease (db_clock d) (minutes 2) e (nonce_assignments d)"
  shows "\<exists>r. latest_row n_execution_id n_revision n_active e (nonce_assignments d) = Some r \<and>
    handle_reserve c a e d = (Inr (TxNonce (word_of_int (n_nonce r))),
      d\<lparr>nonce_assignments := consume_lowest ci a (db_clock d) (nonce_assignments d)\<rparr>)"
  using handle_reserve_repeat [OF assms] by metis

theorem reserve_repeats_same_nonce_witness:
  "fst (handle_reserve (ChainId 1) 7 1 sample_db) = Inr (TxNonce 0) \<and>
   released_nonces 1 7 (nonce_assignments sample_db) = {1} \<and>
   released_nonces 1 7 (nonce_assignments (snd (handle_reserve (ChainId 1) 7 1 sample_db))) = {}"
proof -
  have side: "u256_to_i64 (chain_u256 (ChainId 1)) = Some 1"
    "nonce_lease (db_clock sample_db) (minutes 2) 1 (nonce_assignments sample_db)"
    "latest_row n_execution_id n_revision n_active 1 (nonce_assignments sample_db) =
       Some (reserved_row 0 1 1 1 7 0)"
    by code_simp+
  have sets: "released_nonces 1 7 (nonce_assignments sample_db) = {1}"
    "released_nonces 1 7 (consume_lowest 1 7 0 (nonce_assignments sample_db)) = {}"
    by code_simp+
  from reserve_repeats_same_nonce [OF sample_db_inv _ side(1,2), of 7] sets side(3) show ?thesis by auto
qed


lemma nonce_run_Cons:
  "fst (nonce_run (cmd # cmds) d) =
     fst (nonce_handle cmd d) # fst (nonce_run cmds (snd (nonce_handle cmd d)))"
  by (simp split: prod.splits)

lemma reserve_sequence_step:
  assumes "nonce_inv d" "quiet d" "u256_to_i64 (chain_u256 c) = Some ci"
    and "released_nonces ci a (nonce_assignments d) = {}"
    and "e \<notin> n_execution_id ` set (nonce_assignments d)"
    and "next_nonce ci a (nonce_assignments d) \<le> i64_max"
    and "int (length (nonce_assignments d)) < i64_max"
  defines "d' \<equiv> d\<lparr>nonce_assignments := nonce_assignments d @
      [reserved_row (db_clock d) e (nonce_revision e (nonce_assignments d)) ci a
        (next_nonce ci a (nonce_assignments d))]\<rparr>"
  shows "handle_reserve c a e d = (Inr (TxNonce (word_of_int (next_nonce ci a (nonce_assignments d)))), d')"
    and "released_nonces ci a (nonce_assignments d') = {}"
    and "next_nonce ci a (nonce_assignments d') = next_nonce ci a (nonce_assignments d) + 1"
    and "n_execution_id ` set (nonce_assignments d') = insert e (n_execution_id ` set (nonce_assignments d))"
    and "length (nonce_assignments d') = length (nonce_assignments d) + 1" and "quiet d'"
proof -
  let ?rows = "nonce_assignments d" and ?n = "next_nonce ci a (nonce_assignments d)"
  have lease: "\<not> nonce_lease (db_clock d) (minutes 2) e ?rows"
    using assms(5) by (auto simp: nonce_lease_def lease_blocks_iff)
  have gt: "m < ?n" if "m \<in> active_nonces ci a ?rows" for m
    using that assms(4) Max_ge [of "active_nonces ci a ?rows" m] by (auto simp: next_nonce_def)
  then have "?n \<notin> active_nonces ci a ?rows" by blast
  then show "handle_reserve c a e d = (Inr (TxNonce (word_of_int ?n)), d')"
    using handle_reserve_insert [OF assms(1-3) lease assms(6,7)]
      target_release_None [THEN iffD2, OF assms(4)]
    by (simp add: Let_def consume_lowest_def d'_def del: target_release_None)
  show rel: "released_nonces ci a (nonce_assignments d') = {}"
    using assms(4) by (auto simp: released_nonces_def released_rows_def d'_def)
  have act: "active_nonces ci a (nonce_assignments d') = insert ?n (active_nonces ci a ?rows)"
    by (force simp: active_nonces_iff d'_def)
  then have "Max (active_nonces ci a (nonce_assignments d')) = ?n"
    using gt by (intro Max_eqI) (auto intro: less_imp_le)
  then show "next_nonce ci a (nonce_assignments d') = ?n + 1"
    using rel act by (simp add: next_nonce_def [of ci a "nonce_assignments d'"])
qed (use assms(2) in \<open>auto simp: d'_def quiet_def\<close>)

text \<open>
  Executions the table does not know, reserving one after another on an address without released
  nonces, receive consecutive nonces.
\<close>

theorem reserve_sequence:
  assumes "nonce_inv d" "quiet d" "u256_to_i64 (chain_u256 c) = Some ci"
    and "released_nonces ci a (nonce_assignments d) = {}"
    and "distinct es" "set es \<inter> n_execution_id ` set (nonce_assignments d) = {}"
    and "next_nonce ci a (nonce_assignments d) + int (length es) \<le> i64_max"
    and "int (length (nonce_assignments d)) + int (length es) \<le> i64_max"
  shows "fst (nonce_run (map (Reserve c a) es) d) =
    map (\<lambda>i. NonceReply (Inr (TxNonce (word_of_int (next_nonce ci a (nonce_assignments d) + int i)))))
      [0..<length es]"
  using assms
proof (induction es arbitrary: d)
  case Nil
  then show ?case by simp
next
  case (Cons e es)
  note s = reserve_sequence_step [OF Cons.prems(1-4), of e]
  define d' where "d' = snd (handle_reserve c a e d)"
  have inv: "nonce_inv d'"
    using keepsD [OF handle_reserve_from, of "nonce_assignments d" d c a e] Cons.prems(1)
    by (simp add: d'_def nonce_from_def)
  have d': "handle_reserve c a e d =
      (Inr (TxNonce (word_of_int (next_nonce ci a (nonce_assignments d)))), d')"
    "released_nonces ci a (nonce_assignments d') = {}" "quiet d'"
    "next_nonce ci a (nonce_assignments d') = next_nonce ci a (nonce_assignments d) + 1"
    "n_execution_id ` set (nonce_assignments d') = insert e (n_execution_id ` set (nonce_assignments d))"
    "length (nonce_assignments d') = length (nonce_assignments d) + 1"
    using s Cons.prems(6-8) by (auto simp: d'_def)
  have "fst (nonce_run (map (Reserve c a) es) d') =
      map (\<lambda>i. NonceReply (Inr (TxNonce (word_of_int (next_nonce ci a (nonce_assignments d') + int i)))))
        [0..<length es]"
    using Cons.prems d' by (intro Cons.IH inv) auto
  moreover have "map f [0..<Suc n] = f 0 # map (\<lambda>i. f (Suc i)) [0..<n]" for f :: "nat \<Rightarrow> nonce_reply" and n
    by (simp add: upt_conv_Cons map_Suc_upt [symmetric] del: upt_Suc)
  ultimately show ?case
    using d'(1,4) by (simp add: nonce_run_Cons algebra_simps del: upt_Suc nonce_run.simps)
qed

theorem reserve_sequence_witness:
  "fst (nonce_run (map (Reserve (ChainId 1) 7) [5, 6, 8]) init_db) =
     [NonceReply (Inr (TxNonce 0)), NonceReply (Inr (TxNonce 1)), NonceReply (Inr (TxNonce 2))]"
proof -
  have side: "u256_to_i64 (chain_u256 (ChainId 1)) = Some 1"
    "released_nonces 1 7 (nonce_assignments init_db) = {}" "next_nonce 1 7 (nonce_assignments init_db) = 0"
    by (simp_all add: u256_to_i64_def i64_max_def init_db_def released_nonces_def released_rows_def
        next_nonce_def active_nonces_def)
  show ?thesis
    using reserve_sequence [OF _ _ side(1,2), of "[5, 6, 8]"] side(3)
    by (simp add: init_db_def i64_max_def upt_rec quiet_def nonce_inv_def)
qed


text \<open>
  C8. When the lowest released nonce of an address is also active, every reservation for the address
  by an execution without a lease fails and leaves the table as it was, whatever time passes and
  whatever fault occurs, as long as the blocking released row is not held locked by another
  transaction (the reservation would pass over a locked row).
\<close>

theorem reserve_blocked_by_active_release:
  assumes "nonce_inv d" "u256_to_i64 (chain_u256 c) = Some ci"
  defines "ev \<equiv> next_event d" and "d1 \<equiv> arrival d" and "rows \<equiv> nonce_assignments d"
  assumes "t \<in> set (released_rows ci a rows)" "n_key t \<notin> set (ev_locked ev)"
    and "n_nonce t = Min (released_nonces ci a rows)" "n_nonce t \<in> active_nonces ci a rows"
    and "\<not> nonce_lease (db_clock d1) (minutes 2) e rows" "int (length rows) < i64_max"
  shows "handle_reserve c a e d =
    (Inl (local_db (case ev_fault ev of FailBefore m \<Rightarrow> DriverError m
                    | _ \<Rightarrow> UniqueViolation ''uniq_active_nonce'')), d1)"
proof -
  let ?free = "released_nonces ci a (unlocked_rows (ev_locked ev) rows)"
  have mem: "n_nonce t \<in> ?free"
    using assms(6,7) by (auto simp: released_nonces_def released_rows_def unlocked_rows_def)
  have "?free \<subseteq> released_nonces ci a rows"
    by (auto simp: released_nonces_def released_rows_def unlocked_rows_def)
  then have "n_nonce t \<le> m" if "m \<in> ?free" for m using that assms(8) by auto
  then have "Min ?free = n_nonce t" using mem by (intro Min_eqI) auto
  then have n: "next_free_nonce ci a (ev_locked ev) rows = n_nonce t"
    using mem by (auto simp: next_free_nonce_def Let_def)
  have "n_nonce t \<le> i64_max"
    using assms(1,6) by (auto simp: nonce_inv_def nonce_row_ok_def rows_def released_rows_def)
  with handle_reserve_outcome [OF assms(1,2), where e = e and a = a] assms(9-11) n show ?thesis
    by (simp flip: ev_def d1_def rows_def split: db_fault.splits)
qed

definition blocked_db :: db where
  "blocked_db = snd (nonce_run
     [Reserve (ChainId 1) 7 1, Reserve (ChainId 1) 7 2, Resolve 1 N_Released,
      Resolve 2 N_Consumed, Sync (ChainId 1) 7 2 (TxNonce 0)] init_db)"

theorem reserve_blocked_by_active_release_witness:
  "nonce_reachable blocked_db \<and>
   handle_reserve (ChainId 1) 7 3 blocked_db =
     (Inl (local_db (UniqueViolation ''uniq_active_nonce'')), blocked_db)"
proof -
  have reach: "nonce_reachable blocked_db"
    unfolding nonce_reachable_def blocked_db_def by (rule nonce_run_steps)
  have rows: "released_rows 1 7 (nonce_assignments blocked_db) =
      [set_nonce_state (0, N_Released) (reserved_row 0 1 1 1 7 0)]"
    "active_nonces 1 7 (nonce_assignments blocked_db) = {0}"
    by code_simp+
  have side: "u256_to_i64 (chain_u256 (ChainId 1)) = Some 1" "quiet blocked_db"
    "\<not> nonce_lease (db_clock blocked_db) (minutes 2) 3 (nonce_assignments blocked_db)"
    "int (length (nonce_assignments blocked_db)) < i64_max"
    by code_simp+
  show ?thesis
    using reserve_blocked_by_active_release [OF nonce_reachable_inv [OF reach] side(1),
        where t = "set_nonce_state (0, N_Released) (reserved_row 0 1 1 1 7 0)" and a = 7 and e = 3]
      rows reach side(2-4)
    by (simp add: released_nonces_def)
qed


section \<open>Synchronisation\<close>

text \<open>
  C9. Synchronising with the nonce the chain reports, while the store is undisturbed and both the chain
  identifier and the nonce fit their columns: an execution with a finalized nonce or a
  reservation younger than five minutes keeps the nonce it has; otherwise, when another execution
  holds a young reservation of the reported nonce the call is rejected, when an older or finalized
  row still holds it the unique index refuses it, and else exactly that nonce is reserved.
\<close>

theorem sync_outcome:
  assumes "nonce_inv d" "quiet d" "u256_to_i64 (chain_u256 c) = Some ci"
    and "u256_to_i64 (nonce_u256 n) = Some ni" "int (length (nonce_assignments d)) < i64_max"
  defines "rows \<equiv> nonce_assignments d" and "now \<equiv> db_clock d"
  shows "handle_sync c a e n d =
    (if nonce_lease now (minutes 5) e rows
        \<or> (\<exists>r \<in> set rows. n_slot r = (ci, a, ni) \<and> n_state r = N_Reserved \<and> now - minutes 5 < n_updated_at r)
     then (case latest_row n_execution_id n_revision n_active e rows of
             Some r \<Rightarrow> Inr (TxNonce (word_of_int (n_nonce r)))
           | None \<Rightarrow> Inl (Local_Rejected (''nonce '' @ show_tx_nonce n @
                             '' was already reserved by another execution during sync'')), d)
     else if ni \<in> active_nonces ci a rows
     then (Inl (local_db (UniqueViolation ''uniq_active_nonce'')), d)
     else (Inr n, d\<lparr>nonce_assignments := rows @ [reserved_row now e (nonce_revision e rows) ci a ni]\<rparr>))"
proof -
  have ni: "0 \<le> ni" "bigint_ok ni" "TxNonce (word_of_int ni) = n"
    using assms(4) TxNonce_uint [of n] u256_to_i64_bigint_ok [OF assms(4)]
    by (auto simp: u256_to_i64_Some_iff)
  have nonneg: "0 \<le> n_nonce r" if "latest_row n_execution_id n_revision n_active e rows = Some r" for r
    using latest_row_Some(1) [OF that] assms(1) by (simp add: rows_def nonce_inv_def nonce_row_ok_def)
  note ins = insert_reserved_cases [OF assms(1) ni(2) assms(5) refl refl refl, of e ci a]
  show ?thesis
    using assms(2-4) ni nonneg
    by (auto simp: handle_sync_def sync_stmt_def existing_stmt_def engine_simps Let_def list_ex_iff ins
        rows_def now_def split: option.splits)
qed

theorem sync_outcome_witness:
  "handle_sync (ChainId 1) 7 3 (TxNonce 5) sample_db =
     (Inr (TxNonce 5), sample_db\<lparr>nonce_assignments := nonce_assignments sample_db @ [reserved_row 0 3 1 1 7 5]\<rparr>)"
proof -
  have side: "u256_to_i64 (chain_u256 (ChainId 1)) = Some 1" "u256_to_i64 (nonce_u256 (TxNonce 5)) = Some 5"
    "int (length (nonce_assignments sample_db)) < i64_max"
    "\<not> nonce_lease (db_clock sample_db) (minutes 5) 3 (nonce_assignments sample_db)"
    "5 \<notin> active_nonces 1 7 (nonce_assignments sample_db)"
    "nonce_revision 3 (nonce_assignments sample_db) = 1"
    by code_simp+
  have "\<not> (\<exists>r \<in> set (nonce_assignments sample_db). n_slot r = (1, 7, 5))" by auto
  then show ?thesis
    using sync_outcome [OF sample_db_inv _ side(1-3), of 7 3] side(4-6)
    by (auto simp del: sample_db_simps(1))
qed


section \<open>Resolution\<close>

lemma resolve_update_slots:
  assumes "nonce_inv d" "t \<in> set (nonce_assignments d)" "n_state t = N_Reserved"
  shows "distinct (map n_slot (filter n_active (update_nonce_state now s (n_key t) (nonce_assignments d))))"
  unfolding update_nonce_state_def
proof (rule nt.filter_update_weaker)
  fix r
  assume "(n_execution_id r, n_revision r) = n_key t" "r \<in> set (nonce_assignments d)"
  then have "r = t" using nonce_key_eq [OF assms(1) _ assms(2)] by (simp add: n_key_def)
  then show "n_active r" using assms(3) by (simp add: n_active_def)
qed (use assms(1) in \<open>simp_all add: nonce_inv_def\<close>)

lemma resolve_stmt_cases:
  assumes "nonce_inv d"
  shows "resolve_stmt e s locked d =
    (case latest_row n_execution_id n_revision (\<lambda>r. n_state r = N_Reserved \<and> n_key r \<notin> set locked) e
        (nonce_assignments d) of
       None \<Rightarrow> Inr (0, d)
     | Some t \<Rightarrow> Inr (1, d\<lparr>nonce_assignments :=
         update_nonce_state (db_clock d) s (n_key t) (nonce_assignments d)\<rparr>))"
proof (cases "latest_row n_execution_id n_revision (\<lambda>r. n_state r = N_Reserved \<and> n_key r \<notin> set locked) e
    (nonce_assignments d)")
  case None
  then show ?thesis by (simp add: resolve_stmt_def)
next
  case (Some t)
  with resolve_update_slots [OF assms latest_row_Some(1) [OF Some]] latest_row_Some(3) [OF Some] assms
  show ?thesis by (simp add: resolve_stmt_def nonce_commit_def unique_commit_def nonce_inv_def)
qed

lemma resolve_stmt_unlocked:
  assumes "nonce_inv d"
  shows "resolve_stmt e s [] d =
    (case latest_row n_execution_id n_revision (\<lambda>r. n_state r = N_Reserved) e (nonce_assignments d) of
       None \<Rightarrow> Inr (0, d)
     | Some t \<Rightarrow> Inr (1, d\<lparr>nonce_assignments :=
         update_nonce_state (db_clock d) s (n_key t) (nonce_assignments d)\<rparr>))"
  using resolve_stmt_cases [OF assms, of e s "[]"] by simp

text \<open>What the second statement of a resolution, which reads the latest row, is answered with.\<close>

definition resolve_refusal :: "execution_id \<Rightarrow> nonce_state \<Rightarrow> nonce_row list \<Rightarrow> local_error + unit" where
  "resolve_refusal e s rows =
     (case latest_row n_execution_id n_revision (\<lambda>_. True) e rows of
        None \<Rightarrow> Inl (Local_Invariant ''invalid execution_id'')
      | Some r \<Rightarrow>
          if n_state r = s then Inr ()
          else if n_state r = N_Reserved then Inl (Local_Invariant ''expected reserved state but UPDATE failed'')
          else Inl (Local_Internal (''execution_id already resolved to '' @
            show_nonce_state (n_state r) @ '', cannot transition to '' @ show_nonce_state s)))"

text \<open>
  C10. Resolving an execution to finalized, released or consumed sets its latest reserved row, among
  those no other transaction holds locked, and only that row, to the new state. Without such a row
  the latest row is read: the answer is success when it is already in that state, a refusal naming
  both states when it is resolved otherwise, an invariant error when the row is still reserved (it
  was locked), and another when the execution is unknown; the table does not change then. A
  connection that fails is an error: before the update nothing changes, after it the new state
  stays. Resolving to reserved is refused. Time may pass before each of the two statements.
\<close>

theorem resolve_outcome:
  assumes "nonce_inv d"
  defines "rows \<equiv> nonce_assignments d" and "ev \<equiv> next_event d" and "d1 \<equiv> arrival d"
  shows "handle_resolve e s d =
    (if s = N_Reserved then (Inl (Local_Internal ''noce should have been 'reserved' by now''), d)
     else case ev_fault ev of
       FailBefore m \<Rightarrow> (Inl (local_db (DriverError m)), d1)
     | f \<Rightarrow>
        (case latest_row n_execution_id n_revision
               (\<lambda>r. n_state r = N_Reserved \<and> n_key r \<notin> set (ev_locked ev)) e rows of
           Some t \<Rightarrow>
             (case f of FailAfter m \<Rightarrow> Inl (local_db (DriverError m)) | _ \<Rightarrow> Inr (),
              d1\<lparr>nonce_assignments := update_nonce_state (db_clock d1) s (n_key t) rows\<rparr>)
         | None \<Rightarrow>
             (case f of FailAfter m \<Rightarrow> (Inl (local_db (DriverError m)), d1)
              | _ \<Rightarrow> (case ev_fault (next_event d1) of
                         NoFault \<Rightarrow> resolve_refusal e s rows
                       | FailBefore m \<Rightarrow> Inl (local_db (DriverError m))
                       | FailAfter m \<Rightarrow> Inl (local_db (DriverError m)), arrival d1))))"
proof -
  have inv: "nonce_inv d1" and rows: "nonce_assignments d1 = rows"
    using assms(1) by (simp_all add: d1_def rows_def)
  show ?thesis
    unfolding handle_resolve_def
    by (auto simp: prog_simps run_stmt_arrival resolve_stmt_cases [OF inv] rows latest_nonce_stmt_def
        resolve_refusal_def simp flip: ev_def d1_def split: option.splits db_fault.splits)
qed

text \<open>The reserved row of execution 1 is held locked when the update runs.\<close>

definition held_db :: db where
  "held_db = sample_db\<lparr>db_script := [\<lparr>ev_delay = 0, ev_fault = NoFault, ev_locked = [(1, 1)]\<rparr>]\<rparr>"

theorem resolve_outcome_witness:
  "fst (handle_resolve 1 N_Finalized sample_db) = Inr () \<and>
   map n_state (nonce_assignments (snd (handle_resolve 1 N_Finalized sample_db))) = [N_Finalized, N_Released] \<and>
   fst (handle_resolve 1 N_Finalized held_db) = Inl (Local_Invariant ''expected reserved state but UPDATE failed'')"
proof -
  have inv: "nonce_inv held_db" by (simp add: held_db_def)
  have row: "latest_row n_execution_id n_revision (\<lambda>r. n_state r = N_Reserved \<and> n_key r \<notin> set []) 1
      (nonce_assignments sample_db) = Some (reserved_row 0 1 1 1 7 0)"
    "latest_row n_execution_id n_revision (\<lambda>r. n_state r = N_Reserved \<and>
        n_key r \<notin> set (ev_locked (next_event held_db))) 1 (nonce_assignments held_db) = None"
    by code_simp+
  have states: "map n_state (update_nonce_state 0 N_Finalized (1, 1) (nonce_assignments sample_db)) =
      [N_Finalized, N_Released]"
    "resolve_refusal 1 N_Finalized (nonce_assignments held_db) =
      Inl (Local_Invariant ''expected reserved state but UPDATE failed'')"
    "ev_fault (next_event held_db) = NoFault" "ev_fault (next_event (arrival held_db)) = NoFault"
    by code_simp+
  show ?thesis
    using resolve_outcome [OF sample_db_inv, of 1 N_Finalized] row states
      resolve_outcome [OF inv, of 1 N_Finalized]
    by simp
qed


section \<open>Sweeping\<close>

lemma sweep_selects:
  assumes "latest_row n_execution_id n_revision (stale_row now) e rows = Some r"
    and "length (stale_executions now rows) \<le> 100"
  shows "n_key r \<in> set (stale_targets now rows)"
proof -
  have "e \<in> set (stale_executions now rows)"
    using latest_row_Some(1-3) [OF assms(1)] by (force simp: stale_executions_def)
  then show ?thesis
    using assms by (force simp: stale_targets_def map_filter_def)
qed

lemma sweep_row:
  assumes "nonce_inv d" "r \<in> set (nonce_assignments d)"
    and "n_key r \<in> set (stale_targets now (nonce_assignments d))"
  shows "latest_row n_execution_id n_revision (stale_row now) (n_execution_id r) (nonce_assignments d) = Some r"
    and "set_nonce_state (now, N_Released) r = r\<lparr>n_state := N_Released, n_updated_at := now\<rparr>"
proof -
  show "latest_row n_execution_id n_revision (stale_row now) (n_execution_id r) (nonce_assignments d) = Some r"
    using stale_targets_row [OF assms(3)] nonce_key_eq [OF assms(1)] assms(2) by metis
  from latest_row_Some(3) [OF this]
  show "set_nonce_state (now, N_Released) r = r\<lparr>n_state := N_Released, n_updated_at := now\<rparr>"
    by (simp add: set_nonce_state_def stale_row_def)
qed

text \<open>
  C11. A sweep of an undisturbed store releases exactly the rows it selects: each is the latest reservation of its execution
  among those untouched for more than two minutes and five seconds, every other row is unchanged,
  and when at most a hundred executions have such a reservation none of them is left out. A young
  reservation is never released.
\<close>

theorem sweep_outcome:
  assumes "nonce_inv d" "quiet d"
  defines "rows \<equiv> nonce_assignments d" and "now \<equiv> db_clock d"
  defines "rows' \<equiv> nonce_assignments (snd (expire_states d))"
  shows "length rows' = length rows \<and>
    (\<forall>i < length rows. rows' ! i = rows ! i \<or>
       latest_row n_execution_id n_revision (stale_row now) (n_execution_id (rows ! i)) rows = Some (rows ! i) \<and>
       rows' ! i = (rows ! i)\<lparr>n_state := N_Released, n_updated_at := now\<rparr>) \<and>
    (length (stale_executions now rows) \<le> 100 \<longrightarrow> (\<forall>i < length rows.
       latest_row n_execution_id n_revision (stale_row now) (n_execution_id (rows ! i)) rows = Some (rows ! i) \<longrightarrow>
       n_state (rows' ! i) = N_Released))"
proof -
  have rows': "rows' = release_rows now (stale_targets now rows) rows"
    using expire_states_quiet [OF assms(1,2)] by (simp add: rows'_def rows_def now_def)
  show ?thesis
    using sweep_row [OF assms(1), of _ now] sweep_selects [of now _ rows]
    by (simp add: rows' flip: rows_def)
qed

definition stale_db :: db where
  "stale_db = sample_db\<lparr>db_clock := minutes 3\<rparr>"

lemma stale_db_inv [simp]: "nonce_inv stale_db" "quiet stale_db"
  using sample_db_inv by (simp_all add: stale_db_def quiet_def nonce_inv_def nonce_row_ok_def minutes_def)
    (auto simp: sample_db_eq init_db_def)

theorem sweep_outcome_witness:
  "map n_state (nonce_assignments stale_db) = [N_Reserved, N_Released] \<and>
   n_state (nonce_assignments (snd (expire_states stale_db)) ! 0) = N_Released"
proof -
  have side: "length (stale_executions (db_clock stale_db) (nonce_assignments stale_db)) \<le> 100"
    "latest_row n_execution_id n_revision (stale_row (db_clock stale_db))
      (n_execution_id (nonce_assignments stale_db ! 0)) (nonce_assignments stale_db) = Some (nonce_assignments stale_db ! 0)"
    "0 < length (nonce_assignments stale_db)" "map n_state (nonce_assignments stale_db) = [N_Reserved, N_Released]"
    by code_simp+
  from sweep_outcome [OF stale_db_inv] side show ?thesis by blast
qed

lemma sweep_lease:
  assumes "nonce_lease now lease e (release_rows now ks rows)"
  shows "nonce_lease now lease e rows"
  using assms
  by (auto simp: nonce_lease_def lease_blocks_iff release_rows_def set_nonce_state_def split: if_splits)

lemma released_after_sweep:
  "released_nonces c a (release_rows now ks rows) =
     released_nonces c a rows \<union> n_nonce ` {r \<in> set rows. n_key r \<in> set ks \<and> n_chain_id r = c \<and> n_from_address r = a}"
  by (induction rows) (auto simp: released_nonces_def released_rows_def release_rows_def)

lemma active_after_sweep:
  "active_nonces c a (release_rows now ks rows) =
     n_nonce ` {r \<in> set rows. n_key r \<notin> set ks \<and> n_chain_id r = c \<and> n_from_address r = a \<and> n_active r}"
proof -
  have "{r \<in> set (release_rows now ks rows). n_chain_id r = c \<and> n_from_address r = a \<and> n_active r} =
      {r \<in> set rows. n_key r \<notin> set ks \<and> n_chain_id r = c \<and> n_from_address r = a \<and> n_active r}"
    by (auto simp: release_rows_def n_active_def)
  then show ?thesis by (simp add: active_nonces_def)
qed

text \<open>
  C12. The gap left by an abandoned reservation is refilled. Say the reservation is the latest stale
  one of its execution, at most a hundred executions have one, and no released nonce of the address
  below it is active (otherwise C8 applies). Then, the store being undisturbed, a sweep followed by a
  reservation of any execution without a lease answers with the lowest nonce the sweep leaves
  released, which is no higher than the abandoned one, and reserves it for that execution.
\<close>

theorem sweep_then_reserve_refills:
  assumes "nonce_inv d" "quiet d" "r \<in> set (nonce_assignments d)"
    and "latest_row n_execution_id n_revision (stale_row (db_clock d)) (n_execution_id r) (nonce_assignments d) = Some r"
    and "length (stale_executions (db_clock d) (nonce_assignments d)) \<le> 100"
    and "u256_to_i64 (chain_u256 c) = Some (n_chain_id r)" "a = n_from_address r"
    and "\<forall>m \<in> released_nonces (n_chain_id r) a (nonce_assignments d).
      m < n_nonce r \<longrightarrow> m \<notin> active_nonces (n_chain_id r) a (nonce_assignments d)"
    and "\<not> nonce_lease (db_clock d) (minutes 2) e (nonce_assignments d)"
    and "int (length (nonce_assignments d)) < i64_max"
  defines "d' \<equiv> snd (expire_states d)"
  defines "n \<equiv> Min (released_nonces (n_chain_id r) a (nonce_assignments d'))"
  shows "0 \<le> n \<and> n \<le> n_nonce r \<and>
    fst (handle_reserve c a e d') = Inr (TxNonce (word_of_int n)) \<and>
    reserved_row (db_clock d) e (nonce_revision e (nonce_assignments d')) (n_chain_id r) a n
      \<in> set (nonce_assignments (snd (handle_reserve c a e d')))"
proof -
  let ?rows = "nonce_assignments d" and ?now = "db_clock d" and ?ci = "n_chain_id r"
  let ?ks = "stale_targets ?now ?rows"
  have key: "n_key r \<in> set ?ks" using assms(4,5) by (rule sweep_selects)
  have d': "nonce_inv d'" "nonce_assignments d' = release_rows ?now ?ks ?rows" "quiet d'" "db_clock d' = ?now"
    using expire_states_quiet [OF assms(1,2)] release_rows_inv [OF assms(1)] assms(2)
    by (simp_all add: d'_def quiet_def)
  let ?rel = "released_nonces ?ci a (nonce_assignments d')"
  have rel: "n_nonce r \<in> ?rel"
    using key assms(3,7) by (auto simp: d'(2) released_after_sweep)
  then have taken: "next_nonce ?ci a (nonce_assignments d') = n" by (auto simp: next_nonce_def n_def)
  have le: "n \<le> n_nonce r" using rel by (simp add: n_def)
  have unique: "x = y" if "x \<in> set ?rows" "y \<in> set ?rows" "n_active x" "n_active y" "n_slot x = n_slot y" for x y
    using that assms(1) by (intro distinct_map_filter_eq [of n_slot n_active ?rows]) (auto simp: nonce_inv_def)
  have swept: "n_active x" if "x \<in> set ?rows" "n_key x \<in> set ?ks" for x
    using stale_target_stale [OF assms(1) that] by (simp add: stale_row_def n_active_def)
  have free: "n \<notin> active_nonces ?ci a (nonce_assignments d')"
  proof
    assume "n \<in> active_nonces ?ci a (nonce_assignments d')"
    then obtain x where x: "x \<in> set ?rows" "n_key x \<notin> set ?ks" "n_chain_id x = ?ci" "n_from_address x = a"
      "n_active x" "n_nonce x = n"
      by (auto simp: d'(2) active_after_sweep)
    have swept_not: "n_nonce y \<noteq> n"
      if "y \<in> set ?rows" "n_key y \<in> set ?ks" "n_chain_id y = ?ci" "n_from_address y = a" for y
      using unique [OF that(1) x(1) swept [OF that(1,2)] x(5)] that x by (auto simp: n_slot_def)
    have "n \<in> ?rel" using rel by (auto simp: n_def intro: Min_in)
    then have "n \<in> released_nonces ?ci a ?rows" using swept_not by (auto simp: d'(2) released_after_sweep)
    moreover have "n \<in> active_nonces ?ci a ?rows" using x by (auto simp: active_nonces_def)
    moreover have "n \<noteq> n_nonce r" using swept_not [OF assms(3) key] assms(7) by auto
    ultimately show False using assms(8) le by auto
  qed
  have bound: "n \<le> i64_max"
    using le assms(1,3) by (auto simp: nonce_inv_def nonce_row_ok_def)
  have "\<not> nonce_lease (db_clock d') (minutes 2) e (nonce_assignments d')"
    using assms(9) sweep_lease by (auto simp: d'(2,4))
  with handle_reserve_insert [OF d'(1,3) assms(6), of e a] taken free bound le assms(10) d'(4)
    next_nonce_nonneg [OF d'(1), of ?ci a]
  show ?thesis by (simp add: Let_def d'(2))
qed

theorem sweep_then_reserve_refills_witness:
  "fst (handle_reserve (ChainId 1) 7 3 (snd (expire_states stale_db))) = Inr (TxNonce 0)"
proof -
  have row: "nonce_assignments stale_db ! 0 = reserved_row 0 1 1 1 7 0"
    "reserved_row 0 1 1 1 7 0 \<in> set (nonce_assignments stale_db)"
    by (simp_all add: stale_db_def)
  have side: "latest_row n_execution_id n_revision (stale_row (db_clock stale_db))
      (n_execution_id (reserved_row 0 1 1 1 7 0)) (nonce_assignments stale_db) = Some (reserved_row 0 1 1 1 7 0)"
    "length (stale_executions (db_clock stale_db) (nonce_assignments stale_db)) \<le> 100"
    "u256_to_i64 (chain_u256 (ChainId 1)) = Some (n_chain_id (reserved_row 0 1 1 1 7 0))"
    "7 = n_from_address (reserved_row 0 1 1 1 7 0)"
    "\<forall>m \<in> released_nonces (n_chain_id (reserved_row 0 1 1 1 7 0)) 7 (nonce_assignments stale_db).
      m < n_nonce (reserved_row 0 1 1 1 7 0) \<longrightarrow>
      m \<notin> active_nonces (n_chain_id (reserved_row 0 1 1 1 7 0)) 7 (nonce_assignments stale_db)"
    "\<not> nonce_lease (db_clock stale_db) (minutes 2) 3 (nonce_assignments stale_db)"
    "int (length (nonce_assignments stale_db)) < i64_max"
    by code_simp+
  have "Min (released_nonces (n_chain_id (reserved_row 0 1 1 1 7 0)) 7
      (nonce_assignments (snd (expire_states stale_db)))) = 0"
    by code_simp
  with sweep_then_reserve_refills [OF stale_db_inv row(2) side] show ?thesis by simp
qed


text \<open>
  A consumed nonce does not count as taken: when it was the highest one of its address, the next reservation
  hands it out again.
\<close>

lemma consumed_nonce_reissued:
  "fst (nonce_run [Reserve (ChainId 1) 7 1, Resolve 1 N_Consumed, Reserve (ChainId 1) 7 2] init_db) =
     [NonceReply (Inr (TxNonce 0)), UnitReply (Inr ()), NonceReply (Inr (TxNonce 0))]"
  by code_simp

end
