(* ===== verification/F64.thy ===== *)
theory F64
  imports Complex_Main "HOL-Library.Log_Nat"
begin

text \<open>
  Rust's \<open>f64\<close> as the RPC layer uses it: non-negative finite values, kept as rationals, with every
  arithmetic operation rounded to the nearest value of 53 significant bits, ties to even, as IEEE 754 does.
  The exponent is not bounded: the quantities of the layer (counts, milliseconds, ratios of the two and their
  sums) stay far from the smallest and the largest exponent.
\<close>

type_synonym f64 = rat

definition round_half_even :: "rat \<Rightarrow> int" where
  "round_half_even y =
     (let f = \<lfloor>y\<rfloor>; d = y - of_int f in
      if d < 1 / 2 then f else if d > 1 / 2 then f + 1 else if even f then f else f + 1)"

text \<open>The binade of a positive rational: the exponent of the largest power of two not above it.\<close>

definition binade :: "rat \<Rightarrow> int" where
  "binade x =
     (case quotient_of x of (p, q) \<Rightarrow>
        let e = int (floorlog 2 (nat p)) - int (floorlog 2 (nat q)) in
        if 2 powi e \<le> x then e else e - 1)"

definition f64_round :: "rat \<Rightarrow> f64" where
  "f64_round x =
     (if x \<le> 0 then 0
      else let k = 2 powi (52 - binade x) in of_int (round_half_even (x * k)) / k)"

definition f64_add :: "f64 \<Rightarrow> f64 \<Rightarrow> f64" where
  "f64_add x y = f64_round (x + y)"

definition f64_mul :: "f64 \<Rightarrow> f64 \<Rightarrow> f64" where
  "f64_mul x y = f64_round (x * y)"

definition f64_div :: "f64 \<Rightarrow> f64 \<Rightarrow> f64" where
  "f64_div x y = f64_round (x / y)"

definition f64_of_nat :: "nat \<Rightarrow> f64" where
  "f64_of_nat n = f64_round (of_nat n)"


section \<open>Rounding to an integer\<close>

lemma round_half_even_bounds:
  "of_int (round_half_even y) \<le> y + 1 / 2" "y - 1 / 2 \<le> of_int (round_half_even y)"
proof -
  have "of_int \<lfloor>y\<rfloor> \<le> y" "y < of_int \<lfloor>y\<rfloor> + 1" using floor_correct [of y] by simp_all
  then show "of_int (round_half_even y) \<le> y + 1 / 2" "y - 1 / 2 \<le> of_int (round_half_even y)"
    by (simp_all add: round_half_even_def Let_def) linarith+
qed

lemma round_half_even_cases: "round_half_even y = \<lfloor>y\<rfloor> \<or> round_half_even y = \<lfloor>y\<rfloor> + 1"
  by (auto simp: round_half_even_def Let_def)

lemma round_half_even_of_int [simp]: "round_half_even (of_int i) = i"
  by (simp add: round_half_even_def)

lemma round_half_even_mono:
  assumes "x \<le> y"
  shows "round_half_even x \<le> round_half_even y"
proof (cases "\<lfloor>x\<rfloor> = \<lfloor>y\<rfloor>")
  case True
  then show ?thesis using assms by (auto simp: round_half_even_def Let_def)
next
  case False
  then have "\<lfloor>x\<rfloor> + 1 \<le> \<lfloor>y\<rfloor>" using floor_mono [OF assms] by linarith
  then show ?thesis using round_half_even_cases [of x] round_half_even_cases [of y] by linarith
qed


section \<open>Binades\<close>

lemma floorlog2_bounds:
  assumes "0 < n"
  shows "(2 :: rat) powi (int (floorlog 2 n) - 1) \<le> of_nat n" "of_nat n < (2 :: rat) powi int (floorlog 2 n)"
proof -
  have le: "2 ^ (floorlog 2 n - 1) \<le> n \<and> n < 2 ^ floorlog 2 n"
    by (rule floorlog_bounds) (use assms in simp_all)
  have lo: "(of_nat (2 ^ (floorlog 2 n - 1)) :: rat) \<le> of_nat n"
    using le by (subst of_nat_le_iff) simp
  have hi: "(of_nat n :: rat) < of_nat (2 ^ floorlog 2 n)"
    using le by (subst of_nat_less_iff) simp
  have "0 < floorlog 2 n" using assms by (simp add: floorlog_def)
  then have e: "int (floorlog 2 n) - 1 = int (floorlog 2 n - 1)" by linarith
  show "(2 :: rat) powi (int (floorlog 2 n) - 1) \<le> of_nat n"
    unfolding e power_int_of_nat using lo by simp
  show "of_nat n < (2 :: rat) powi int (floorlog 2 n)"
    unfolding power_int_of_nat using hi by simp
qed

lemma powi_less_iff [simp]: "(2 :: rat) powi i < 2 powi j \<longleftrightarrow> i < j"
  using power_int_strict_increasing [of i j "2 :: rat"] power_int_increasing [of j i "2 :: rat"] by fastforce

lemma powi_pos [simp]: "(0 :: rat) < 2 powi i"
  by (rule zero_less_power_int) simp

lemma powi_nonneg [simp]: "\<not> (2 :: rat) powi i < 0" "\<not> (2 :: rat) powi i \<le> 0" "(0 :: rat) \<le> 2 powi i"
  using powi_pos [of i] by linarith+

lemma binade_bounds:
  assumes "0 < x"
  shows "2 powi binade x \<le> x" "x < 2 powi (binade x + 1)"
proof -
  obtain p q where pq: "quotient_of x = (p, q)" by (cases "quotient_of x") auto
  have q: "0 < q" using quotient_of_denom_pos [OF pq] .
  have x: "x = of_int p / of_int q" using quotient_of_div [OF pq] .
  have p: "0 < p" using assms q unfolding x by (simp add: zero_less_divide_iff)
  define a where "a = int (floorlog 2 (nat p))"
  define b where "b = int (floorlog 2 (nat q))"
  have pb: "2 powi (a - 1) \<le> (of_int p :: rat)" "(of_int p :: rat) < 2 powi a"
    using floorlog2_bounds [of "nat p"] p by (simp_all add: a_def)
  have qb: "2 powi (b - 1) \<le> (of_int q :: rat)" "(of_int q :: rat) < 2 powi b"
    using floorlog2_bounds [of "nat q"] q by (simp_all add: b_def)
  have "2 powi (a - 1) / 2 powi b \<le> x"
    unfolding x using pb(1) qb(2) p q by (intro frac_le) simp_all
  then have lo: "2 powi (a - b - 1) \<le> x"
    by (simp add: power_int_diff [symmetric] algebra_simps)
  have "x < 2 powi a / 2 powi (b - 1)"
    unfolding x using pb(2) qb(1) p q by (intro frac_less) simp_all
  then have hi: "x < 2 powi (a - b + 1)"
    by (simp add: power_int_diff [symmetric] algebra_simps)
  have "binade x = (if 2 powi (a - b) \<le> x then a - b else a - b - 1)"
    unfolding binade_def pq a_def b_def by (simp add: Let_def)
  with lo hi show "2 powi binade x \<le> x" "x < 2 powi (binade x + 1)"
    by (auto split: if_splits)
qed

lemma binade_less: "0 < x \<Longrightarrow> x < 2 powi i \<Longrightarrow> binade x < i"
  using binade_bounds(1) [of x] powi_less_iff [of "binade x" i] by (meson order.strict_trans1)

lemma binade_ge: "0 < x \<Longrightarrow> 2 powi i \<le> x \<Longrightarrow> i \<le> binade x"
  using binade_bounds(2) [of x] powi_less_iff [of i "binade x + 1"] by (meson order.strict_trans1 zle_add1_eq_le)

lemma binade_mono: "0 < x \<Longrightarrow> x \<le> y \<Longrightarrow> binade x \<le> binade y"
  using binade_bounds(1) [of x] by (intro binade_ge) auto


section \<open>Rounding to 53 bits\<close>

lemma f64_round_0 [simp]: "f64_round 0 = 0"
  by (simp add: f64_round_def)

lemma f64_round_nonneg_arg: "x \<le> 0 \<Longrightarrow> f64_round x = 0"
  by (simp add: f64_round_def)

lemma f64_round_pos_eq:
  "0 < x \<Longrightarrow> f64_round x = of_int (round_half_even (x * 2 powi (52 - binade x))) / 2 powi (52 - binade x)"
  by (simp add: f64_round_def Let_def)

lemma powi_add_nat: "2 powi (e + int n) = 2 powi e * (2 ^ n :: rat)"
  by (simp add: power_int_add)

lemma scaled_bounds:
  assumes "0 < x"
  shows "2 ^ 52 \<le> x * 2 powi (52 - binade x)" "x * 2 powi (52 - binade x) < 2 ^ 53"
proof -
  have *: "2 powi binade x * 2 powi (52 - binade x) = (2 ^ 52 :: rat)"
    "2 powi (binade x + 1) * 2 powi (52 - binade x) = (2 ^ 53 :: rat)"
    by (simp_all add: power_int_add [symmetric] power_int_numeral [symmetric] del: power_int_numeral)
  show "2 ^ 52 \<le> x * 2 powi (52 - binade x)" "x * 2 powi (52 - binade x) < 2 ^ 53"
    unfolding * [symmetric] using binade_bounds [OF assms]
    by (simp_all only: mult_le_cancel_right_pos [OF powi_pos] mult_less_cancel_right_pos [OF powi_pos])
qed

lemma f64_round_binade:
  assumes "0 < x"
  shows "2 powi binade x \<le> f64_round x" "f64_round x \<le> 2 powi (binade x + 1)"
proof -
  let ?k = "2 powi (52 - binade x) :: rat" and ?m = "round_half_even (x * 2 powi (52 - binade x))"
  have "round_half_even (of_int (2 ^ 52)) \<le> ?m" "?m \<le> round_half_even (of_int (2 ^ 53))"
    using scaled_bounds [OF assms] by (intro round_half_even_mono; simp)+
  then have m: "2 ^ 52 \<le> ?m" "?m \<le> 2 ^ 53" by (simp_all only: round_half_even_of_int)
  have k: "2 powi binade x * ?k = (2 ^ 52 :: rat)" "2 powi (binade x + 1) * ?k = (2 ^ 53 :: rat)"
    by (simp_all add: power_int_add [symmetric] power_int_numeral [symmetric] del: power_int_numeral)
  have "(of_int (2 ^ 52) :: rat) \<le> of_int ?m" "(of_int ?m :: rat) \<le> of_int (2 ^ 53)"
    using m by (simp_all only: of_int_le_iff)
  then show "2 powi binade x \<le> f64_round x" "f64_round x \<le> 2 powi (binade x + 1)"
    unfolding f64_round_pos_eq [OF assms]
    by (simp_all only: pos_le_divide_eq [OF powi_pos] pos_divide_le_eq [OF powi_pos] k of_int_power of_int_numeral)
qed

lemma f64_round_pos: "0 < x \<Longrightarrow> 0 < f64_round x"
  using f64_round_binade(1) [of x] powi_pos [of "binade x"] by linarith

lemma f64_round_nonneg: "0 \<le> f64_round x"
  using f64_round_pos [of x] by (cases "0 < x") (auto simp: f64_round_nonneg_arg)

lemma f64_round_pos_iff: "0 < f64_round x \<longleftrightarrow> 0 < x"
  using f64_round_pos [of x] by (cases "0 < x") (auto simp: f64_round_nonneg_arg)

text \<open>Rounding is monotone, and exact on the values of 53 bits, so it changes no value it returned.\<close>

lemma f64_round_mono:
  assumes "x \<le> y"
  shows "f64_round x \<le> f64_round y"
proof (cases "0 < x")
  case False
  then show ?thesis using f64_round_nonneg [of y] by (simp add: f64_round_nonneg_arg)
next
  case True
  then have y: "0 < y" using assms by simp
  show ?thesis
  proof (cases "binade x = binade y")
    case True
    have "x * 2 powi (52 - binade x) \<le> y * 2 powi (52 - binade x)"
      using assms by (simp add: mult_le_cancel_right not_less [symmetric])
    then have "(of_int (round_half_even (x * 2 powi (52 - binade x))) :: rat)
        \<le> of_int (round_half_even (y * 2 powi (52 - binade x)))"
      by (simp only: of_int_le_iff round_half_even_mono)
    then show ?thesis
      unfolding f64_round_pos_eq [OF \<open>0 < x\<close>] f64_round_pos_eq [OF y] True [symmetric]
      by (intro divide_right_mono) (simp_all add: less_imp_le)
  next
    case False
    then have "binade x + 1 \<le> binade y" using binade_mono [OF \<open>0 < x\<close> assms] by linarith
    then have "2 powi (binade x + 1) \<le> (2 powi binade y :: rat)" by (intro power_int_increasing) simp_all
    then show ?thesis using f64_round_binade(2) [OF \<open>0 < x\<close>] f64_round_binade(1) [OF y] by linarith
  qed
qed

lemma f64_round_exact_below:
  assumes "0 < m" "m < 2 ^ 53"
  shows "f64_round (of_int m * 2 powi j) = of_int m * 2 powi j"
proof -
  let ?x = "of_int m * 2 powi j :: rat"
  have x: "0 < ?x" using assms by simp
  have "(of_int m :: rat) < of_int (2 ^ 53)" using assms by (simp only: of_int_less_iff)
  then have "?x < 2 ^ 53 * 2 powi j" by (simp add: mult_less_cancel_right)
  also have "\<dots> = 2 powi (j + 53)" by (simp add: power_int_add)
  finally have "binade ?x < j + 53" using x by (rule binade_less [rotated])
  then obtain n where n: "52 - binade ?x + j = int n"
    using nonneg_int_cases [of "52 - binade ?x + j"] by auto
  have "?x * 2 powi (52 - binade ?x) = of_int m * 2 powi (52 - binade ?x + j)"
    by (simp add: power_int_add)
  also have "\<dots> = of_int (m * 2 ^ n)" unfolding n by simp
  finally have "?x * 2 powi (52 - binade ?x) = of_int (m * 2 ^ n)" .
  then show ?thesis
    unfolding f64_round_pos_eq [OF x] by (metis nonzero_mult_div_cancel_right powi_pos order_less_irrefl round_half_even_of_int)
qed

lemma f64_round_exact:
  assumes "0 \<le> m" "m \<le> 2 ^ 53"
  shows "f64_round (of_int m * 2 powi j) = of_int m * 2 powi j"
proof (cases "m = 2 ^ 53")
  case True
  have "of_int m * 2 powi j = (of_int (2 ^ 52) * 2 powi (j + 1) :: rat)"
    unfolding True by (simp add: power_int_add)
  then show ?thesis using f64_round_exact_below [of "2 ^ 52" "j + 1"] by simp
next
  case False
  then show ?thesis using assms f64_round_exact_below [of m j] by (cases "m = 0") auto
qed

lemma f64_round_idem [simp]: "f64_round (f64_round x) = f64_round x"
proof (cases "0 < x")
  case False
  then show ?thesis by (simp add: f64_round_nonneg_arg)
next
  case True
  let ?m = "round_half_even (x * 2 powi (52 - binade x))"
  have "round_half_even (of_int 0) \<le> ?m" "?m \<le> round_half_even (of_int (2 ^ 53))"
    using scaled_bounds [OF True] by (intro round_half_even_mono; simp)+
  then have "0 \<le> ?m" "?m \<le> 2 ^ 53" by (simp_all only: round_half_even_of_int)
  moreover have "f64_round x = of_int ?m * 2 powi (binade x - 52)"
    unfolding f64_round_pos_eq [OF True] by (simp add: power_int_diff)
  ultimately show ?thesis using f64_round_exact [of ?m "binade x - 52"] by simp
qed

lemma f64_of_nat_exact: "n \<le> 2 ^ 53 \<Longrightarrow> f64_of_nat n = of_nat n"
  using f64_round_exact [of "int n" 0] by (simp add: f64_of_nat_def)

lemma f64_div_exact:
  assumes "0 < n" "0 < k" "n * k \<le> 2 ^ 53"
  shows "f64_div (f64_of_nat (n * k)) (f64_of_nat n) = of_nat k"
proof -
  have "n \<le> 2 ^ 53" "k \<le> 2 ^ 53" using assms by (auto intro: order_trans [of _ "n * k"])
  then show ?thesis
    using assms f64_of_nat_exact [of k, unfolded f64_of_nat_def] by (simp add: f64_div_def f64_of_nat_exact)
qed

lemma f64_mul_exact:
  assumes "0 < n" "0 < k" "n * k \<le> 2 ^ 53"
  shows "f64_mul (of_nat k) (f64_of_nat n) = of_nat (n * k)"
proof -
  have "n \<le> 2 ^ 53" using assms by (auto intro: order_trans [of _ "n * k"])
  then show ?thesis
    using f64_of_nat_exact [OF assms(3), unfolded f64_of_nat_def] by (simp add: f64_mul_def f64_of_nat_exact mult.commute)
qed

lemma f64_round_error:
  assumes "0 < x" "x < 2 powi e"
  shows "\<bar>f64_round x - x\<bar> \<le> 2 powi (e - 54)"
proof -
  let ?k = "2 powi (52 - binade x) :: rat"
  have "\<bar>of_int (round_half_even (x * ?k)) - x * ?k\<bar> \<le> 1 / 2"
    using round_half_even_bounds [of "x * ?k"] unfolding abs_le_iff by linarith
  then have "\<bar>of_int (round_half_even (x * ?k)) - x * ?k\<bar> / ?k \<le> 1 / 2 / ?k"
    by (rule divide_right_mono) (simp add: less_imp_le)
  moreover have "f64_round x - x = (of_int (round_half_even (x * ?k)) - x * ?k) / ?k"
    unfolding f64_round_pos_eq [OF assms(1)] by (simp add: diff_divide_distrib)
  then have "\<bar>f64_round x - x\<bar> = \<bar>of_int (round_half_even (x * ?k)) - x * ?k\<bar> / ?k"
    by (simp only: abs_divide abs_of_pos [OF powi_pos])
  moreover have "1 / 2 / ?k = 2 powi (binade x - 53)" by (simp add: power_int_diff)
  moreover have "(2 powi (binade x - 53) :: rat) \<le> 2 powi (e - 54)"
    using binade_less [OF assms] by (intro power_int_increasing) simp_all
  ultimately show ?thesis by simp
qed

end
