(* ===== verification/Rpc_Port.thy ===== *)
theory Rpc_Port
  imports Database
begin

text \<open>
  What the broadcast and validator actors see of the RPC layer: the four calls of
  \<^verbatim>\<open>crate/utils/src/rpc/mod.rs\<close> as operations over a network state \<open>'n\<close>, each returning the
  \<open>Debug\<close> rendering of its error or its result, the time the call took and the next network state.
  The engines run over the store and that state; a call and a sleep move the one clock both read.
\<close>

record receipt =
  rcpt_status :: bool
  rcpt_block_number :: "u64 option"

record 'n rpc_port =
  rpc_send_raw_transaction :: "chain_id \<Rightarrow> nat \<Rightarrow> bytes \<Rightarrow> db_time \<Rightarrow> 'n \<Rightarrow> (string + tx_hash) \<times> nat \<times> 'n"
  rpc_get_transaction_count :: "chain_id \<Rightarrow> nat \<Rightarrow> address \<Rightarrow> db_time \<Rightarrow> 'n \<Rightarrow> (string + tx_nonce) \<times> nat \<times> 'n"
  rpc_get_transaction_receipt ::
    "chain_id \<Rightarrow> nat \<Rightarrow> tx_hash \<Rightarrow> db_time \<Rightarrow> 'n \<Rightarrow> (string + receipt option) \<times> nat \<times> 'n"
  rpc_get_block_number :: "chain_id \<Rightarrow> nat \<Rightarrow> db_time \<Rightarrow> 'n \<Rightarrow> (string + u64) \<times> nat \<times> 'n"

type_synonym ('n, 'e, 'a) wprog = "(db \<times> 'n, 'e, 'a) sprog"

definition on_db :: "('e, 'a) prog \<Rightarrow> ('n, 'e, 'a) wprog" where
  "on_db m w = (case m (fst w) of (r, d') \<Rightarrow> (r, (d', snd w)))"

definition rpc_call :: "('n \<Rightarrow> (string + 'a) \<times> nat \<times> 'n) \<Rightarrow> ('n, string, 'a) wprog" where
  "rpc_call f w =
     (case f (snd w) of (r, k, n') \<Rightarrow> (r, (elapse k (db_script (fst w)) (fst w), n')))"

definition map_error :: "('e \<Rightarrow> 'f) \<Rightarrow> ('s, 'e, 'a) sprog \<Rightarrow> ('s, 'f, 'a) sprog" where
  "map_error f m s = (case m s of (Inl e, s') \<Rightarrow> (Inl (f e), s') | (Inr x, s') \<Rightarrow> (Inr x, s'))"

definition attempt :: "('s, 'e, 'a) sprog \<Rightarrow> ('s, 'f, 'e + 'a) sprog" where
  "attempt m s = (case m s of (r, s') \<Rightarrow> (Inr r, s'))"

definition sleep :: "nat \<Rightarrow> ('n, 'e, unit) wprog" where
  "sleep k w = (Inr (), (elapse k (db_script (fst w)) (fst w), snd w))"

definition instant_now :: "('n, 'e, db_time) wprog" where
  "instant_now w = (Inr (db_clock (fst w)), w)"

lemma keeps_on_db [invariant_intros]: "keeps P m \<Longrightarrow> keeps (\<lambda>w. P (fst w)) (on_db m)"
  by (auto simp: keeps_def on_db_def split: prod.splits)

lemma keeps_rpc_call [invariant_intros]: "time_stable P \<Longrightarrow> keeps (\<lambda>w. P (fst w)) (rpc_call f)"
  by (auto simp: keeps_def rpc_call_def time_stable_def split: prod.splits)

lemma keeps_sleep [invariant_intros]: "time_stable P \<Longrightarrow> keeps (\<lambda>w. P (fst w)) (sleep k)"
  by (auto simp: keeps_def sleep_def time_stable_def)

lemma keeps_instant_now [invariant_intros]: "keeps P instant_now"
  by (simp add: keeps_def instant_now_def)

lemma keeps_map_error [invariant_intros]: "keeps P m \<Longrightarrow> keeps P (map_error f m)"
  by (auto simp: keeps_def map_error_def split: prod.splits sum.splits)

lemma keeps_attempt [invariant_intros]: "keeps P m \<Longrightarrow> keeps P (attempt m)"
  by (auto simp: keeps_def attempt_def split: prod.splits)

lemma hoare_on_db: "hoare P m Q E \<Longrightarrow> hoare (\<lambda>w. P (fst w)) (on_db m) (\<lambda>x w. Q x (fst w)) (\<lambda>w. E (fst w))"
  by (fastforce simp: hoare_def on_db_def split: prod.splits sum.splits)

lemma hoare_rpc_call: "time_stable P \<Longrightarrow> hoare (\<lambda>w. P (fst w)) (rpc_call f) (\<lambda>_ w. P (fst w)) (\<lambda>w. P (fst w))"
  by (auto simp: hoare_def rpc_call_def time_stable_def split: prod.splits sum.splits)

lemma hoare_map_error: "hoare P m Q E \<Longrightarrow> hoare P (map_error f m) Q E"
  by (fastforce simp: hoare_def map_error_def split: prod.splits sum.splits)

lemma hoare_attempt: "hoare P m (\<lambda>_. Q) Q \<Longrightarrow> hoare P (attempt m) (\<lambda>_. Q) Q"
  by (fastforce simp: hoare_def attempt_def split: prod.splits sum.splits)

lemmas port_simps [engine_simps] =
  on_db_def rpc_call_def map_error_def attempt_def sleep_def instant_now_def

end
