(* ===== verification/Retry.thy ===== *)
theory Retry
  imports Rpc_Port
begin

text \<open>
  The retry facility of the orchestrator, \<^verbatim>\<open>crate/cortex/src/artifacts/retry.rs\<close>, with the retry policy
  of \<^verbatim>\<open>artifacts/config.rs\<close>. The operation is a program over a state \<open>'s\<close>; the runtime it relies on, the
  random generator and the sleeping task, is a record of operations on that state. Durations are in
  microseconds. A panic ends the surrounding task: it is the error of the program, and what the
  operation returned is its value.
\<close>

section \<open>Policy and decisions\<close>

type_synonym duration = nat

record retry_config =
  max_attempts :: u32
  base_delay :: duration
  max_delay :: duration

definition from_millis :: "u64 \<Rightarrow> duration" where
  "from_millis ms = unat ms * 1000"

definition as_millis :: "duration \<Rightarrow> u64" where
  "as_millis d = of_nat (d div 1000)"

definition RetryConfig_default :: retry_config where
  "RetryConfig_default = \<lparr>max_attempts = 2, base_delay = from_millis 50, max_delay = from_millis 150\<rparr>"

datatype 'e retry_decision = Retry 'e | FailImmediately 'e

fun show_retry_decision :: "('e \<Rightarrow> string) \<Rightarrow> 'e retry_decision \<Rightarrow> string" where
  "show_retry_decision show_e (Retry e) = show_e e"
| "show_retry_decision show_e (FailImmediately e) = show_e e"

record 's runtime =
  gen_range :: "u64 \<Rightarrow> 's \<Rightarrow> u64 \<times> 's"
  sleep_for :: "duration \<Rightarrow> 's \<Rightarrow> 's"

text \<open>What the sources rely on: \<open>gen_range(0..=w)\<close> draws at most \<open>w\<close>.\<close>

definition draws_in_range :: "'s runtime \<Rightarrow> bool" where
  "draws_in_range rt \<longleftrightarrow> (\<forall>w s. fst (gen_range rt w s) \<le> w)"


section \<open>Backoff\<close>

definition jitter_window :: "duration \<Rightarrow> duration \<Rightarrow> u32 \<Rightarrow> u64" where
  "jitter_window base mx attempt_no =
     (let shift = min (attempt_no - 1) 10 in
      min (saturating_mul_u64 (as_millis base) (push_bit (unat shift) 1)) (as_millis mx))"

definition jittered_delay ::
  "'s runtime \<Rightarrow> duration \<Rightarrow> duration \<Rightarrow> u32 \<Rightarrow> 's \<Rightarrow> duration \<times> 's" where
  "jittered_delay rt base mx attempt_no s =
     (let window_ms = jitter_window base mx attempt_no in
      if window_ms > 0
      then (case gen_range rt window_ms s of (jitter_ms, s') \<Rightarrow> (from_millis jitter_ms, s'))
      else (from_millis 0, s))"

text \<open>
  The loop over \<open>1..=max_total\<close>: the first argument is the number of turns left. With
  \<open>max_attempts = u32::MAX\<close> the sum wraps to zero where overflow is not checked, no turn runs and the
  \<open>unreachable!\<close> panics; where it is checked the sum itself panics.
\<close>

fun retry_loop ::
  "nat \<Rightarrow> 's runtime \<Rightarrow> retry_config \<Rightarrow> u32 \<Rightarrow> u32 \<Rightarrow> ('s, 'e retry_decision, 'a) sprog \<Rightarrow>
   ('s, string, 'e + 'a) sprog" where
  "retry_loop 0 rt cfg max_total attempt_no operation s =
     (Inl ''retry loop exited without returning'', s)"
| "retry_loop (Suc left) rt cfg max_total attempt_no operation s =
     (case operation s of
        (Inr v, s1) \<Rightarrow> (Inr (Inr v), s1)
      | (Inl (FailImmediately err), s1) \<Rightarrow> (Inr (Inl err), s1)
      | (Inl (Retry err), s1) \<Rightarrow>
          (if attempt_no = max_total then (Inr (Inl err), s1)
           else
             (case jittered_delay rt (base_delay cfg) (max_delay cfg) attempt_no s1 of
                (delay, s2) \<Rightarrow>
                  retry_loop left rt cfg max_total (attempt_no + 1) operation (sleep_for rt delay s2))))"

definition retry_with_backoff ::
  "'s runtime \<Rightarrow> retry_config \<Rightarrow> ('s, 'e retry_decision, 'a) sprog \<Rightarrow> ('s, string, 'e + 'a) sprog" where
  "retry_with_backoff rt cfg operation =
     (let max_total = max_attempts cfg + 1 in retry_loop (unat max_total) rt cfg max_total 1 operation)"


section \<open>Reference: a bounded sequence of attempts\<close>

text \<open>
  The state in which attempt \<open>k + 1\<close> starts when every earlier one has asked for a retry, and the
  result the first decisive attempt gives. \<open>asked_retry\<close> says that attempt \<open>k + 1\<close> asked for a retry.
\<close>

fun attempt_state ::
  "'s runtime \<Rightarrow> retry_config \<Rightarrow> ('s, 'e retry_decision, 'a) sprog \<Rightarrow> nat \<Rightarrow> 's \<Rightarrow> 's" where
  "attempt_state rt cfg operation 0 s = s"
| "attempt_state rt cfg operation (Suc k) s =
     (case jittered_delay rt (base_delay cfg) (max_delay cfg) (of_nat (Suc k))
             (snd (operation (attempt_state rt cfg operation k s))) of
        (delay, s2) \<Rightarrow> sleep_for rt delay s2)"

definition asks_retry :: "'e retry_decision + 'a \<Rightarrow> bool" where
  "asks_retry r \<longleftrightarrow> (case r of Inl (Retry e) \<Rightarrow> True | _ \<Rightarrow> False)"

definition strip_decision :: "'e retry_decision + 'a \<Rightarrow> 'e + 'a" where
  "strip_decision r = (case r of Inr v \<Rightarrow> Inr v | Inl (Retry e) \<Rightarrow> Inl e | Inl (FailImmediately e) \<Rightarrow> Inl e)"

lemma retry_loop_spec:
  assumes "left + k = unat max_total" "0 < left"
    and "\<forall>j < k. asks_retry (fst (operation (attempt_state rt cfg operation j s)))"
  shows "\<exists>n. k \<le> n \<and> n < unat max_total \<and>
     (\<forall>j < n. asks_retry (fst (operation (attempt_state rt cfg operation j s)))) \<and>
     (asks_retry (fst (operation (attempt_state rt cfg operation n s))) \<longrightarrow> n + 1 = unat max_total) \<and>
     retry_loop left rt cfg max_total (of_nat (k + 1)) operation (attempt_state rt cfg operation k s) =
       (Inr (strip_decision (fst (operation (attempt_state rt cfg operation n s)))),
        snd (operation (attempt_state rt cfg operation n s)))"
  using assms
proof (induction left arbitrary: k)
  case 0
  then show ?case by simp
next
  case (Suc left)
  let ?s = "attempt_state rt cfg operation k s"
  obtain r s1 where op: "operation ?s = (r, s1)" by fastforce
  have last: "(of_nat (k + 1) :: u32) = max_total \<longleftrightarrow> left = 0"
  proof -
    have "k + 1 \<le> unat max_total" using Suc.prems(1) by simp
    moreover have "unat max_total < 2 ^ 32" using unsigned_less [of max_total] by simp
    ultimately have "unat (of_nat (k + 1) :: u32) = k + 1" by (simp only: unat_of_nat) simp
    then have "(of_nat (k + 1) :: u32) = max_total \<longleftrightarrow> k + 1 = unat max_total"
      by (metis word_unat_eq_iff)
    then show ?thesis unfolding Suc.prems(1) [symmetric] by simp
  qed
  show ?case
  proof (cases "asks_retry r \<and> left \<noteq> 0")
    case True
    then obtain err where r: "r = Inl (Retry err)"
      by (auto simp: asks_retry_def split: sum.splits retry_decision.splits)
    have hist: "\<forall>j < Suc k. asks_retry (fst (operation (attempt_state rt cfg operation j s)))"
      using Suc.prems(3) op r by (auto simp: less_Suc_eq asks_retry_def)
    have eq: "retry_loop (Suc left) rt cfg max_total (of_nat (k + 1)) operation ?s =
        retry_loop left rt cfg max_total (of_nat (Suc k + 1)) operation (attempt_state rt cfg operation (Suc k) s)"
      using op r last True by (simp add: add.commute split: prod.splits)
    obtain n where "Suc k \<le> n" "n < unat max_total"
      "\<forall>j < n. asks_retry (fst (operation (attempt_state rt cfg operation j s)))"
      "asks_retry (fst (operation (attempt_state rt cfg operation n s))) \<longrightarrow> n + 1 = unat max_total"
      "retry_loop left rt cfg max_total (of_nat (Suc k + 1)) operation (attempt_state rt cfg operation (Suc k) s) =
         (Inr (strip_decision (fst (operation (attempt_state rt cfg operation n s)))),
          snd (operation (attempt_state rt cfg operation n s)))"
      using Suc.IH [of "Suc k"] Suc.prems(1) True hist by auto
    with eq show ?thesis by (intro exI [of _ n]) simp
  next
    case False
    then have "retry_loop (Suc left) rt cfg max_total (of_nat (k + 1)) operation ?s = (Inr (strip_decision r), s1)"
      using op last by (auto simp: asks_retry_def strip_decision_def split: sum.splits retry_decision.splits)
    then show ?thesis
      using Suc.prems False op by (intro exI [of _ k]) auto
  qed
qed


section \<open>Properties\<close>

lemma wrap_at_max: "max_attempts cfg \<noteq> - 1 \<Longrightarrow> unat (max_attempts cfg + 1) = unat (max_attempts cfg) + 1"
  by (metis Suc_eq_plus1 add.commute add_eq_0_iff unatSuc)

text \<open>
  C31. Unless \<open>max_attempts\<close> is \<open>u32::MAX\<close>, a retried operation is run \<open>n + 1 \<le> max_attempts + 1\<close> times, every run
  but the last asked for a retry, and the result is the result of the last run, with the state it left; the
  last run itself asked for a retry only when the attempts are exhausted.
\<close>
theorem retry_outcome:
  assumes "max_attempts cfg \<noteq> - 1"
  shows "\<exists>n \<le> unat (max_attempts cfg).
     (\<forall>j < n. asks_retry (fst (operation (attempt_state rt cfg operation j s)))) \<and>
     (asks_retry (fst (operation (attempt_state rt cfg operation n s))) \<longrightarrow> n = unat (max_attempts cfg)) \<and>
     retry_with_backoff rt cfg operation s =
       (Inr (strip_decision (fst (operation (attempt_state rt cfg operation n s)))),
        snd (operation (attempt_state rt cfg operation n s)))"
  using retry_loop_spec [of "unat (max_attempts cfg + 1)" 0 "max_attempts cfg + 1" operation rt cfg s]
    wrap_at_max [OF assms]
  by (fastforce simp: retry_with_backoff_def less_Suc_eq_le)

lemma retry_result:
  assumes "max_attempts cfg \<noteq> - 1"
  obtains s0 where "retry_with_backoff rt cfg operation s = (Inr (strip_decision (fst (operation s0))), snd (operation s0))"
  using retry_loop_spec [of "unat (max_attempts cfg + 1)" 0 "max_attempts cfg + 1" operation rt cfg s]
    wrap_at_max [OF assms]
  by (fastforce simp: retry_with_backoff_def)

lemma retry_first_success:
  assumes "max_attempts cfg \<noteq> - 1" "operation s = (Inr v, s1)"
  shows "retry_with_backoff rt cfg operation s = (Inr (Inr v), s1)"
  using assms by (simp add: retry_with_backoff_def wrap_at_max)

lemma retry_panics: "max_attempts cfg = - 1 \<Longrightarrow>
   retry_with_backoff rt cfg operation s = (Inl ''retry loop exited without returning'', s)"
  by (simp add: retry_with_backoff_def)

lemma keeps_retry_loop:
  assumes "keeps P operation" "\<And>w s. P s \<Longrightarrow> P (snd (gen_range rt w s))" "\<And>k s. P s \<Longrightarrow> P (sleep_for rt k s)"
  shows "keeps P (retry_loop n rt cfg mt a operation)"
proof -
  have jitter: "P s' " if "P s" "jittered_delay rt b m at s = (x, s')" for b m at s x s'
    using that assms(2) [OF that(1), of "jitter_window b m at"]
    by (auto simp: jittered_delay_def Let_def split: if_splits prod.splits)
  have "P s \<Longrightarrow> P (snd (retry_loop n rt cfg mt a operation s))" for s
  proof (induction n arbitrary: a s)
    case 0
    then show ?case by simp
  next
    case (Suc n)
    obtain r s1 where op: "operation s = (r, s1)" by fastforce
    then have s1: "P s1" using assms(1) Suc.prems by (auto simp: keeps_def dest: spec [of _ s])
    then have "P (snd (retry_loop n rt cfg mt (a + 1) operation (sleep_for rt x s2)))"
      if "jittered_delay rt (base_delay cfg) (max_delay cfg) a s1 = (x, s2)" for x s2
      using Suc.IH assms(3) jitter that by blast
    with op s1 show ?case by (auto split: sum.splits retry_decision.splits prod.splits)
  qed
  then show ?thesis by (simp add: keeps_def)
qed

lemma keeps_retry [invariant_intros]:
  assumes "keeps P operation" "\<And>w s. P s \<Longrightarrow> P (snd (gen_range rt w s))" "\<And>k s. P s \<Longrightarrow> P (sleep_for rt k s)"
  shows "keeps P (retry_with_backoff rt cfg operation)"
  using keeps_retry_loop [OF assms] by (simp add: retry_with_backoff_def Let_def)

lemma unat_as_millis: "unat (as_millis d) \<le> d div 1000"
  by (simp add: as_millis_def unat_of_nat)

lemma jitter_window_bounds:
  "unat (jitter_window base mx a) \<le> mx div 1000"
  "1 \<le> a \<Longrightarrow> unat (jitter_window base mx a) \<le> base div 1000 * 2 ^ (unat a - 1)"
proof -
  have "jitter_window base mx a \<le> as_millis mx"
    by (simp add: jitter_window_def Let_def)
  then have "unat (jitter_window base mx a) \<le> unat (as_millis mx)" by (simp add: word_le_nat_alt)
  then show "unat (jitter_window base mx a) \<le> mx div 1000" using unat_as_millis [of mx] by linarith
next
  assume a: "1 \<le> a"
  let ?k = "unat (min (a - 1) 10)"
  have k: "?k \<le> unat a - 1" "?k \<le> 10"
    using unat_sub [OF a] by (auto simp: min_def word_le_nat_alt split: if_splits)
  have shift: "unat (push_bit ?k 1 :: u64) = 2 ^ ?k"
  proof -
    have "(2 :: nat) ^ ?k \<le> 2 ^ 10" by (rule power_increasing) (use k in auto)
    moreover have "unat (of_nat (2 ^ ?k) :: u64) = 2 ^ ?k mod 2 ^ 64" by (simp only: unat_of_nat) simp
    ultimately show ?thesis by (simp add: push_bit_eq_mult)
  qed
  have "jitter_window base mx a \<le> saturating_mul_u64 (as_millis base) (push_bit ?k 1)"
    by (simp add: jitter_window_def Let_def)
  then have "unat (jitter_window base mx a) \<le> unat (as_millis base) * 2 ^ ?k"
    using shift by (simp add: word_le_nat_alt unat_saturating_mul_u64)
  also have "\<dots> \<le> base div 1000 * 2 ^ (unat a - 1)"
    using unat_as_millis k(1) by (intro mult_mono power_increasing) auto
  finally show "unat (jitter_window base mx a) \<le> base div 1000 * 2 ^ (unat a - 1)" .
qed

text \<open>
  C32. The pause before a retry is at most \<open>max_delay\<close> and at most \<open>base_delay * 2^(attempt-1)\<close>, whatever the
  configured durations and the attempt number are.
\<close>
theorem backoff_bounded:
  assumes "draws_in_range rt" "1 \<le> a"
  shows "fst (jittered_delay rt base mx a s) \<le> min mx (base * 2 ^ (unat a - 1))"
proof -
  have pause: "fst (jittered_delay rt base mx a s) \<le> unat (jitter_window base mx a) * 1000"
    using assms(1)
    by (auto simp: jittered_delay_def Let_def draws_in_range_def from_millis_def word_le_nat_alt split: prod.splits)
      (metis fst_conv)
  have "base div 1000 * 2 ^ (unat a - 1) * 1000 \<le> base * 2 ^ (unat a - 1)"
    by (metis div_times_less_eq_dividend mult.assoc mult.commute mult_le_mono1)
  moreover have "unat (jitter_window base mx a) * 1000 \<le> base div 1000 * 2 ^ (unat a - 1) * 1000"
    using jitter_window_bounds(2) [OF assms(2), of base mx] by (intro mult_le_mono1)
  moreover have "unat (jitter_window base mx a) * 1000 \<le> mx"
    using jitter_window_bounds(1) [of base mx a] by linarith
  ultimately show ?thesis using pause by linarith
qed


section \<open>Witnesses\<close>

text \<open>A runtime that draws half of the window and counts the time slept; an operation that succeeds at its third run.\<close>

definition sample_runtime :: "(nat \<times> nat) runtime" where
  "sample_runtime = \<lparr>gen_range = (\<lambda>w s. (drop_bit 1 w, s)), sleep_for = (\<lambda>k s. (fst s, snd s + k))\<rparr>"

definition third_time :: "(nat \<times> nat, string retry_decision, nat) sprog" where
  "third_time s = (if fst s < 2 then (Inl (Retry ''busy''), (fst s + 1, snd s)) else (Inr 7, s))"

theorem retry_outcome_witness:
  "\<exists>n \<le> unat (max_attempts RetryConfig_default).
     (\<forall>j < n. asks_retry (fst (third_time (attempt_state sample_runtime RetryConfig_default third_time j (0, 0))))) \<and>
     (asks_retry (fst (third_time (attempt_state sample_runtime RetryConfig_default third_time n (0, 0)))) \<longrightarrow>
        n = unat (max_attempts RetryConfig_default)) \<and>
     retry_with_backoff sample_runtime RetryConfig_default third_time (0, 0) =
       (Inr (strip_decision (fst (third_time (attempt_state sample_runtime RetryConfig_default third_time n (0, 0))))),
        snd (third_time (attempt_state sample_runtime RetryConfig_default third_time n (0, 0))))"
  by (rule retry_outcome) (simp add: RetryConfig_default_def)

lemma sample_runtime_in_range: "draws_in_range sample_runtime"
  by (simp add: draws_in_range_def sample_runtime_def word_le_nat_alt unat_drop_bit_eq) (simp add: drop_bit_eq_div)

theorem backoff_bounded_witness:
  "fst (jittered_delay sample_runtime 50000 150000 2 (0, 0)) \<le> min 150000 (50000 * 2 ^ (unat (2 :: u32) - 1))"
  by (rule backoff_bounded) (simp_all add: sample_runtime_in_range)

end
