(* ===== verification/Rlp.thy ===== *)
theory Rlp
  imports Lobby_Types
begin

text \<open>
  The Ethereum-specific RLP encoding of \<^verbatim>\<open>crate/primitives/src/traits.rs\<close> and what it needs of
  the \<open>rlp\<close> crate. The crate is a parameter: the sources issue a sequence of calls on an
  \<open>RlpStream\<close>, kept as the list of those calls, and \<open>stream_out\<close> and \<open>encode_value\<close> are what the
  crate makes of them. Its documented behaviour, that a stream whose calls describe an item yields
  the RLP of that item, is the hypothesis \<open>rlp_crate\<close>; \<open>rlp_encode\<close> is the RLP of the Ethereum
  yellow paper, proved prefix-free here, and \<open>stream_bytes\<close> an implementation of the crate's
  contract that shows the hypothesis can hold.
\<close>

section \<open>Big-endian bytes\<close>

fun be_bytes :: "nat \<Rightarrow> nat \<Rightarrow> bytes" where
  "be_bytes 0 v = []"
| "be_bytes (Suc n) v = be_bytes n (v div 256) @ [of_nat (v mod 256)]"

definition be_value :: "bytes \<Rightarrow> nat" where
  "be_value bs = foldl (\<lambda>a b. a * 256 + unat b) 0 bs"

definition u256_be_bytes :: "u256 \<Rightarrow> bytes" where
  "u256_be_bytes v = be_bytes 32 (unat v)"

definition address_bytes :: "address \<Rightarrow> bytes" where
  "address_bytes a = be_bytes 20 (unat a)"

definition trim_zeros :: "bytes \<Rightarrow> bytes" where
  "trim_zeros bs = dropWhile (\<lambda>b. b = 0) bs"

lemma length_be_bytes [simp]: "length (be_bytes n v) = n"
  by (induction n arbitrary: v) simp_all

lemma be_value_snoc [simp]: "be_value (bs @ [b]) = be_value bs * 256 + unat b"
  by (simp add: be_value_def)

lemma be_value_Nil [simp]: "be_value [] = 0"
  by (simp add: be_value_def)

lemma unat_byte_of_nat: "m < 256 \<Longrightarrow> unat (of_nat m :: 8 word) = m"
  by (simp add: unat_of_nat)

lemma be_value_be_bytes: "v < 256 ^ n \<Longrightarrow> be_value (be_bytes n v) = v"
proof (induction n arbitrary: v)
  case 0
  then show ?case by simp
next
  case (Suc n)
  then have "v div 256 < 256 ^ n" by (simp add: less_mult_imp_div_less mult.commute)
  with Suc.IH have "be_value (be_bytes n (v div 256)) = v div 256" by blast
  then show ?case by (simp add: unat_byte_of_nat)
qed

lemma be_value_trim [simp]: "be_value (trim_zeros bs) = be_value bs"
proof -
  have "foldl (\<lambda>a b. a * 256 + unat b) 0 (dropWhile (\<lambda>b. b = (0 :: 8 word)) bs) =
      foldl (\<lambda>a b. a * 256 + unat b) 0 bs"
    by (induction bs) simp_all
  then show ?thesis by (simp add: trim_zeros_def be_value_def)
qed

lemma be_value_u256 [simp]: "be_value (u256_be_bytes v) = unat v"
proof -
  have "unat v < 256 ^ 32" using unsigned_less [of v] by simp
  then show ?thesis by (simp add: u256_be_bytes_def be_value_be_bytes)
qed

lemma be_value_address: "be_value (address_bytes a) = unat a"
proof -
  have "unat a < 256 ^ 20" using unsigned_less [of a] by simp
  then show ?thesis by (simp add: address_bytes_def be_value_be_bytes)
qed

lemma address_bytes_inject [simp]: "address_bytes a = address_bytes b \<longleftrightarrow> a = b"
  by (metis be_value_address word_unat_eq_iff)

lemma address_bytes_nonempty [simp]: "address_bytes a \<noteq> []"
  by (metis address_bytes_def length_be_bytes list.size(3) zero_neq_numeral)

lemma trimmed_u256_inject: "trim_zeros (u256_be_bytes v) = trim_zeros (u256_be_bytes w) \<longleftrightarrow> v = w"
  by (metis be_value_trim be_value_u256 word_unat_eq_iff)


section \<open>Items and their encoding\<close>

datatype rlp_item = RStr bytes | RList "rlp_item list"

fun be_nat :: "nat \<Rightarrow> bytes" where
  "be_nat n = (if n = 0 then [] else be_nat (n div 256) @ [of_nat (n mod 256)])"

declare be_nat.simps [simp del]

definition rlp_header :: "nat \<Rightarrow> nat \<Rightarrow> bytes" where
  "rlp_header off len =
     (if len < 56 then [of_nat (off + len)]
      else of_nat (off + 55 + length (be_nat len)) # be_nat len)"

definition rlp_string :: "bytes \<Rightarrow> bytes" where
  "rlp_string bs =
     (if length bs = 1 \<and> unat (hd bs) < 128 then bs else rlp_header 128 (length bs) @ bs)"

fun rlp_encode :: "rlp_item \<Rightarrow> bytes" where
  "rlp_encode (RStr bs) = rlp_string bs"
| "rlp_encode (RList ts) =
     rlp_header 192 (length (concat (map rlp_encode ts))) @ concat (map rlp_encode ts)"

text \<open>Items whose strings and payloads are shorter than \<open>2 ^ 64\<close> bytes, the range RLP covers.\<close>

fun rlp_sized :: "rlp_item \<Rightarrow> bool" where
  "rlp_sized (RStr bs) \<longleftrightarrow> length bs < 2 ^ 64"
| "rlp_sized (RList ts) \<longleftrightarrow> length (concat (map rlp_encode ts)) < 2 ^ 64 \<and> list_all rlp_sized ts"

lemma be_value_be_nat: "be_value (be_nat n) = n"
proof (induction n rule: be_nat.induct)
  case (1 n)
  then show ?case by (subst be_nat.simps) (auto simp: unat_byte_of_nat)
qed

lemma be_nat_inject: "be_nat m = be_nat n \<Longrightarrow> m = n"
  by (metis be_value_be_nat)

lemma length_be_nat: "n < 256 ^ k \<Longrightarrow> length (be_nat n) \<le> k"
proof (induction k arbitrary: n)
  case 0
  then show ?case by (simp add: be_nat.simps)
next
  case (Suc k)
  then have "n div 256 < 256 ^ k" by (simp add: less_mult_imp_div_less mult.commute)
  from Suc.IH [OF this] show ?case by (subst be_nat.simps) auto
qed

lemma length_be_nat_64: "n < 2 ^ 64 \<Longrightarrow> length (be_nat n) \<le> 8"
  by (rule length_be_nat) simp

lemma be_nat_pos: "0 < n \<Longrightarrow> 0 < length (be_nat n)"
  by (subst be_nat.simps) simp

lemma rlp_header_hd:
  assumes "len < 2 ^ 64" "off = 128 \<or> off = 192"
  shows "unat (hd (rlp_header off len)) =
    (if len < 56 then off + len else off + 55 + length (be_nat len))"
  using assms(2) length_be_nat_64 [OF assms(1)]
  by (auto simp: rlp_header_def unat_byte_of_nat simp del: of_nat_add)

lemma rlp_header_cancel:
  assumes "rlp_header off (length p) @ p @ xs = rlp_header off' (length p') @ p' @ ys"
    and "off = 128 \<or> off = 192" "off' = 128 \<or> off' = 192" "length p < 2 ^ 64" "length p' < 2 ^ 64"
  shows "off = off' \<and> p = p' \<and> xs = ys"
proof -
  have ne: "rlp_header o' l \<noteq> []" for o' l by (simp add: rlp_header_def)
  have "hd (rlp_header off (length p)) = hd (rlp_header off' (length p'))"
    using arg_cong [OF assms(1), of hd] ne by simp
  then have hd: "(if length p < 56 then off + length p else off + 55 + length (be_nat (length p))) =
      (if length p' < 56 then off' + length p' else off' + 55 + length (be_nat (length p')))"
    using rlp_header_hd assms(2-5) by metis
  have k: "length (be_nat (length p)) \<le> 8" "length (be_nat (length p')) \<le> 8"
    using assms(4,5) by (simp_all add: length_be_nat_64)
  have pos: "0 < length (be_nat (length p))" if "\<not> length p < 56" for p :: bytes
    by (rule be_nat_pos) (use that in linarith)
  have off: "off = off'"
    using hd assms(2,3) k by (cases "length p < 56"; cases "length p' < 56") auto
  have small: "length p < 56 \<longleftrightarrow> length p' < 56"
  proof (rule ccontr)
    assume "\<not> ?thesis"
    then have "length p < 56 \<and> length p = 55 + length (be_nat (length p')) \<and> \<not> length p' < 56 \<or>
        length p' < 56 \<and> length p' = 55 + length (be_nat (length p)) \<and> \<not> length p < 56"
      using hd off by (cases "length p < 56") auto
    with pos [of p] pos [of p'] show False by linarith
  qed
  have "length p = length p'"
  proof (cases "length p < 56")
    case True
    with hd off small show ?thesis by simp
  next
    case False
    with hd off small have "length (be_nat (length p)) = length (be_nat (length p'))" by simp
    moreover have "be_nat (length p) @ p @ xs = be_nat (length p') @ p' @ ys"
      using False small assms(1) by (simp add: rlp_header_def)
    ultimately show ?thesis using be_nat_inject by (metis append_eq_append_conv)
  qed
  with assms(1) off show ?thesis by simp
qed

lemma rlp_string_not_list:
  assumes "length p < 2 ^ 64" "length p' < 2 ^ 64"
  shows "rlp_string p @ xs \<noteq> rlp_header 192 (length p') @ p' @ ys"
proof (cases "length p = 1 \<and> unat (hd p) < 128")
  case True
  then obtain b where "p = [b]" "unat b < 128" by (auto simp: length_Suc_conv)
  moreover have "128 \<le> unat (hd (rlp_header 192 (length p')))"
    using rlp_header_hd [OF assms(2), of 192] by auto
  ultimately show ?thesis by (auto simp: rlp_string_def rlp_header_def split: if_splits)
next
  case False
  then show ?thesis
    using rlp_header_cancel [of 128 p xs 192 p' ys] assms by (auto simp: rlp_string_def)
qed

lemma rlp_string_cancel:
  assumes "rlp_string p @ xs = rlp_string p' @ ys" "length p < 2 ^ 64" "length p' < 2 ^ 64"
  shows "p = p' \<and> xs = ys"
proof -
  have single: False
    if "length q = 1" "unat (hd q) < 128" "\<not> (length q' = 1 \<and> unat (hd q') < 128)"
      "rlp_string q @ us = rlp_string q' @ vs" "length q' < 2 ^ 64" for q q' us vs
  proof -
    have "128 \<le> unat (hd (rlp_header 128 (length q')))"
      using rlp_header_hd [OF that(5), of 128] by auto
    moreover have "hd (rlp_header 128 (length q')) = hd q"
      using that(1-4) by (cases q; cases "length q' < 56") (auto simp: rlp_string_def rlp_header_def)
    ultimately show False using that(2) by simp
  qed
  show ?thesis
  proof (cases "length p = 1 \<and> unat (hd p) < 128 \<longleftrightarrow> length p' = 1 \<and> unat (hd p') < 128")
    case True
    then show ?thesis
      using assms rlp_header_cancel [of 128 p xs 128 p' ys]
      by (auto simp: rlp_string_def length_Suc_conv split: if_splits)
  next
    case False
    then show ?thesis
      using single [of p p' xs ys] single [of p' p ys xs] assms by auto
  qed
qed

lemma length_rlp_string: "length bs < 2 ^ 64 \<Longrightarrow> length (rlp_string bs) \<le> length bs + 9"
  using length_be_nat_64 [of "length bs"] by (simp add: rlp_string_def rlp_header_def)

lemma rlp_encode_nonempty [simp]: "rlp_encode t \<noteq> []"
  by (cases t) (auto simp: rlp_string_def rlp_header_def)

lemma rlp_concat_cancel:
  assumes "\<And>t t' xs ys. t \<in> set ts \<Longrightarrow> rlp_encode t @ xs = rlp_encode t' @ ys \<Longrightarrow> rlp_sized t \<Longrightarrow>
      rlp_sized t' \<Longrightarrow> t = t' \<and> xs = ys"
    and "concat (map rlp_encode ts) = concat (map rlp_encode us)"
    and "list_all rlp_sized ts" "list_all rlp_sized us"
  shows "ts = us"
  using assms
proof (induction ts arbitrary: us)
  case Nil
  then show ?case by (cases us) auto
next
  case (Cons t ts)
  from Cons.prems(2) obtain u us' where us: "us = u # us'" by (cases us) auto
  have eq: "t = u \<and> concat (map rlp_encode ts) = concat (map rlp_encode us')"
    using Cons.prems(2-4) us by (intro Cons.prems(1)) auto
  have "ts = us'"
    using Cons.prems(3,4) us eq by (intro Cons.IH) (auto dest: Cons.prems(1) [rotated])
  with eq us show ?case by simp
qed

text \<open>RLP is prefix-free, hence injective, on sized items.\<close>

lemma rlp_encode_cancel:
  "rlp_encode t @ xs = rlp_encode t' @ ys \<Longrightarrow> rlp_sized t \<Longrightarrow> rlp_sized t' \<Longrightarrow> t = t' \<and> xs = ys"
proof (induction t arbitrary: t' xs ys)
  case (RStr bs)
  then show ?case
    using rlp_string_cancel [of bs xs _ ys] rlp_string_not_list [of bs _ xs ys]
    by (cases t') auto
next
  case (RList ts)
  show ?case
  proof (cases t')
    case (RStr bs)
    then show ?thesis
      using RList.prems rlp_string_not_list [of bs _ ys xs] by (metis append_assoc rlp_encode.simps rlp_sized.simps)
  next
    case (RList us)
    have payload: "concat (map rlp_encode ts) = concat (map rlp_encode us)" "xs = ys"
      using RList RList.prems
        rlp_header_cancel [of 192 "concat (map rlp_encode ts)" xs 192 "concat (map rlp_encode us)" ys]
      by auto
    have "ts = us"
      using RList RList.prems(2,3) by (intro rlp_concat_cancel [OF RList.IH payload(1)]) auto
    with payload RList show ?thesis by simp
  qed
qed

lemma rlp_encode_inject:
  "rlp_encode t = rlp_encode t' \<Longrightarrow> rlp_sized t \<Longrightarrow> rlp_sized t' \<Longrightarrow> t = t'"
  using rlp_encode_cancel [of t "[]" t' "[]"] by simp


section \<open>Calls on a stream\<close>

datatype rlp_call =
    BeginList nat
  | AppendEmptyData
  | AppendRaw bytes nat
  | AppendBytes bytes
  | AppendU8 u8

type_synonym rlp_stream = "rlp_call list"

text \<open>
  The crate, as a parameter: \<open>encode_value\<close> is what \<open>RlpStream::new().encoder().encode_value(v)\<close>
  leaves in a fresh stream, \<open>stream_out\<close> the bytes of a finished stream.
\<close>

record rlp_crate =
  encode_value :: "bytes \<Rightarrow> bytes"
  stream_out :: "rlp_stream \<Rightarrow> bytes"

definition new_list :: "nat \<Rightarrow> rlp_stream" where
  "new_list n = [BeginList n]"

definition append_call :: "rlp_call \<Rightarrow> rlp_stream \<Rightarrow> rlp_stream" where
  "append_call c s = s @ [c]"

text \<open>\<^verbatim>\<open>eth_rlp_append_u256\<close> and the implementation of the trait for addresses.\<close>

definition eth_rlp_append_u256 :: "rlp_crate \<Rightarrow> u256 \<Rightarrow> rlp_stream \<Rightarrow> rlp_stream" where
  "eth_rlp_append_u256 rc v s =
     (if v = 0 then append_call AppendEmptyData s
      else append_call (AppendRaw (encode_value rc (trim_zeros (u256_be_bytes v))) 1) s)"

definition eth_rlp_append_address :: "rlp_crate \<Rightarrow> address \<Rightarrow> rlp_stream \<Rightarrow> rlp_stream" where
  "eth_rlp_append_address rc a s = append_call (AppendRaw (encode_value rc (address_bytes a)) 1) s"

text \<open>Which calls describe which item, and the crate's contract.\<close>

inductive renders :: "rlp_call list \<Rightarrow> rlp_item \<Rightarrow> bool"
  and renders_all :: "rlp_call list \<Rightarrow> rlp_item list \<Rightarrow> bool" where
  empty: "renders [AppendEmptyData] (RStr [])"
| raw: "renders [AppendRaw (rlp_encode t) 1] t"
| bytes: "renders [AppendBytes bs] (RStr bs)"
| u8: "renders [AppendU8 b] (RStr (if b = 0 then [] else [b]))"
| list: "renders_all cs ts \<Longrightarrow> renders (BeginList (length ts) # cs) (RList ts)"
| none: "renders_all [] []"
| one: "renders cs t \<Longrightarrow> renders_all cs' ts \<Longrightarrow> renders_all (cs @ cs') (t # ts)"

definition rlp_crate_ok :: "rlp_crate \<Rightarrow> bool" where
  "rlp_crate_ok rc \<longleftrightarrow>
     (\<forall>bs. encode_value rc bs = rlp_encode (RStr bs)) \<and>
     (\<forall>cs ts. renders cs (RList ts) \<longrightarrow> stream_out rc cs = rlp_encode (RList ts))"

lemma renders_all_snoc:
  "renders_all cs ts \<Longrightarrow> renders cs' t \<Longrightarrow> renders_all (cs @ cs') (ts @ [t])"
proof (induction ts arbitrary: cs)
  case Nil
  then show ?case using renders_renders_all.one [OF Nil(2) renders_renders_all.none]
    by (auto elim: renders_all.cases)
next
  case (Cons u us)
  then obtain c1 c2 where "cs = c1 @ c2" "renders c1 u" "renders_all c2 us"
    by (auto elim: renders_all.cases)
  with Cons show ?case using renders_renders_all.one by fastforce
qed

definition u256_item :: "u256 \<Rightarrow> rlp_item" where
  "u256_item v = RStr (trim_zeros (u256_be_bytes v))"

lemma u256_item_zero: "u256_item 0 = RStr []"
  by code_simp

lemma u256_item_inject [simp]: "u256_item v = u256_item w \<longleftrightarrow> v = w"
  by (simp add: u256_item_def trimmed_u256_inject)

lemma u256_item_canonical: "u256_item v = RStr bs \<Longrightarrow> be_value bs = unat v \<and> (bs = [] \<or> hd bs \<noteq> 0)"
  using hd_dropWhile [of "\<lambda>b. b = 0" "u256_be_bytes v"] be_value_trim [of "u256_be_bytes v"]
  by (auto simp: u256_item_def) (simp add: trim_zeros_def)

lemma length_trim_zeros: "length (trim_zeros bs) \<le> length bs"
  by (simp add: trim_zeros_def length_dropWhile_le)

lemma u256_item_size: "rlp_sized (u256_item v)" "length (rlp_encode (u256_item v)) \<le> 41"
  using length_trim_zeros [of "u256_be_bytes v"] length_rlp_string [of "trim_zeros (u256_be_bytes v)"]
  by (simp_all add: u256_item_def u256_be_bytes_def)

lemma append_u256_renders:
  "rlp_crate_ok rc \<Longrightarrow> \<exists>cs. eth_rlp_append_u256 rc v s = s @ cs \<and> renders cs (u256_item v)"
  using renders_renders_all.raw [of "u256_item v"] renders_renders_all.empty
  by (auto simp: eth_rlp_append_u256_def append_call_def rlp_crate_ok_def u256_item_zero)
     (simp add: u256_item_def)

lemma append_address_renders:
  "rlp_crate_ok rc \<Longrightarrow>
   \<exists>cs. eth_rlp_append_address rc a s = s @ cs \<and> renders cs (RStr (address_bytes a))"
  using renders_renders_all.raw [of "RStr (address_bytes a)"]
  by (auto simp: eth_rlp_append_address_def append_call_def rlp_crate_ok_def)


section \<open>An implementation of the contract\<close>

text \<open>
  The calls are read from the last to the first over a stack of encoded items; opening a list of
  length \<open>n\<close> takes \<open>n\<close> items from the stack.
\<close>

fun stream_stack :: "rlp_call list \<Rightarrow> bytes list" where
  "stream_stack [] = []"
| "stream_stack (c # cs) =
     (let st = stream_stack cs in
      case c of
        BeginList n \<Rightarrow> (let p = concat (take n st) in (rlp_header 192 (length p) @ p) # drop n st)
      | AppendEmptyData \<Rightarrow> rlp_string [] # st
      | AppendRaw r k \<Rightarrow> r # st
      | AppendBytes bs \<Rightarrow> rlp_string bs # st
      | AppendU8 b \<Rightarrow> rlp_string (if b = 0 then [] else [b]) # st)"

definition sample_crate :: rlp_crate where
  "sample_crate = \<lparr>encode_value = rlp_string, stream_out = (\<lambda>cs. hd (stream_stack cs))\<rparr>"

lemma stream_stack_renders:
  "renders cs t \<Longrightarrow> (\<And>rest. stream_stack (cs @ rest) = rlp_encode t # stream_stack rest)"
  "renders_all cs ts \<Longrightarrow> (\<And>rest. stream_stack (cs @ rest) = map rlp_encode ts @ stream_stack rest)"
  by (induction rule: renders_renders_all.inducts) (simp_all add: Let_def)

lemma sample_crate_ok: "rlp_crate_ok sample_crate"
  using stream_stack_renders(1) [where rest = "[]"]
  by (auto simp: rlp_crate_ok_def sample_crate_def simp del: rlp_encode.simps(2))

end
