(* ===== verification/Eip1559.thy ===== *)
theory Eip1559
  imports Rlp
begin

text \<open>
  \<^verbatim>\<open>crate/utils/src/eip1559\<close>: the business rules of \<open>transaction_lint\<close>, the normalisation of an
  EIP-1193 request, the unsigned and signed encodings and the signing routine. \<open>ruint\<close>'s
  \<open>U256::from_str_radix\<close>, \<open>hex::decode\<close>, \<open>Keccak256\<close> and \<open>k256\<close> are parameters. A Rust panic is a
  value of its own.
\<close>

datatype 'a run = Panic string | Done 'a

definition bind_run :: "'a run \<Rightarrow> ('a \<Rightarrow> 'b run) \<Rightarrow> 'b run" where
  "bind_run r k = (case r of Panic m \<Rightarrow> Panic m | Done x \<Rightarrow> k x)"

fun run_value :: "'a run \<Rightarrow> 'a" where
  "run_value (Done x) = x"

lemma bind_run_Done_iff: "bind_run r k = Done y \<longleftrightarrow> (\<exists>x. r = Done x \<and> k x = Done y)"
  by (cases r) (simp_all add: bind_run_def)

section \<open>Lint\<close>

definition MAX_GAS_LIMIT :: nat where
  "MAX_GAS_LIMIT = 30000000"

definition SUPPORTED_CHAINS :: "u64 list" where
  "SUPPORTED_CHAINS = [1, 5, 560048, 137, 42161]"

definition transaction_lint :: "eip1559_transaction \<Rightarrow> relay_host_error + unit" where
  "transaction_lint txn =
     (if gas_limit txn = 0 then Inl (Relay_ValidationFailed ''gas limit cannot be zero'')
      else if gas_limit txn > of_nat MAX_GAS_LIMIT
      then Inl (Relay_ValidationFailed (''lint error: fee exeeds max gas limit: '' @ show_nat MAX_GAS_LIMIT))
      else if max_fee_per_gas txn = 0
      then Inl (Relay_ValidationFailed ''lint error: max_fee_per_gas cannot be zero'')
      else if max_priority_fee_per_gas txn \<ge> max_fee_per_gas txn
      then Inl (Relay_ValidationFailed
             ''lint error: max_priority_fee_per_gas cannot exceed max_fee_per_gas'')
      else
        case u256_to_u64 (chain_u256 (chain_id txn)) of
          None \<Rightarrow> Inl (Relay_ValidationFailed ''lint error: invalid chain_id format'')
        | Some c \<Rightarrow>
            if c \<notin> set SUPPORTED_CHAINS
            then Inl (Relay_ValidationFailed ''lint error: unsupported chain_id'')
            else Inr ())"

lemma transaction_lint_Inr_iff:
  "transaction_lint txn = Inr () \<longleftrightarrow>
     0 < gas_limit txn \<and> gas_limit txn \<le> 30000000 \<and> 0 < max_fee_per_gas txn \<and>
     max_priority_fee_per_gas txn < max_fee_per_gas txn \<and>
     uint (chain_u256 (chain_id txn)) \<in> {1, 5, 137, 42161, 560048}"
proof -
  have chain: "(\<exists>c. u256_to_u64 v = Some c \<and> c \<in> set SUPPORTED_CHAINS) \<longleftrightarrow> uint v \<in> {1, 5, 137, 42161, 560048}"
    for v :: u256
  proof -
    have "word_of_int (uint v) = (of_int k :: u64) \<longleftrightarrow> uint v = k"
      if "uint v < 2 ^ 64" "0 \<le> k" "k < 2 ^ 64" for k
      using that by (simp add: word_uint_eq_iff unsigned_ucast_eq uint_word_of_int take_bit_int_eq_self)
    from this [of 1] this [of 5] this [of 137] this [of 42161] this [of 560048]
    show ?thesis by (auto simp: u256_to_u64_def SUPPORTED_CHAINS_def)
  qed
  show ?thesis
    using chain [of "chain_u256 (chain_id txn)"]
    by (auto simp: transaction_lint_def MAX_GAS_LIMIT_def word_neq_0_conv not_less not_le
        split: option.splits if_splits)
qed


section \<open>Normalisation\<close>

datatype normalization_error = InvalidField string

record text_crates =
  u256_from_hex :: "string \<Rightarrow> u256 option"
  hex_decode :: "string \<Rightarrow> string + bytes"

definition strip_0x :: "string \<Rightarrow> string" where
  "strip_0x s = (case strip_prefix ''0x'' s of None \<Rightarrow> s | Some t \<Rightarrow> t)"

definition parse_hex_u64 :: "string \<Rightarrow> u64 option" where
  "parse_hex_u64 s = parse_hex_digits_u64 (strip_0x s)"

definition parse_hex_u256 :: "text_crates \<Rightarrow> string \<Rightarrow> u256 option" where
  "parse_hex_u256 tc s = u256_from_hex tc (strip_0x s)"

definition parse_hex_bytes :: "text_crates \<Rightarrow> string \<Rightarrow> string + bytes" where
  "parse_hex_bytes tc s = hex_decode tc (strip_0x s)"

definition opt_quantity :: "text_crates \<Rightarrow> string \<Rightarrow> string option \<Rightarrow> normalization_error + u256" where
  "opt_quantity tc field x =
     (case x of None \<Rightarrow> Inr 0
      | Some s \<Rightarrow> (case parse_hex_u256 tc s of None \<Rightarrow> Inl (InvalidField field) | Some v \<Rightarrow> Inr v))"

definition opt_bytes :: "text_crates \<Rightarrow> string \<Rightarrow> string option \<Rightarrow> normalization_error + bytes" where
  "opt_bytes tc field x =
     (case x of None \<Rightarrow> Inr []
      | Some s \<Rightarrow> (case parse_hex_bytes tc s of Inl _ \<Rightarrow> Inl (InvalidField field) | Inr v \<Rightarrow> Inr v))"

fun collect_keys :: "text_crates \<Rightarrow> string list \<Rightarrow> u256 list option" where
  "collect_keys tc [] = Some []"
| "collect_keys tc (k # ks) =
     (case parse_hex_u256 tc k of None \<Rightarrow> None
      | Some v \<Rightarrow> (case collect_keys tc ks of None \<Rightarrow> None | Some vs \<Rightarrow> Some (v # vs)))"

fun collect_access_list ::
  "text_crates \<Rightarrow> access_list_item list \<Rightarrow> normalization_error + (address \<times> u256 list) list" where
  "collect_access_list tc [] = Inr []"
| "collect_access_list tc (item # items) =
     (case collect_keys tc (ali_storage_keys item) of
        None \<Rightarrow> Inl (InvalidField ''access_list'')
      | Some ks \<Rightarrow>
          (case collect_access_list tc items of Inl e \<Rightarrow> Inl e
           | Inr rest \<Rightarrow> Inr ((ali_address item, ks) # rest)))"

text \<open>\<open>bindE\<close> is the operator \<open>?\<close> on a pure result.\<close>

definition bindE :: "'e + 'a \<Rightarrow> ('a \<Rightarrow> 'e + 'b) \<Rightarrow> 'e + 'b" where
  "bindE r k = (case r of Inl e \<Rightarrow> Inl e | Inr x \<Rightarrow> k x)"

definition u64_as_i64 :: "u64 \<Rightarrow> int" where
  "u64_as_i64 v = (if uint v < 2 ^ 63 then uint v else uint v - 2 ^ 64)"

definition normalize_eip1193_transaction ::
  "text_crates \<Rightarrow> eip1193_params \<Rightarrow> (normalization_error + eip1559_transaction \<times> address) run" where
  "normalize_eip1193_transaction tc params =
     (case parse_hex_u64 (p_chain_id params) of
        None \<Rightarrow> Done (Inl (InvalidField ''chain_id''))
      | Some chain_id_u64 \<Rightarrow>
         (case ChainId_try_from (u64_as_i64 chain_id_u64) of
            Inl e \<Rightarrow> Panic ''called `Result::unwrap()` on an `Err` value''
          | Inr c \<Rightarrow> Done (
              bindE (opt_quantity tc ''gas'' (p_gas params)) (\<lambda>gas.
              bindE (opt_quantity tc ''max_fee_per_gas'' (p_max_fee_per_gas params)) (\<lambda>max_fee.
              bindE (opt_quantity tc ''max_priority_fee_per_gas'' (p_max_priority_fee_per_gas params)) (\<lambda>prio.
              bindE (opt_quantity tc ''value'' (p_value params)) (\<lambda>val.
              bindE (opt_bytes tc ''data'' (p_data params)) (\<lambda>dat.
              bindE (collect_access_list tc (case p_access_list params of None \<Rightarrow> [] | Some l \<Rightarrow> l)) (\<lambda>acl.
                Inr (\<lparr>chain_id = c, nonce = TxNonce 0, max_priority_fee_per_gas = prio,
                      max_fee_per_gas = max_fee, gas_limit = gas, to_addr = p_to params,
                      tx_value = val, tx_data = dat, access_list = acl\<rparr>, p_from params))))))))))"


section \<open>Encoding\<close>

definition append_access_list :: "rlp_crate \<Rightarrow> (address \<times> u256 list) list \<Rightarrow> rlp_stream \<Rightarrow> rlp_stream" where
  "append_access_list rc acl s =
     foldl (\<lambda>s item.
         foldl (\<lambda>s key. eth_rlp_append_u256 rc key s)
           (append_call (BeginList (length (snd item)))
             (eth_rlp_append_address rc (fst item) (append_call (BeginList 2) s)))
           (snd item))
       (append_call (BeginList (length acl)) s) acl"

definition append_core_fields :: "rlp_crate \<Rightarrow> eip1559_transaction \<Rightarrow> rlp_stream \<Rightarrow> rlp_stream" where
  "append_core_fields rc tx s0 =
     (let s1 = eth_rlp_append_u256 rc (chain_u256 (chain_id tx)) s0;
          s2 = eth_rlp_append_u256 rc (nonce_u256 (nonce tx)) s1;
          s3 = eth_rlp_append_u256 rc (max_priority_fee_per_gas tx) s2;
          s4 = eth_rlp_append_u256 rc (max_fee_per_gas tx) s3;
          s5 = eth_rlp_append_u256 rc (gas_limit tx) s4;
          s6 = (case to_addr tx of Some a \<Rightarrow> eth_rlp_append_address rc a s5
                | None \<Rightarrow> append_call AppendEmptyData s5);
          s7 = eth_rlp_append_u256 rc (tx_value tx) s6;
          s8 = append_call (AppendBytes (tx_data tx)) s7
      in append_access_list rc (access_list tx) s8)"

definition encode_eip1559_unsigned :: "rlp_crate \<Rightarrow> eip1559_transaction \<Rightarrow> local_error + bytes" where
  "encode_eip1559_unsigned rc tx = Inr (stream_out rc (append_core_fields rc tx (new_list 9)))"

text \<open>The loop of \<open>strip_leading_zeros\<close>: all zeros leave the last byte.\<close>

fun strip_leading_zeros :: "bytes \<Rightarrow> bytes" where
  "strip_leading_zeros [] = []"
| "strip_leading_zeros [b] = [b]"
| "strip_leading_zeros (b # bs) = (if b = 0 then strip_leading_zeros bs else b # bs)"

definition encode_eip1559_signed ::
  "rlp_crate \<Rightarrow> eip1559_transaction \<Rightarrow> u8 \<Rightarrow> bytes \<Rightarrow> bytes \<Rightarrow> local_error + bytes" where
  "encode_eip1559_signed rc tx y_parity r s =
     (let s9 = append_core_fields rc tx (new_list 12);
          s10 = append_call (AppendU8 y_parity) s9;
          s11 = append_call (AppendBytes (strip_leading_zeros r)) s10;
          s12 = append_call (AppendBytes (strip_leading_zeros s)) s11
      in Inr (stream_out rc s12))"


section \<open>Signing\<close>

record ('k, 'sig) crypto =
  keccak256 :: "bytes \<Rightarrow> bytes"
  key_from_bytes :: "bytes \<Rightarrow> string + 'k"
  sign_prehash_recoverable :: "'k \<Rightarrow> bytes \<Rightarrow> string + 'sig \<times> u8"
  s_is_high :: "'sig \<Rightarrow> bool"
  normalize_s :: "'sig \<Rightarrow> 'sig option"
  sig_r :: "'sig \<Rightarrow> bytes"
  sig_s :: "'sig \<Rightarrow> bytes"

definition sign_eip1559_transaction ::
  "rlp_crate \<Rightarrow> ('k, 'sig) crypto \<Rightarrow> eip1559_transaction \<Rightarrow> bytes \<Rightarrow> local_error + signed_transaction" where
  "sign_eip1559_transaction rc cr tx pvt_key =
     bindE (encode_eip1559_unsigned rc tx) (\<lambda>unsigned_rlp.
     bindE (case key_from_bytes cr pvt_key of
              Inl e \<Rightarrow> Inl (Local_Internal (''Invalid private key: '' @ e)) | Inr k \<Rightarrow> Inr k) (\<lambda>signing_key.
     bindE (case sign_prehash_recoverable cr signing_key (keccak256 cr (2 # unsigned_rlp)) of
              Inl e \<Rightarrow> Inl (Local_Invariant (''Signing failed: '' @ e)) | Inr x \<Rightarrow> Inr x) (\<lambda>sig_rec.
     bindE (if s_is_high cr (fst sig_rec)
            then (case normalize_s cr (fst sig_rec) of
                    None \<Rightarrow> Inl (Local_Internal ''Failed to normalize signature'') | Some s' \<Rightarrow> Inr s')
            else Inr (fst sig_rec)) (\<lambda>signature.
     bindE (encode_eip1559_signed rc tx (snd sig_rec) (sig_r cr signature) (sig_s cr signature)) (\<lambda>signed_rlp.
       Inr \<lparr>rlp = 2 # signed_rlp, with_nonce = nonce tx\<rparr>)))))"


section \<open>What the encodings denote\<close>

definition to_item :: "address option \<Rightarrow> rlp_item" where
  "to_item x = (case x of None \<Rightarrow> RStr [] | Some a \<Rightarrow> RStr (address_bytes a))"

definition access_item :: "address \<times> u256 list \<Rightarrow> rlp_item" where
  "access_item item = RList [RStr (address_bytes (fst item)), RList (map u256_item (snd item))]"

definition core_items :: "eip1559_transaction \<Rightarrow> rlp_item list" where
  "core_items tx =
     [u256_item (chain_u256 (chain_id tx)), u256_item (nonce_u256 (nonce tx)),
      u256_item (max_priority_fee_per_gas tx), u256_item (max_fee_per_gas tx), u256_item (gas_limit tx),
      to_item (to_addr tx), u256_item (tx_value tx), RStr (tx_data tx),
      RList (map access_item (access_list tx))]"

definition u8_item :: "u8 \<Rightarrow> rlp_item" where
  "u8_item b = RStr (if b = 0 then [] else [b])"

definition signed_items :: "eip1559_transaction \<Rightarrow> u8 \<Rightarrow> bytes \<Rightarrow> bytes \<Rightarrow> rlp_item list" where
  "signed_items tx v r s =
     core_items tx @ [u8_item v, RStr (strip_leading_zeros r), RStr (strip_leading_zeros s)]"

text \<open>\<open>appends s s' ts\<close>: the calls \<open>s'\<close> adds to \<open>s\<close> describe the items \<open>ts\<close>.\<close>

definition appends :: "rlp_stream \<Rightarrow> rlp_stream \<Rightarrow> rlp_item list \<Rightarrow> bool" where
  "appends s s' ts \<longleftrightarrow> (\<exists>cs. s' = s @ cs \<and> renders_all cs ts)"

lemma renders_all_append:
  "renders_all cs ts \<Longrightarrow> renders_all cs' us \<Longrightarrow> renders_all (cs @ cs') (ts @ us)"
proof (induction us arbitrary: cs cs' ts)
  case Nil
  then show ?case by (auto elim: renders_all.cases)
next
  case (Cons u us)
  from Cons.prems(2) obtain c1 c2 where "cs' = c1 @ c2" "renders c1 u" "renders_all c2 us"
    by (auto elim: renders_all.cases)
  with Cons.IH [OF renders_all_snoc [OF Cons.prems(1)]] show ?case by fastforce
qed

lemma appends_refl: "appends s s []"
  by (simp add: appends_def renders_renders_all.none)

lemma appends_trans: "appends s s' ts \<Longrightarrow> appends s' s'' us \<Longrightarrow> appends s s'' (ts @ us)"
  unfolding appends_def using renders_all_append by fastforce

lemma renders_single: "renders cs t \<Longrightarrow> renders_all cs [t]"
  using renders_renders_all.one [OF _ renders_renders_all.none] by fastforce

lemma appends_call: "renders [c] t \<Longrightarrow> appends s (append_call c s) [t]"
  by (auto simp: appends_def append_call_def intro: renders_single)

lemma appends_u256: "rlp_crate_ok rc \<Longrightarrow> appends s (eth_rlp_append_u256 rc v s) [u256_item v]"
  using append_u256_renders [of rc v s] by (auto simp: appends_def intro: renders_single)

lemma appends_address:
  "rlp_crate_ok rc \<Longrightarrow> appends s (eth_rlp_append_address rc a s) [RStr (address_bytes a)]"
  using append_address_renders [of rc a s] by (auto simp: appends_def intro: renders_single)

lemma appends_list:
  "appends (append_call (BeginList (length ts)) s) s' ts \<Longrightarrow> appends s s' [RList ts]"
  unfolding appends_def append_call_def using renders_renders_all.list renders_single by fastforce

lemma appends_foldl:
  "(\<And>x s. appends s (f s x) [g x]) \<Longrightarrow> appends s (foldl f s xs) (map g xs)"
proof (induction xs arbitrary: s)
  case Nil
  then show ?case by (simp add: appends_refl)
next
  case (Cons x xs)
  then have "appends s (f s x) [g x]" "appends (f s x) (foldl f (f s x) xs) (map g xs)" by blast+
  from appends_trans [OF this] show ?case by simp
qed

lemma appends_access_item:
  assumes "rlp_crate_ok rc"
  shows "appends s
    (foldl (\<lambda>s key. eth_rlp_append_u256 rc key s)
      (append_call (BeginList (length (snd item)))
        (eth_rlp_append_address rc (fst item) (append_call (BeginList 2) s)))
      (snd item)) [access_item item]"
proof -
  let ?s1 = "append_call (BeginList 2) s"
  let ?s2 = "eth_rlp_append_address rc (fst item) ?s1"
  have "appends (append_call (BeginList (length (map u256_item (snd item)))) ?s2)
      (foldl (\<lambda>s key. eth_rlp_append_u256 rc key s)
        (append_call (BeginList (length (snd item))) ?s2) (snd item)) (map u256_item (snd item))"
    using appends_foldl [of "\<lambda>s key. eth_rlp_append_u256 rc key s" u256_item] appends_u256 [OF assms] by simp
  from appends_trans [OF appends_address [OF assms] appends_list [OF this]]
  show ?thesis unfolding access_item_def by (intro appends_list) (simp add: numeral_2_eq_2)
qed

lemma appends_access_list:
  "rlp_crate_ok rc \<Longrightarrow> appends s (append_access_list rc acl s) [RList (map access_item acl)]"
  unfolding append_access_list_def
  using appends_foldl [OF appends_access_item] by (intro appends_list) fastforce

lemma appends_core_fields:
  assumes "rlp_crate_ok rc"
  shows "appends s (append_core_fields rc tx s) (core_items tx)"
proof -
  have to: "appends s (case to_addr tx of Some a \<Rightarrow> eth_rlp_append_address rc a s
      | None \<Rightarrow> append_call AppendEmptyData s) [to_item (to_addr tx)]" for s
    using appends_address [OF assms] appends_call [OF renders_renders_all.empty]
    by (simp add: to_item_def split: option.splits)
  note step = appends_trans [OF _ appends_u256 [OF assms]]
  show ?thesis
    unfolding append_core_fields_def Let_def core_items_def
    using appends_trans [OF appends_trans [OF step [OF appends_trans [OF step [OF step [OF step [OF step [OF
      appends_u256 [OF assms]]]]] to]] appends_call [OF renders_renders_all.bytes]] appends_access_list [OF assms]]
    by simp
qed

lemma stream_out_list:
  assumes "rlp_crate_ok rc" "appends (new_list (length ts)) s ts"
  shows "stream_out rc s = rlp_encode (RList ts)"
  using assms renders_renders_all.list unfolding appends_def new_list_def rlp_crate_ok_def by fastforce

lemma length_core_items [simp]: "length (core_items tx) = 9"
  by (simp add: core_items_def)

lemma encode_unsigned_denotes:
  "rlp_crate_ok rc \<Longrightarrow> encode_eip1559_unsigned rc tx = Inr (rlp_encode (RList (core_items tx)))"
  using stream_out_list [where ts = "core_items tx"] appends_core_fields [of rc "new_list 9" tx]
  by (simp add: encode_eip1559_unsigned_def del: rlp_encode.simps)

lemma encode_signed_denotes:
  assumes "rlp_crate_ok rc"
  shows "encode_eip1559_signed rc tx v r s = Inr (rlp_encode (RList (signed_items tx v r s)))"
proof -
  note step = appends_trans [OF _ appends_call [OF renders_renders_all.bytes]]
  have "appends (new_list (length (signed_items tx v r s)))
     (append_call (AppendBytes (strip_leading_zeros s)) (append_call (AppendBytes (strip_leading_zeros r))
       (append_call (AppendU8 v) (append_core_fields rc tx (new_list 12))))) (signed_items tx v r s)"
    using step [OF step [OF appends_trans [OF appends_core_fields [OF assms]
      appends_call [OF renders_renders_all.u8 [of v]]]]]
    by (simp add: signed_items_def u8_item_def)
  from stream_out_list [OF assms this] show ?thesis
    by (simp add: encode_eip1559_signed_def Let_def del: rlp_encode.simps)
qed

lemma access_item_inject [simp]: "access_item x = access_item y \<longleftrightarrow> x = y"
proof -
  have "map u256_item xs = map u256_item ys \<longleftrightarrow> xs = ys" for xs ys
    by (metis (mono_tags, lifting) inj_map_eq_map injI u256_item_inject)
  then show ?thesis by (auto simp: access_item_def prod_eq_iff)
qed

lemma core_items_inject: "core_items tx = core_items tx' \<Longrightarrow> tx = tx'"
proof -
  assume eq: "core_items tx = core_items tx'"
  have "map access_item xs = map access_item ys \<longleftrightarrow> xs = ys" for xs ys
    by (metis (mono_tags, lifting) access_item_inject inj_map_eq_map injI)
  moreover have "to_item x = to_item y \<longleftrightarrow> x = y" for x y
    by (auto simp: to_item_def address_bytes_nonempty [symmetric] split: option.splits)
  ultimately show "tx = tx'"
    using eq by (cases tx; cases tx') (auto simp: core_items_def chain_id.expand tx_nonce.expand)
qed


section \<open>Properties\<close>

definition sample_tx :: eip1559_transaction where
  "sample_tx = \<lparr>chain_id = ChainId 1, nonce = TxNonce 7, max_priority_fee_per_gas = 1,
     max_fee_per_gas = 300, gas_limit = 21000, to_addr = Some 9, tx_value = 0, tx_data = [1, 2],
     access_list = []\<rparr>"

definition sample_crypto :: "(bytes, bytes) crypto" where
  "sample_crypto = \<lparr>keccak256 = (\<lambda>bs. bs), key_from_bytes = (\<lambda>k. if length k = 32 then Inr k else Inl ''length''),
     sign_prehash_recoverable = (\<lambda>k h. Inr (k, 1)), s_is_high = (\<lambda>s. False), normalize_s = (\<lambda>s. Some s),
     sig_r = (\<lambda>s. s), sig_s = (\<lambda>s. s)\<rparr>"

lemma core_items_sized:
  assumes "access_list tx = []" "length (tx_data tx) < 2 ^ 32"
  shows "rlp_sized (RList (core_items tx))"
proof -
  have to: "rlp_sized (to_item x)" "length (rlp_encode (to_item x)) \<le> 29" for x
    using length_rlp_string [of "[]"] length_rlp_string [of "address_bytes a" for a]
    by (auto simp: to_item_def address_bytes_def split: option.splits)
  have dat: "length (rlp_string (tx_data tx)) \<le> 2 ^ 32 + 9"
    using length_rlp_string [of "tx_data tx"] assms(2) by simp
  have nil: "length (rlp_header 192 0) = 1" by (simp add: rlp_header_def)
  note u = u256_item_size(2)
  have "length (concat (map rlp_encode (core_items tx))) < 2 ^ 64"
    using assms(1) nil dat to(2) [of "to_addr tx"] u [of "chain_u256 (chain_id tx)"] u [of "nonce_u256 (nonce tx)"]
      u [of "max_priority_fee_per_gas tx"] u [of "max_fee_per_gas tx"] u [of "gas_limit tx"] u [of "tx_value tx"]
    by (simp add: core_items_def)
  moreover have "list_all rlp_sized (core_items tx)"
    using assms to(1) by (simp add: core_items_def u256_item_size)
  ultimately show ?thesis by simp
qed

lemma sample_tx_sized: "rlp_sized (RList (core_items sample_tx))"
  by (rule core_items_sized) (simp_all add: sample_tx_def)

text \<open>
  C33. The unsigned payload determines the transaction: two transactions whose nine-field encodings
  are equal agree in every field, so the hash that is signed commits to all of them.
\<close>

theorem unsigned_encoding_injective:
  assumes "rlp_crate_ok rc"
    and "rlp_sized (RList (core_items tx))" "rlp_sized (RList (core_items tx'))"
    and "encode_eip1559_unsigned rc tx = encode_eip1559_unsigned rc tx'"
  shows "tx = tx'"
proof -
  have "rlp_encode (RList (core_items tx)) = rlp_encode (RList (core_items tx'))"
    using assms(4) unfolding encode_unsigned_denotes [OF assms(1)] by blast
  with assms(2,3) have "RList (core_items tx) = RList (core_items tx')" by (intro rlp_encode_inject)
  then show ?thesis by (simp add: core_items_inject)
qed

theorem unsigned_encoding_injective_witness:
  "encode_eip1559_unsigned sample_crate sample_tx \<noteq>
   encode_eip1559_unsigned sample_crate (sample_tx\<lparr>nonce := TxNonce 8\<rparr>)"
proof
  assume eq: "encode_eip1559_unsigned sample_crate sample_tx =
     encode_eip1559_unsigned sample_crate (sample_tx\<lparr>nonce := TxNonce 8\<rparr>)"
  have sized: "rlp_sized (RList (core_items (sample_tx\<lparr>nonce := TxNonce 8\<rparr>)))"
    by (rule core_items_sized) (simp_all add: sample_tx_def)
  from unsigned_encoding_injective [OF sample_crate_ok sample_tx_sized sized eq]
  show False by (simp add: sample_tx_def)
qed

lemma sign_eip1559_Inr:
  assumes "rlp_crate_ok rc" "sign_eip1559_transaction rc cr tx pvt_key = Inr stx"
  obtains k sig v sig' where "key_from_bytes cr pvt_key = Inr k"
    "sign_prehash_recoverable cr k (keccak256 cr (2 # rlp_encode (RList (core_items tx)))) = Inr (sig, v)"
    "if s_is_high cr sig then normalize_s cr sig = Some sig' else sig' = sig"
    "stx = \<lparr>rlp = 2 # rlp_encode (RList (signed_items tx v (sig_r cr sig') (sig_s cr sig'))), with_nonce = nonce tx\<rparr>"
proof -
  show thesis
    using assms(2) that
    unfolding sign_eip1559_transaction_def encode_unsigned_denotes [OF assms(1)] encode_signed_denotes [OF assms(1)]
    by (auto simp: bindE_def simp del: rlp_encode.simps split: sum.splits option.splits if_splits)
qed

text \<open>
  C34. A signed transaction carries the nonce of the transaction and is the type byte 2 followed by
  the twelve-item list of its fields and a signature with low \<open>s\<close>, made with the given key over the
  hash of the type byte and the nine-item list of the same fields.
\<close>

theorem signed_transaction_shape:
  assumes "rlp_crate_ok rc" "\<forall>s s'. normalize_s cr s = Some s' \<longrightarrow> \<not> s_is_high cr s'"
    and "sign_eip1559_transaction rc cr tx pvt_key = Inr stx"
  shows "with_nonce stx = nonce tx \<and>
    (\<exists>k sig v sig'. key_from_bytes cr pvt_key = Inr k \<and>
      sign_prehash_recoverable cr k (keccak256 cr (2 # rlp_encode (RList (core_items tx)))) = Inr (sig, v) \<and>
      (sig' = sig \<or> normalize_s cr sig = Some sig') \<and> \<not> s_is_high cr sig' \<and>
      rlp stx = 2 # rlp_encode (RList (signed_items tx v (sig_r cr sig') (sig_s cr sig'))))"
proof (rule sign_eip1559_Inr [OF assms(1,3)])
  fix k sig v sig'
  assume facts: "key_from_bytes cr pvt_key = Inr k"
    "sign_prehash_recoverable cr k (keccak256 cr (2 # rlp_encode (RList (core_items tx)))) = Inr (sig, v)"
    "if s_is_high cr sig then normalize_s cr sig = Some sig' else sig' = sig"
    "stx = \<lparr>rlp = 2 # rlp_encode (RList (signed_items tx v (sig_r cr sig') (sig_s cr sig'))), with_nonce = nonce tx\<rparr>"
  then have "\<not> s_is_high cr sig'" "sig' = sig \<or> normalize_s cr sig = Some sig'"
    using assms(2) by (auto split: if_splits)
  with facts show ?thesis by (simp del: rlp_encode.simps) blast
qed

theorem signed_transaction_shape_witness:
  "\<exists>stx. sign_eip1559_transaction sample_crate sample_crypto sample_tx (replicate 32 1) = Inr stx \<and>
     with_nonce stx = TxNonce 7"
proof -
  have ok: "\<exists>stx. sign_eip1559_transaction sample_crate sample_crypto sample_tx (replicate 32 1) = Inr stx"
    by (simp add: sign_eip1559_transaction_def encode_unsigned_denotes [OF sample_crate_ok]
        encode_signed_denotes [OF sample_crate_ok] bindE_def sample_crypto_def del: rlp_encode.simps)
  then obtain stx where
    s: "sign_eip1559_transaction sample_crate sample_crypto sample_tx (replicate 32 1) = Inr stx" ..
  have "\<forall>s s'. normalize_s sample_crypto s = Some s' \<longrightarrow> \<not> s_is_high sample_crypto s'"
    by (simp add: sample_crypto_def)
  from signed_transaction_shape [OF sample_crate_ok this s] s show ?thesis by (simp add: sample_tx_def)
qed

lemma ChainId_of_u64:
  "ChainId_try_from (u64_as_i64 v) =
     (if uint v < 2 ^ 63 then Inr (ChainId (word_of_int (uint v)))
      else Inl (Local_Rejected (''Invalid chain id: -'' @ show_nat (nat (2 ^ 64 - uint v)))))"
  using uint_bounded [of v] by (auto simp: ChainId_try_from_def u64_as_i64_def)

text \<open>
  Normalisation panics exactly when the chain id is a hexadecimal number from \<open>2 ^ 63\<close> up, where
  the cast to \<open>i64\<close> is negative; whenever it succeeds, the transaction has the parsed chain id, nonce
  zero, the parsed quantities, zero where a quantity is absent, and the sender of the request.
\<close>

theorem normalize_outcome:
  "((\<exists>m. normalize_eip1193_transaction tc params = Panic m) \<longleftrightarrow>
      (\<exists>c. parse_hex_u64 (p_chain_id params) = Some c \<and> 2 ^ 63 \<le> uint c)) \<and>
   (\<forall>tx from. normalize_eip1193_transaction tc params = Done (Inr (tx, from)) \<longrightarrow>
      (\<exists>c. parse_hex_u64 (p_chain_id params) = Some c \<and> uint c < 2 ^ 63 \<and>
         chain_id tx = ChainId (word_of_int (uint c))) \<and>
      nonce tx = TxNonce 0 \<and> from = p_from params \<and> to_addr tx = p_to params \<and>
      opt_quantity tc ''gas'' (p_gas params) = Inr (gas_limit tx) \<and>
      opt_quantity tc ''max_fee_per_gas'' (p_max_fee_per_gas params) = Inr (max_fee_per_gas tx) \<and>
      opt_quantity tc ''max_priority_fee_per_gas'' (p_max_priority_fee_per_gas params) =
        Inr (max_priority_fee_per_gas tx) \<and>
      opt_quantity tc ''value'' (p_value params) = Inr (tx_value tx) \<and>
      opt_bytes tc ''data'' (p_data params) = Inr (tx_data tx) \<and>
      map fst (access_list tx) = map ali_address (case p_access_list params of None \<Rightarrow> [] | Some l \<Rightarrow> l))"
proof -
  have acl: "collect_access_list tc items = Inr l \<Longrightarrow> map fst l = map ali_address items" for items l
    by (induction items arbitrary: l) (auto split: option.splits sum.splits)
  show ?thesis
    using acl
    by (auto simp: normalize_eip1193_transaction_def ChainId_of_u64 bindE_def not_less
        split: option.splits sum.splits if_splits)
qed

definition sample_text :: text_crates where
  "sample_text = \<lparr>u256_from_hex = (\<lambda>s. case read_digits hex_digit 16 0 s of None \<Rightarrow> None | Some n \<Rightarrow> Some (of_nat n)),
     hex_decode = (\<lambda>s. if s = [] then Inr [] else Inl ''odd'')\<rparr>"

definition sample_params :: eip1193_params where
  "sample_params = \<lparr>p_from = 7, p_to = Some 9, p_gas = Some ''0x5208'', p_max_fee_per_gas = Some ''0x12c'',
     p_max_priority_fee_per_gas = Some ''0x1'', p_value = None, p_data = None, p_chain_id = ''0x89'',
     p_access_list = None\<rparr>"

theorem normalize_outcome_witness:
  "(\<exists>m. normalize_eip1193_transaction sample_text (sample_params\<lparr>p_chain_id := ''0x8000000000000000''\<rparr>) = Panic m) \<and>
   (\<exists>tx. normalize_eip1193_transaction sample_text sample_params = Done (Inr (tx, 7)) \<and>
      nonce tx = TxNonce 0 \<and> chain_id tx = ChainId 137)"
proof -
  have "parse_hex_u64 (p_chain_id (sample_params\<lparr>p_chain_id := ''0x8000000000000000''\<rparr>)) = Some 9223372036854775808"
    and c: "parse_hex_u64 (p_chain_id sample_params) = Some 137"
    by (simp_all add: parse_hex_u64_def strip_0x_def sample_params_def parse_hex_digits_u64_def hex_digit_def)
  then have panic: "\<exists>m. normalize_eip1193_transaction sample_text (sample_params\<lparr>p_chain_id := ''0x8000000000000000''\<rparr>) = Panic m"
    using normalize_outcome [of sample_text "sample_params\<lparr>p_chain_id := ''0x8000000000000000''\<rparr>"] by simp
  have "\<exists>tx. normalize_eip1193_transaction sample_text sample_params = Done (Inr (tx, 7))"
    using c by (auto simp: normalize_eip1193_transaction_def ChainId_of_u64 bindE_def opt_quantity_def opt_bytes_def
        parse_hex_u256_def strip_0x_def sample_text_def sample_params_def hex_digit_def)
  with c normalize_outcome [of sample_text sample_params] panic show ?thesis by auto
qed

end
