(* ===== verification/Rpc_Metrics.thy ===== *)
theory Rpc_Metrics
  imports F64 Retry Eip1559
begin

text \<open>
  Endpoint metrics of the RPC layer, \<^verbatim>\<open>crate/utils/src/rpc/metrics.rs\<close>: the counters, the ring of response
  times, the health derived from them and the score the load balancer reads. Every atomic cell is a field
  and every method one step on the record. The sources read \<open>Instant::now().elapsed()\<close> as the current time:
  what that returns, the time between the two reads of the clock, is an argument \<open>lag\<close> of each method.
  The \<open>u64\<close> additions wrap, as in the release build.
\<close>

unbundle bit_operations_syntax

section \<open>Health\<close>

datatype endpoint_health = Healthy | Degraded | Unhealthy

fun traffic_multiplier :: "endpoint_health \<Rightarrow> f64" where
  "traffic_multiplier Healthy = 1"
| "traffic_multiplier Degraded = 1 / 2"
| "traffic_multiplier Unhealthy = 0"

fun health_is_available :: "endpoint_health \<Rightarrow> bool" where
  "health_is_available Unhealthy = False"
| "health_is_available _ = True"

definition RESPONSE_TIME_WINDOW_SIZE :: nat where "RESPONSE_TIME_WINDOW_SIZE = 128"

definition RESPONSE_TIME_MASK :: u64 where "RESPONSE_TIME_MASK = 127"

definition DEFAULT_RESPONSE_TIME_MS :: f64 where "DEFAULT_RESPONSE_TIME_MS = 100"

definition CIRCUIT_BREAKER_BACKOFF :: "nat list" where "CIRCUIT_BREAKER_BACKOFF = [10, 30, 60]"

definition MIN_REQUESTS_FOR_HEALTH :: u64 where "MIN_REQUESTS_FOR_HEALTH = 10"

definition DEGRADED_THRESHOLD :: f64 where "DEGRADED_THRESHOLD = f64_round (15 / 100)"

definition UNHEALTHY_THRESHOLD :: f64 where "UNHEALTHY_THRESHOLD = f64_round (40 / 100)"


section \<open>Metrics\<close>

record endpoint_metrics =
  em_id :: string
  em_url :: string
  em_health :: u32
  em_response_times_ms :: "u64 list"
  em_response_time_index :: u64
  em_error_count :: u64
  em_request_count :: u64
  em_last_success_at :: u64
  em_circuit_breaker_until :: u64
  em_circuit_breaker_attempts :: u32
  em_window_epoch :: u64
  em_degraded_threshold :: f64
  em_unhealthy_threshold :: f64

definition EndpointMetrics_new :: "string \<Rightarrow> string \<Rightarrow> duration \<Rightarrow> endpoint_metrics" where
  "EndpointMetrics_new ident url lag =
     \<lparr>em_id = ident, em_url = url, em_health = 0,
      em_response_times_ms = replicate RESPONSE_TIME_WINDOW_SIZE 0, em_response_time_index = 0,
      em_error_count = 0, em_request_count = 0, em_last_success_at = 0,
      em_circuit_breaker_until = 0, em_circuit_breaker_attempts = 0, em_window_epoch = as_millis lag,
      em_degraded_threshold = DEGRADED_THRESHOLD, em_unhealthy_threshold = UNHEALTHY_THRESHOLD\<rparr>"

definition set_error_thresholds :: "f64 \<Rightarrow> f64 \<Rightarrow> endpoint_metrics \<Rightarrow> endpoint_metrics" where
  "set_error_thresholds degraded unhealthy m =
     m\<lparr>em_degraded_threshold := degraded, em_unhealthy_threshold := unhealthy\<rparr>"

text \<open>The slots the average samples, newest first: every fourth of them beyond 32 entries.\<close>

definition sample_step :: "nat \<Rightarrow> nat" where
  "sample_step count = (if count > 32 then 4 else 1)"

definition sampled_slots :: "u64 \<Rightarrow> nat list" where
  "sampled_slots index =
     (let count = min (unat index) RESPONSE_TIME_WINDOW_SIZE in
      map (\<lambda>i. unat ((index - 1 - of_nat i) AND RESPONSE_TIME_MASK))
        (filter (\<lambda>i. i mod sample_step count = 0) [0..<count]))"

definition average_response_time_ms :: "endpoint_metrics \<Rightarrow> f64" where
  "average_response_time_ms m =
     (let index = em_response_time_index m in
      if index = 0 then DEFAULT_RESPONSE_TIME_MS
      else
        (let vals = filter (\<lambda>v. v > 0) (map ((!) (em_response_times_ms m)) (sampled_slots index));
             step = sample_step (min (unat index) RESPONSE_TIME_WINDOW_SIZE) in
         if vals = [] then DEFAULT_RESPONSE_TIME_MS
         else f64_mul (f64_div (f64_of_nat (unat (sum_list vals))) (f64_of_nat (length vals))) (f64_of_nat step)))"

definition error_rate :: "endpoint_metrics \<Rightarrow> f64" where
  "error_rate m =
     (let requests = em_request_count m in
      if requests < MIN_REQUESTS_FOR_HEALTH then 0
      else f64_div (f64_of_nat (unat (em_error_count m))) (f64_of_nat (unat requests)))"

definition health :: "endpoint_metrics \<Rightarrow> endpoint_health" where
  "health m = (if em_health m = 0 then Healthy else if em_health m = 1 then Degraded else Unhealthy)"

definition load_balancing_score :: "endpoint_metrics \<Rightarrow> f64" where
  "load_balancing_score m =
     (let multiplier = traffic_multiplier (health m) in
      if multiplier = 0 then 0
      else f64_mul (f64_div 1000 (max (average_response_time_ms m) 1)) multiplier)"

definition is_available :: "endpoint_metrics \<Rightarrow> bool" where
  "is_available m = health_is_available (health m)"

definition update_health_status :: "duration \<Rightarrow> endpoint_metrics \<Rightarrow> endpoint_metrics" where
  "update_health_status lag m =
     (let cb_until = em_circuit_breaker_until m in
      if cb_until > 0 \<and> as_millis lag < cb_until then m\<lparr>em_health := 2\<rparr>
      else
        (let m' = (if cb_until > 0 then m\<lparr>em_circuit_breaker_until := 0\<rparr> else m);
             rate = error_rate m' in
         m'\<lparr>em_health :=
             (if rate > em_unhealthy_threshold m' then 2
              else if rate > em_degraded_threshold m' then 1 else 0)\<rparr>))"

definition record_success :: "duration \<Rightarrow> duration \<Rightarrow> duration \<Rightarrow> endpoint_metrics \<Rightarrow> endpoint_metrics" where
  "record_success elapsed lag lag' m =
     (let now_millis = as_millis lag;
          index = em_response_time_index m;
          m1 = m\<lparr>em_response_time_index := index + 1,
                 em_response_times_ms :=
                   (em_response_times_ms m)[unat (index AND RESPONSE_TIME_MASK) := as_millis elapsed],
                 em_request_count := em_request_count m + 1,
                 em_last_success_at := now_millis\<rparr>;
          cb_until = em_circuit_breaker_until m1;
          m2 = (if cb_until > 0 \<and> now_millis \<ge> cb_until
                then m1\<lparr>em_circuit_breaker_until := 0, em_circuit_breaker_attempts := 0\<rparr> else m1) in
      update_health_status lag' m2)"

definition record_failure :: "duration \<Rightarrow> endpoint_metrics \<Rightarrow> endpoint_metrics" where
  "record_failure lag m =
     update_health_status lag
       (m\<lparr>em_error_count := em_error_count m + 1, em_request_count := em_request_count m + 1\<rparr>)"

text \<open>The expiry lies in the future when its \<open>elapsed()\<close> is taken, and \<open>elapsed\<close> saturates at zero.\<close>

definition activate_circuit_breaker :: "duration \<Rightarrow> endpoint_metrics \<Rightarrow> endpoint_metrics" where
  "activate_circuit_breaker lag m =
     (let attempts = unat (em_circuit_breaker_attempts m);
          backoff_secs = CIRCUIT_BREAKER_BACKOFF ! min attempts (length CIRCUIT_BREAKER_BACKOFF - 1);
          expiry_ms = as_millis (saturating_sub lag (backoff_secs * 1000000)) in
      m\<lparr>em_circuit_breaker_until := expiry_ms,
        em_circuit_breaker_attempts := em_circuit_breaker_attempts m + 1, em_health := 2\<rparr>)"

definition reset_window :: "duration \<Rightarrow> endpoint_metrics \<Rightarrow> endpoint_metrics" where
  "reset_window lag m =
     m\<lparr>em_window_epoch := as_millis lag, em_error_count := 0, em_request_count := 0\<rparr>"

text \<open>
  The two reads that reconstruct an instant. The subtraction of \<open>last_success\<close> leaves the range of \<open>u64\<close>
  when the stored time exceeds the lag: it panics, or wraps to a duration no instant can be moved by.
\<close>

definition last_success :: "db_time \<Rightarrow> duration \<Rightarrow> endpoint_metrics \<Rightarrow> db_time option run" where
  "last_success now lag m =
     (let millis = em_last_success_at m in
      if millis = 0 then Done None
      else if as_millis lag < millis then Panic ''overflow when subtracting duration from instant''
      else Done (Some (now - int (from_millis (as_millis lag - millis)))))"

definition circuit_breaker_until :: "db_time \<Rightarrow> duration \<Rightarrow> endpoint_metrics \<Rightarrow> db_time option" where
  "circuit_breaker_until now lag m =
     (let millis = em_circuit_breaker_until m; now_millis = as_millis lag in
      if millis = 0 then None
      else if now_millis < millis then Some (now + int (from_millis (millis - now_millis)))
      else None)"

record endpoint_metrics_snapshot =
  sn_id :: string
  sn_url :: string
  sn_health :: endpoint_health
  sn_avg_response_time_ms :: f64
  sn_error_rate :: f64
  sn_score :: f64
  sn_request_count :: u64
  sn_error_count :: u64

definition snapshot :: "endpoint_metrics \<Rightarrow> endpoint_metrics_snapshot" where
  "snapshot m =
     \<lparr>sn_id = em_id m, sn_url = em_url m, sn_health = health m,
      sn_avg_response_time_ms = average_response_time_ms m, sn_error_rate = error_rate m,
      sn_score = load_balancing_score m, sn_request_count = em_request_count m,
      sn_error_count = em_error_count m\<rparr>"


section \<open>Scores\<close>

lemma average_nonneg: "0 \<le> average_response_time_ms m"
  by (auto simp: average_response_time_ms_def Let_def DEFAULT_RESPONSE_TIME_MS_def f64_mul_def f64_round_nonneg)

text \<open>An endpoint has a positive score exactly when it is available.\<close>

lemma score_pos_iff: "0 < load_balancing_score m \<longleftrightarrow> is_available m"
proof -
  have "0 < f64_div 1000 (max (average_response_time_ms m) 1)"
    by (simp add: f64_div_def f64_round_pos_iff zero_less_divide_iff less_max_iff_disj)
  then show ?thesis
    by (cases "health m")
      (simp_all add: load_balancing_score_def is_available_def Let_def f64_mul_def f64_round_pos_iff)
qed

lemma score_nonneg: "0 \<le> load_balancing_score m"
  by (auto simp: load_balancing_score_def Let_def f64_mul_def f64_round_nonneg)


text \<open>
  The sampling correction overstates: the mean of the samples is multiplied by the sampling step, so when every
  recorded time is \<open>v\<close> the average is \<open>v\<close> up to 32 entries and \<open>4 * v\<close> beyond.
\<close>

lemma slot_bound: "unat (w AND RESPONSE_TIME_MASK) < RESPONSE_TIME_WINDOW_SIZE"
proof -
  have "w AND 127 \<le> (127 :: u64)" by (rule word_and_le1)
  then have "unat (w AND 127) \<le> unat (127 :: u64)" by (simp only: word_le_nat_alt)
  then show ?thesis by (simp add: RESPONSE_TIME_MASK_def RESPONSE_TIME_WINDOW_SIZE_def)
qed

lemma sampled_slots_bound: "i \<in> set (sampled_slots index) \<Longrightarrow> i < RESPONSE_TIME_WINDOW_SIZE"
  using slot_bound by (auto simp: sampled_slots_def Let_def)

lemma sampled_slots_length: "length (sampled_slots index) \<le> RESPONSE_TIME_WINDOW_SIZE"
  by (auto simp: sampled_slots_def Let_def intro: order_trans [OF length_filter_le])

lemma sampled_slots_nonempty: "index \<noteq> 0 \<Longrightarrow> sampled_slots index \<noteq> []"
  by (auto simp: sampled_slots_def Let_def filter_empty_conv RESPONSE_TIME_WINDOW_SIZE_def unat_gt_0 intro!: bexI [of _ 0])

lemma average_of_constant:
  assumes "em_response_times_ms m = replicate RESPONSE_TIME_WINDOW_SIZE v" "0 < v" "unat v < 2 ^ 40"
    and "em_response_time_index m \<noteq> 0"
  shows "average_response_time_ms m = of_nat (sample_step (min (unat (em_response_time_index m)) 128) * unat v)"
proof -
  let ?slots = "sampled_slots (em_response_time_index m)" and ?n = "length (sampled_slots (em_response_time_index m))"
  have n: "0 < ?n" "?n \<le> 128"
    using sampled_slots_nonempty [OF assms(4)] sampled_slots_length by (auto simp: RESPONSE_TIME_WINDOW_SIZE_def)
  have vals: "filter (\<lambda>v. v > 0) (map ((!) (em_response_times_ms m)) ?slots) = replicate ?n v"
    unfolding assms(1) using sampled_slots_bound assms(2)
    by (subst map_replicate_const [symmetric], subst map_cong [OF refl, of ?slots _ "\<lambda>_. v"]) auto
  have small: "?n * unat v < 2 ^ 53" using n assms(3) by (intro le_less_trans [OF mult_le_mono1 [of ?n 128]]) simp_all
  have total: "unat (sum_list (replicate ?n v)) = ?n * unat v"
    using small n by (simp add: sum_list_replicate unat_word_ariths unat_of_nat)
  have "f64_div (f64_of_nat (?n * unat v)) (f64_of_nat ?n) = of_nat (unat v)"
    using n small assms(2) by (intro f64_div_exact) (simp_all add: word_less_nat_alt)
  moreover have "f64_mul (of_nat (unat v)) (f64_of_nat (sample_step c)) = of_nat (sample_step c * unat v)" for c
    using assms(2,3) by (intro f64_mul_exact) (simp_all add: sample_step_def word_less_nat_alt)
  ultimately show ?thesis
    using assms(4) n by (simp add: average_response_time_ms_def Let_def vals total RESPONSE_TIME_WINDOW_SIZE_def)
qed


section \<open>The well-formed metrics\<close>

text \<open>
  No caller of the sources activates the circuit breaker or changes the thresholds, so the metrics of a
  running service keep the ring at its size, a health code in range, the default thresholds and no expiry.
\<close>

definition metrics_ok :: "endpoint_metrics \<Rightarrow> bool" where
  "metrics_ok m \<longleftrightarrow>
     length (em_response_times_ms m) = RESPONSE_TIME_WINDOW_SIZE \<and> em_health m \<le> 2 \<and>
     em_circuit_breaker_until m = 0 \<and> em_circuit_breaker_attempts m = 0 \<and>
     em_degraded_threshold m = DEGRADED_THRESHOLD \<and> em_unhealthy_threshold m = UNHEALTHY_THRESHOLD"

lemma metrics_ok_new: "metrics_ok (EndpointMetrics_new i u lag)"
  by (simp add: metrics_ok_def EndpointMetrics_new_def)

lemma update_health_fields:
  assumes "em_circuit_breaker_until m = 0"
  shows "update_health_status lag m =
    m\<lparr>em_health := (if error_rate m > em_unhealthy_threshold m then 2 else if error_rate m > em_degraded_threshold m then 1 else 0)\<rparr>"
  using assms by (simp add: update_health_status_def Let_def)

lemma metrics_ok_update: "metrics_ok m \<Longrightarrow> metrics_ok (update_health_status lag m)"
  by (simp add: update_health_fields metrics_ok_def)

lemma metrics_ok_success: "metrics_ok m \<Longrightarrow> metrics_ok (record_success d lag lag' m)"
  unfolding record_success_def Let_def
  by (rule metrics_ok_update) (simp add: metrics_ok_def)

lemma metrics_ok_failure: "metrics_ok m \<Longrightarrow> metrics_ok (record_failure lag m)"
  unfolding record_failure_def by (rule metrics_ok_update) (simp add: metrics_ok_def)

lemma metrics_ok_reset: "metrics_ok m \<Longrightarrow> metrics_ok (reset_window lag m)"
  by (simp add: metrics_ok_def reset_window_def)

text \<open>Activating the breaker leaves no expiry behind unless the two reads of the clock are ten seconds apart.\<close>

lemma activate_arms_nothing:
  assumes "lag < 10000000"
  shows "em_circuit_breaker_until (activate_circuit_breaker lag m) = 0"
proof -
  define b where "b = CIRCUIT_BREAKER_BACKOFF ! min (unat (em_circuit_breaker_attempts m)) (length CIRCUIT_BREAKER_BACKOFF - 1)"
  have "b \<in> set CIRCUIT_BREAKER_BACKOFF" unfolding b_def by (intro nth_mem) (simp add: CIRCUIT_BREAKER_BACKOFF_def)
  then have "lag - b * 1000000 = 0" using assms by (auto simp: CIRCUIT_BREAKER_BACKOFF_def)
  then show ?thesis
    unfolding activate_circuit_breaker_def Let_def b_def [symmetric] by (simp add: saturating_sub_def as_millis_def)
qed


section \<open>Health follows the error rate\<close>

text \<open>
  Comparing two rounded ratios is comparing the ratios, while the denominators are small against the 53 bits:
  ratios with denominators \<open>n\<close> and \<open>q\<close> that differ are \<open>1 / (n * q)\<close> apart.
\<close>

lemma ratio_gap:
  assumes "p * n < k * q" "0 < n" "n < 2 ^ 47" "0 < q" "q \<le> 32"
  shows "(of_nat p :: rat) / of_nat q + 1 / 2 ^ 52 < of_nat k / of_nat n"
proof -
  have nq: "n * q < 2 ^ 52"
  proof -
    have "n * q \<le> n * 32" using assms(5) by simp
    also have "\<dots> < 2 ^ 47 * 32" using assms(3) by simp
    finally show ?thesis by simp
  qed
  have "(of_nat (p * n + 1) :: rat) \<le> of_nat (k * q)" using assms(1) by (subst of_nat_le_iff) simp
  then have "(of_nat p * of_nat n + 1) / (of_nat n * of_nat q) \<le> (of_nat k * of_nat q :: rat) / (of_nat n * of_nat q)"
    by (intro divide_right_mono) simp_all
  then have "(of_nat p :: rat) / of_nat q + 1 / (of_nat n * of_nat q) \<le> of_nat k / of_nat n"
    using assms(2,4) by (simp add: add_divide_distrib)
  moreover have "(1 :: rat) / 2 ^ 52 < 1 / (of_nat n * of_nat q)"
  proof (rule divide_strict_left_mono)
    have "(of_nat (n * q) :: rat) < of_nat (2 ^ 52)" using nq by (subst of_nat_less_iff) simp
    then show "of_nat n * of_nat q < (2 ^ 52 :: rat)" by simp
  qed (use assms in simp_all)
  ultimately show ?thesis by linarith
qed

lemma gap_survives:
  assumes "\<bar>a - x\<bar> \<le> 1 / 2 ^ 53" "\<bar>b - y\<bar> \<le> 1 / 2 ^ 54" "y + 1 / 2 ^ 52 < x"
  shows "b < (a :: rat)"
proof -
  have "(1 :: rat) / 2 ^ 53 + 1 / 2 ^ 54 < 1 / 2 ^ 52" by simp
  then show ?thesis using assms unfolding abs_le_iff by linarith
qed

lemma rounded_ratio_less_iff:
  assumes "k \<le> n" "0 < n" "n < 2 ^ 47" "0 < p" "p < q" "q \<le> 32"
  shows "f64_round (of_nat p / of_nat q) < f64_div (f64_of_nat k) (f64_of_nat n) \<longleftrightarrow> p * n < k * q"
proof -
  let ?x = "of_nat k / of_nat n :: rat" and ?y = "of_nat p / of_nat q :: rat"
  have exact: "f64_div (f64_of_nat k) (f64_of_nat n) = f64_round ?x"
    using assms by (simp add: f64_div_def f64_of_nat_exact)
  show ?thesis
  proof (cases "p * n < k * q")
    case True
    have gap: "?y + 1 / 2 ^ 52 < ?x" using ratio_gap [OF True] assms by simp
    have "0 < ?y" "?y < 2 powi 0" "?x < 2 powi 1" using assms by (simp_all add: divide_less_eq)
    moreover have "0 < ?x" using gap \<open>0 < ?y\<close> by (meson add_pos_pos less_trans zero_less_divide_1_iff zero_less_numeral zero_less_power)
    ultimately have "\<bar>f64_round ?x - ?x\<bar> \<le> 2 powi (1 - 54)" "\<bar>f64_round ?y - ?y\<bar> \<le> 2 powi (0 - 54)"
      by (blast intro: f64_round_error)+
    moreover have "2 powi (1 - 54) = (1 / 2 ^ 53 :: rat)" "2 powi (0 - 54) = (1 / 2 ^ 54 :: rat)"
      by (simp_all add: power_int_def power_divide)
    ultimately have "\<bar>f64_round ?x - ?x\<bar> \<le> 1 / 2 ^ 53" "\<bar>f64_round ?y - ?y\<bar> \<le> 1 / 2 ^ 54"
      by simp_all
    then have "f64_round ?y < f64_round ?x" using gap by (rule gap_survives)
    with True show ?thesis by (simp add: exact)
  next
    case False
    then have "of_nat (k * q) \<le> (of_nat (p * n) :: rat)" by (simp only: of_nat_le_iff not_less)
    then have "?x \<le> ?y" using assms by (simp add: divide_le_eq le_divide_eq mult.commute)
    then show ?thesis using False f64_round_mono [of ?x ?y] by (simp add: exact not_less)
  qed
qed


text \<open>A call to an endpoint as its metrics see it: the readings of the clock, and the response time or a failure.\<close>

datatype call_record = Call_Success duration duration duration | Call_Failure duration

fun record_call :: "call_record \<Rightarrow> endpoint_metrics \<Rightarrow> endpoint_metrics" where
  "record_call (Call_Success d lag lag') m = record_success d lag lag' m"
| "record_call (Call_Failure lag) m = record_failure lag m"

fun is_failure :: "call_record \<Rightarrow> bool" where
  "is_failure (Call_Success d lag lag') = False"
| "is_failure (Call_Failure lag) = True"

definition failures :: "call_record list \<Rightarrow> nat" where
  "failures calls = length (filter is_failure calls)"

definition rated_health :: "nat \<Rightarrow> nat \<Rightarrow> endpoint_health" where
  "rated_health k n =
     (if n < 10 \<or> 20 * k \<le> 3 * n then Healthy else if 5 * k \<le> 2 * n then Degraded else Unhealthy)"

text \<open>The metrics after \<open>n\<close> calls of which \<open>k\<close> failed.\<close>

definition metrics_after :: "nat \<Rightarrow> nat \<Rightarrow> endpoint_metrics \<Rightarrow> bool" where
  "metrics_after k n m \<longleftrightarrow>
     metrics_ok m \<and> unat (em_request_count m) = n \<and> unat (em_error_count m) = k \<and>
     unat (em_response_time_index m) = n - k \<and> health m = rated_health k n"

lemma failures_le: "failures calls \<le> length calls"
  by (simp add: failures_def)

lemma error_rate_exceeds:
  assumes "unat (em_request_count m) = n" "unat (em_error_count m) = k" "k \<le> n" "n < 2 ^ 47"
    and "0 < p" "p < q" "q \<le> 32"
  shows "f64_round (of_nat p / of_nat q) < error_rate m \<longleftrightarrow> 10 \<le> n \<and> p * n < k * q"
proof (cases "n < 10")
  case True
  then have "error_rate m = 0"
    using assms(1) by (simp add: error_rate_def Let_def word_less_nat_alt MIN_REQUESTS_FOR_HEALTH_def)
  then show ?thesis using True f64_round_nonneg [of "of_nat p / of_nat q"] by simp
next
  case False
  then have "error_rate m = f64_div (f64_of_nat k) (f64_of_nat n)"
    using assms(1,2) by (simp add: error_rate_def Let_def word_less_nat_alt MIN_REQUESTS_FOR_HEALTH_def)
  then show ?thesis using False rounded_ratio_less_iff [of k n p q] assms by simp
qed

lemma update_health_rated:
  assumes "metrics_ok m" "unat (em_request_count m) = n" "unat (em_error_count m) = k" "k \<le> n" "n < 2 ^ 47"
  shows "health (update_health_status lag m) = rated_health k n"
proof -
  have "DEGRADED_THRESHOLD = f64_round (of_nat 3 / of_nat 20)" "UNHEALTHY_THRESHOLD = f64_round (of_nat 2 / of_nat 5)"
    by (simp_all add: DEGRADED_THRESHOLD_def UNHEALTHY_THRESHOLD_def)
  moreover have "f64_round (of_nat 3 / of_nat 20) < error_rate m \<longleftrightarrow> 10 \<le> n \<and> 3 * n < k * 20"
    "f64_round (of_nat 2 / of_nat 5) < error_rate m \<longleftrightarrow> 10 \<le> n \<and> 2 * n < k * 5"
    using assms by (intro error_rate_exceeds; simp)+
  moreover have "em_degraded_threshold m = DEGRADED_THRESHOLD" "em_unhealthy_threshold m = UNHEALTHY_THRESHOLD"
    "em_circuit_breaker_until m = 0" using assms(1) by (simp_all add: metrics_ok_def)
  ultimately show ?thesis
    by (auto simp: update_health_fields health_def rated_health_def)
qed

lemma unat_Suc_u64: "unat (x :: u64) = n \<Longrightarrow> n < 2 ^ 47 \<Longrightarrow> unat (x + 1) = Suc n"
  by (simp add: unat_word_ariths)

lemma unat_pos_u64: "0 < em_circuit_breaker_until m \<longleftrightarrow> em_circuit_breaker_until m \<noteq> 0"
  by (simp add: word_neq_0_conv)

lemma update_health_counts [simp]:
  "em_request_count (update_health_status lag m) = em_request_count m"
  "em_error_count (update_health_status lag m) = em_error_count m"
  "em_response_time_index (update_health_status lag m) = em_response_time_index m"
  by (simp_all add: update_health_status_def Let_def)

lemma metrics_after_call:
  assumes "metrics_after k n m" "k \<le> n" "n < 2 ^ 47 - 1"
  shows "metrics_after (if is_failure c then Suc k else k) (Suc n) (record_call c m)"
proof (cases c)
  case (Call_Failure lag)
  let ?m = "m\<lparr>em_error_count := em_error_count m + 1, em_request_count := em_request_count m + 1\<rparr>"
  have ok: "metrics_ok ?m" using assms(1) by (simp add: metrics_after_def metrics_ok_def)
  have counts: "unat (em_request_count ?m) = Suc n" "unat (em_error_count ?m) = Suc k"
    using assms by (auto simp: metrics_after_def intro!: unat_Suc_u64)
  have "health (record_failure lag m) = rated_health (Suc k) (Suc n)"
    unfolding record_failure_def by (rule update_health_rated [OF ok counts]) (use assms in simp_all)
  then show ?thesis
    using assms counts metrics_ok_failure [of m lag]
    by (simp add: Call_Failure metrics_after_def record_failure_def)
next
  case (Call_Success d lag lag')
  let ?i = "em_response_time_index m"
  let ?m = "m\<lparr>em_response_time_index := ?i + 1,
     em_response_times_ms := (em_response_times_ms m)[unat (?i AND RESPONSE_TIME_MASK) := as_millis d],
     em_request_count := em_request_count m + 1, em_last_success_at := as_millis lag\<rparr>"
  have ok: "metrics_ok ?m" and eq: "record_success d lag lag' m = update_health_status lag' ?m"
    using assms(1) by (simp_all add: metrics_after_def metrics_ok_def record_success_def Let_def)
  have counts: "unat (em_request_count ?m) = Suc n" "unat (em_error_count ?m) = k"
    "unat (em_response_time_index ?m) = Suc (n - k)"
    using assms by (auto simp: metrics_after_def intro!: unat_Suc_u64)
  have "health (record_success d lag lag' m) = rated_health k (Suc n)"
    unfolding eq by (rule update_health_rated [OF ok counts(1,2)]) (use assms in simp_all)
  then show ?thesis
    using assms counts metrics_ok_success [of m d lag lag'] eq
    by (simp add: Call_Success metrics_after_def Suc_diff_le)
qed

lemma metrics_after_calls:
  assumes "metrics_after k n m" "k \<le> n" "n + length calls < 2 ^ 47"
  shows "metrics_after (k + failures calls) (n + length calls) (fold record_call calls m)"
  using assms
proof (induction calls arbitrary: k n m)
  case Nil
  then show ?case by (simp add: failures_def)
next
  case (Cons c calls)
  have "metrics_after (if is_failure c then Suc k else k) (Suc n) (record_call c m)"
    using Cons.prems by (intro metrics_after_call) auto
  from Cons.IH [OF this] Cons.prems show ?case by (auto simp: failures_def split: if_splits)
qed

text \<open>
  C25. The metrics refine the history of calls: after any sequence of successes and failures on a new
  endpoint the counters are the length of the history and its failures, the ring stays well formed and its
  index counts the successes; the endpoint is healthy for the first nine calls and while at most 15 % failed,
  degraded up to 40 %, and unhealthy beyond, computed exactly in spite of the \<open>f64\<close> division.
\<close>
theorem metrics_refine_history:
  assumes "length calls < 2 ^ 47"
  shows "metrics_after (failures calls) (length calls) (fold record_call calls (EndpointMetrics_new ident url lag))"
  using metrics_after_calls [of 0 0 "EndpointMetrics_new ident url lag" calls] assms metrics_ok_new
  by (simp add: metrics_after_def EndpointMetrics_new_def health_def rated_health_def)

theorem metrics_refine_history_witness:
  "metrics_after 2 12 (fold record_call (replicate 10 (Call_Success 5000 0 0) @ replicate 2 (Call_Failure 0))
     (EndpointMetrics_new ''validator-1-0'' ''https://node'' 0)) \<and> rated_health 2 12 = Degraded"
  using metrics_refine_history [of "replicate 10 (Call_Success 5000 0 0) @ replicate 2 (Call_Failure 0)"
      "''validator-1-0''" "''https://node''" 0]
  by (simp add: failures_def rated_health_def)

end
