(* ===== verification/Cortex_Error.thy ===== *)
theory Cortex_Error
  imports Database
begin

text \<open>
  The errors of the orchestrator, \<^verbatim>\<open>crate/cortex/src/artifacts/error.rs\<close>, and of the RPC layer,
  \<^verbatim>\<open>crate/utils/src/rpc/mod.rs\<close>, with the texts they and the errors of
  \<^verbatim>\<open>crate/primitives/src/types.rs\<close> display: a failed pipeline records that text as its reason. How the
  database driver, \<open>U256\<close> and \<open>B256\<close> print is not part of the sources: those renderings are the
  record \<open>crate_text\<close>.
\<close>

section \<open>Error types\<close>

datatype lobby_rpc_error =
    PermitAcquisitionTimeout nat
  | SemaphoreClosed
  | NoEndpointsAvailable chain_id
  | AllEndpointsUnhealthy chain_id
  | TransportError string
  | ProviderConstructionError string
  | InvalidUrl string
  | RpcBroadcastError string
  | NonceFetchError string
  | ReceiptFetchFailed string
  | BlockNotFound string
  | EndpointPoolCorrupted string

datatype cortex_error =
    BackpressureTimeout u64
  | EndpointPoolFailed lobby_rpc_error
  | NoHealthyRpcProvider lobby_rpc_error
  | Cortex_RelayHost relay_host_error
  | Cortex_NonceReservation local_error
  | Cortex_NonceResolve local_error
  | Cortex_NonceSync local_error
  | Cortex_Sign local_error
  | Cortex_ReSign local_error
  | Cortex_Broadcast broadcast_error
  | Cortex_Validator validator_error
  | Cortex_Internal string

definition is_transient :: "cortex_error \<Rightarrow> bool" where
  "is_transient e \<longleftrightarrow> (case e of BackpressureTimeout ms \<Rightarrow> True | _ \<Rightarrow> False)"

fun stage :: "cortex_error \<Rightarrow> string" where
  "stage (BackpressureTimeout ms) = ''backpressure''"
| "stage (EndpointPoolFailed e) = ''rpc_semaphore_permit''"
| "stage (NoHealthyRpcProvider e) = ''acquire_healthy_endpoint''"
| "stage (Cortex_RelayHost e) = ''relay_host''"
| "stage (Cortex_NonceReservation e) = ''nonce_reserve''"
| "stage (Cortex_NonceResolve e) = ''nonce_resolve''"
| "stage (Cortex_NonceSync e) = ''nonce_sync''"
| "stage (Cortex_Sign e) = ''sign''"
| "stage (Cortex_ReSign e) = ''sign_post_nonce_sync''"
| "stage (Cortex_Broadcast e) = ''broadcast''"
| "stage (Cortex_Validator e) = ''validator''"
| "stage (Cortex_Internal m) = ''internal''"


section \<open>Texts\<close>

record crate_text =
  show_sql :: "sql_error \<Rightarrow> string"
  debug_chain :: "chain_id \<Rightarrow> string"
  show_hash :: "tx_hash \<Rightarrow> string"
  hex_hash :: "tx_hash \<Rightarrow> string"

text \<open>\<open>Debug\<close> of a \<open>Duration\<close> given in microseconds: the largest unit that gives an integer part, and the fraction without trailing zeros.\<close>

fun fraction_digits :: "nat \<Rightarrow> nat \<Rightarrow> string" where
  "fraction_digits 0 f = []"
| "fraction_digits (Suc w) f = (if f = 0 then [] else digit_char (f div 10 ^ w) # fraction_digits w (f mod 10 ^ w))"

definition decimal_text :: "nat \<Rightarrow> nat \<Rightarrow> nat \<Rightarrow> string" where
  "decimal_text i w f = show_nat i @ (if f = 0 then [] else ''.'' @ fraction_digits w f)"

definition show_duration :: "nat \<Rightarrow> string" where
  "show_duration us =
     (if 1000000 \<le> us then decimal_text (us div 1000000) 6 (us mod 1000000) @ ''s''
      else if 1000 \<le> us then decimal_text (us div 1000) 3 (us mod 1000) @ ''ms''
      else if 1 \<le> us then show_nat us @ [CHR 0xC2, CHR 0xB5] @ ''s''
      else ''0ns'')"

fun show_db_message :: "crate_text \<Rightarrow> db_message \<Rightarrow> string" where
  "show_db_message ct (SqlMessage e) = show_sql ct e"
| "show_db_message ct (TextMessage m) = m"

fun show_relay_host_error :: "crate_text \<Rightarrow> relay_host_error \<Rightarrow> string" where
  "show_relay_host_error ct (Relay_ValidationFailed m) = ''Validation Failed '' @ m"
| "show_relay_host_error ct (Relay_DatabaseError e) = ''Database Error: '' @ show_sql ct e"
| "show_relay_host_error ct (Relay_Internal m) = ''Internal: '' @ m"
| "show_relay_host_error ct (Relay_FromAddressMismatch expected actual) =
     ''From Address Mismatch: expected '' @ expected @ '', got '' @ actual"

fun show_local_error :: "crate_text \<Rightarrow> local_error \<Rightarrow> string" where
  "show_local_error ct (Local_DatabaseError m) = ''Db error: '' @ show_db_message ct m"
| "show_local_error ct (Local_Internal m) = ''Internal error: '' @ m"
| "show_local_error ct (Local_Invariant m) = ''Internal error: '' @ m"
| "show_local_error ct (Local_Rejected m) = ''Rejected: '' @ m"

fun show_broadcast_error :: "crate_text \<Rightarrow> broadcast_error \<Rightarrow> string" where
  "show_broadcast_error ct (Broadcast_Internal m) = ''Internal: '' @ m"
| "show_broadcast_error ct (Broadcast_DatabaseError m) = ''DB error: '' @ show_db_message ct m"
| "show_broadcast_error ct (Broadcast_Invariant m) = ''Invariant error: '' @ m"
| "show_broadcast_error ct (Broadcast_MissingProvider c) = ''Provider error: '' @ debug_chain ct c"
| "show_broadcast_error ct (Broadcast_Rejected m) = ''Tx request rejected by provider: '' @ m"
| "show_broadcast_error ct (Broadcast_Unexpected m) = ''Unexpected error: '' @ m"
| "show_broadcast_error ct (Broadcast_NonceTooLow n a) = ''nonce too low -> fetching correct nonce from rpc node''"
| "show_broadcast_error ct (Broadcast_RpcError m) = ''Rpc Failiure: '' @ m"

fun show_validator_error :: "crate_text \<Rightarrow> validator_error \<Rightarrow> string" where
  "show_validator_error ct (Validator_Rpc h m) =
     ''rpc error while polling for tx '' @ show_hash ct h @ '': '' @ m"
| "show_validator_error ct (Validator_Reverted h) =
     ''transaction '' @ hex_hash ct h @ '' reverted on-chain (status=0)''"
| "show_validator_error ct (Validator_Database e) = ''database error: '' @ show_sql ct e"
| "show_validator_error ct (Validator_Internal m) = ''internal error: '' @ m"
| "show_validator_error ct (Validator_RpcError m) = ''Rpc Failiure: '' @ m"

fun show_lobby_rpc_error :: "lobby_rpc_error \<Rightarrow> string" where
  "show_lobby_rpc_error (PermitAcquisitionTimeout t) = ''Failed to acquire RPC permit within '' @ show_duration t"
| "show_lobby_rpc_error SemaphoreClosed = ''Semaphore closed''"
| "show_lobby_rpc_error (NoEndpointsAvailable c) = ''No RPC endpoints available for chain '' @ show_chain_id c"
| "show_lobby_rpc_error (AllEndpointsUnhealthy c) = ''All RPC endpoints unhealthy for chain '' @ show_chain_id c"
| "show_lobby_rpc_error (TransportError m) = ''Transport error: '' @ m"
| "show_lobby_rpc_error (ProviderConstructionError m) = ''Provider construction failed: '' @ m"
| "show_lobby_rpc_error (InvalidUrl m) = ''Invalid URL: '' @ m"
| "show_lobby_rpc_error (RpcBroadcastError m) = ''Rpc broadcast failed error: '' @ m"
| "show_lobby_rpc_error (NonceFetchError m) = ''Nonce fetch failed : '' @ m"
| "show_lobby_rpc_error (ReceiptFetchFailed m) = ''Transaction receipt fetching failed for tx_hash: '' @ m"
| "show_lobby_rpc_error (BlockNotFound m) = ''Block not found for transaction: '' @ m"
| "show_lobby_rpc_error (EndpointPoolCorrupted m) = ''Endpoint pool corrupted: '' @ m"

text \<open>The dash of the first message is U+2014, three bytes in UTF-8.\<close>

fun show_cortex_error :: "crate_text \<Rightarrow> cortex_error \<Rightarrow> string" where
  "show_cortex_error ct (BackpressureTimeout ms) =
     ''pipeline semaphore timed out after '' @ show_nat (unat ms) @ ''ms '' @ [CHR 0xE2, CHR 0x80, CHR 0x94] @
     '' server is overloaded''"
| "show_cortex_error ct (EndpointPoolFailed e) = ''EndpointPool busy or curropted: '' @ show_lobby_rpc_error e"
| "show_cortex_error ct (NoHealthyRpcProvider e) = ''No healthy RPC provider available: '' @ show_lobby_rpc_error e"
| "show_cortex_error ct (Cortex_RelayHost e) =
     ''relay-host rejected or failed to record the transaction after retries: '' @ show_relay_host_error ct e"
| "show_cortex_error ct (Cortex_NonceReservation e) =
     ''nonce reservation failed after retries: '' @ show_local_error ct e"
| "show_cortex_error ct (Cortex_NonceResolve e) =
     ''nonce resolve failed (lease will expire): '' @ show_local_error ct e"
| "show_cortex_error ct (Cortex_NonceSync e) =
     ''failed to sync and reserve nonce after retry: '' @ show_local_error ct e"
| "show_cortex_error ct (Cortex_Sign e) = ''signing failed after retries: '' @ show_local_error ct e"
| "show_cortex_error ct (Cortex_ReSign e) = ''re-signing failed after nonce sync: '' @ show_local_error ct e"
| "show_cortex_error ct (Cortex_Broadcast e) = ''broadcast failed after retries: '' @ show_broadcast_error ct e"
| "show_cortex_error ct (Cortex_Validator e) = ''Validator failed after retries: '' @ show_validator_error ct e"
| "show_cortex_error ct (Cortex_Internal m) = ''internal orchestrator error: '' @ m"


section \<open>Stages tell the errors apart\<close>

lemma stage_inject_constructor:
  "stage e = ''backpressure'' \<longleftrightarrow> is_transient e"
  by (cases e) (simp_all add: is_transient_def)

lemma show_duration_seconds: "0 < n \<Longrightarrow> show_duration (n * 1000000) = show_nat n @ ''s''"
  by (simp add: show_duration_def decimal_text_def)

end
