(* ===== verification/Rpc_Pool.thy ===== *)
theory Rpc_Pool
  imports Rpc_Metrics Cortex_Error "HOL-Library.AList"
begin

text \<open>
  Endpoint pools and their registry, \<^verbatim>\<open>crate/utils/src/rpc/pool.rs\<close>. A provider is a value of the alloy
  library, of some type \<open>'p\<close>. A \<open>DashMap\<close> is an association list. What a selection reads from its
  surroundings, the draw of \<open>fastrand::f64\<close> and the readings of the clock, is a record of its own. A
  semaphore is its free permits and whether it was closed; a wait for a permit is decided on the
  permits at its end.
\<close>

section \<open>Pools\<close>

definition CACHE_TTL_SECS :: nat where "CACHE_TTL_SECS = 5"

definition RPC_BROADCAST_CONCURRENCY :: nat where "RPC_BROADCAST_CONCURRENCY = 32"

definition RPC_VALIDATOR_CONCURRENCY :: nat where "RPC_VALIDATOR_CONCURRENCY = 32"

record 'p endpoint_entry =
  ee_provider :: 'p
  ee_metrics :: endpoint_metrics

record 'p endpoint_pool =
  ep_chain_id :: chain_id
  ep_endpoints :: "'p endpoint_entry list"
  ep_healthy_cache :: "nat list"
  ep_cache_timestamp :: u64

definition EndpointPool_new :: "chain_id \<Rightarrow> 'p endpoint_pool" where
  "EndpointPool_new c = \<lparr>ep_chain_id = c, ep_endpoints = [], ep_healthy_cache = [], ep_cache_timestamp = 0\<rparr>"

definition get_endpoint_count :: "'p endpoint_pool \<Rightarrow> nat" where
  "get_endpoint_count pool = length (ep_endpoints pool)"

definition as_secs :: "duration \<Rightarrow> nat" where
  "as_secs d = d div 1000000"

definition update_healthy_cache :: "duration \<Rightarrow> 'p endpoint_pool \<Rightarrow> 'p endpoint_pool" where
  "update_healthy_cache lag pool =
     pool\<lparr>ep_healthy_cache :=
            map fst (filter (\<lambda>(idx, entry). is_available (ee_metrics entry)) (enumerate 0 (ep_endpoints pool))),
          ep_cache_timestamp := of_nat (as_secs lag)\<rparr>"

definition add_endpoint :: "'p \<Rightarrow> endpoint_metrics \<Rightarrow> duration \<Rightarrow> 'p endpoint_pool \<Rightarrow> 'p endpoint_pool" where
  "add_endpoint provider metrics lag pool =
     update_healthy_cache lag
       (pool\<lparr>ep_endpoints := ep_endpoints pool @ [\<lparr>ee_provider = provider, ee_metrics = metrics\<rparr>]\<rparr>)"

definition healthy_endpoint_count :: "duration \<Rightarrow> duration \<Rightarrow> 'p endpoint_pool \<Rightarrow> nat \<times> 'p endpoint_pool" where
  "healthy_endpoint_count lag lag' pool =
     (if saturating_sub (as_secs lag) (unat (ep_cache_timestamp pool)) < CACHE_TTL_SECS
      then (length (ep_healthy_cache pool), pool)
      else (let pool' = update_healthy_cache lag' pool in (length (ep_healthy_cache pool'), pool')))"


section \<open>Selection\<close>

datatype load_balancing_strategy = WeightedLeastResponseTime | StickySession nat

record 'p load_balancer_choice =
  lb_provider :: 'p
  lb_metrics :: endpoint_metrics
  lb_index :: nat

definition choice_of :: "'p endpoint_entry \<Rightarrow> nat \<Rightarrow> 'p load_balancer_choice" where
  "choice_of entry idx = \<lparr>lb_provider = ee_provider entry, lb_metrics = ee_metrics entry, lb_index = idx\<rparr>"

record surroundings =
  su_draw :: f64
  su_now :: db_time
  su_reads :: "nat \<Rightarrow> db_time \<times> duration"

text \<open>
  What the selection relies on: a draw lies in \<open>[0, 1)\<close>, and the clock does not run backwards between the
  first read and the reads for the single entries.
\<close>

definition surroundings_ok :: "surroundings \<Rightarrow> bool" where
  "surroundings_ok su \<longleftrightarrow> 0 \<le> su_draw su \<and> su_draw su < 1 \<and> (\<forall>i. su_now su \<le> fst (su_reads su i))"

definition get_at :: "'a list \<Rightarrow> nat \<Rightarrow> 'a option" where
  "get_at xs i = (if i < length xs then Some (xs ! i) else None)"

definition breaker_expired :: "surroundings \<Rightarrow> nat \<times> 'p endpoint_entry \<Rightarrow> bool" where
  "breaker_expired su ie =
     (case su_reads su (fst ie) of (now, lag) \<Rightarrow>
        case circuit_breaker_until now lag (ee_metrics (snd ie)) of
          None \<Rightarrow> False
        | Some expiry \<Rightarrow> su_now su > expiry)"

definition select_circuit_breaker_recovery :: "surroundings \<Rightarrow> 'p endpoint_pool \<Rightarrow> 'p load_balancer_choice option" where
  "select_circuit_breaker_recovery su pool =
     (case find (breaker_expired su) (enumerate 0 (ep_endpoints pool)) of
        Some (idx, entry) \<Rightarrow> Some (choice_of entry idx)
      | None \<Rightarrow> (case ep_endpoints pool of [] \<Rightarrow> None | entry # _ \<Rightarrow> Some (choice_of entry 0)))"

definition scored_endpoints :: "'p endpoint_pool \<Rightarrow> (nat \<times> f64) list" where
  "scored_endpoints pool =
     filter (\<lambda>(idx, score). score > 0)
       (map (\<lambda>(idx, entry). (idx, load_balancing_score (ee_metrics entry))) (enumerate 0 (ep_endpoints pool)))"

definition total_score :: "f64 \<Rightarrow> (nat \<times> f64) list \<Rightarrow> f64" where
  "total_score acc scored = foldl (\<lambda>acc (idx, score). f64_add acc score) acc scored"

text \<open>The wheel: the cumulated score and the selected index when the loop ends.\<close>

fun roulette :: "f64 \<Rightarrow> f64 \<Rightarrow> (nat \<times> f64) list \<Rightarrow> f64 \<times> nat" where
  "roulette threshold cumulative [] = (cumulative, 0)"
| "roulette threshold cumulative ((idx, score) # rest) =
     (let cumulative' = f64_add cumulative score in
      if cumulative' \<ge> threshold then (cumulative', idx) else roulette threshold cumulative' rest)"

definition select_by_weighted_score :: "surroundings \<Rightarrow> 'p endpoint_pool \<Rightarrow> 'p load_balancer_choice option" where
  "select_by_weighted_score su pool =
     (if ep_endpoints pool = [] then None
      else
        (let scored = scored_endpoints pool in
         if scored = [] then select_circuit_breaker_recovery su pool
         else
           (let threshold = f64_mul (su_draw su) (total_score 0 scored);
                (cumulative, selected) = roulette threshold 0 scored;
                selected_idx = (if cumulative < threshold then fst (last scored) else selected) in
            map_option (\<lambda>entry. choice_of entry selected_idx) (get_at (ep_endpoints pool) selected_idx))))"

definition select_by_sticky_session :: "surroundings \<Rightarrow> nat \<Rightarrow> 'p endpoint_pool \<Rightarrow> 'p load_balancer_choice option" where
  "select_by_sticky_session su sticky_index pool =
     (if ep_endpoints pool = [] then None
      else case get_at (ep_endpoints pool) sticky_index of
          None \<Rightarrow> select_by_weighted_score su pool
        | Some entry \<Rightarrow>
            if is_available (ee_metrics entry) then Some (choice_of entry sticky_index)
            else select_by_weighted_score su pool)"

fun select_endpoint :: "surroundings \<Rightarrow> load_balancing_strategy \<Rightarrow> 'p endpoint_pool \<Rightarrow> 'p load_balancer_choice option" where
  "select_endpoint su WeightedLeastResponseTime pool = select_by_weighted_score su pool"
| "select_endpoint su (StickySession sticky_index) pool = select_by_sticky_session su sticky_index pool"

definition endpoints_metrics :: "'p endpoint_pool \<Rightarrow> endpoint_metrics_snapshot list" where
  "endpoints_metrics pool = map (\<lambda>entry. snapshot (ee_metrics entry)) (ep_endpoints pool)"

definition find_endpoint :: "string \<Rightarrow> 'p endpoint_pool \<Rightarrow> endpoint_metrics option" where
  "find_endpoint endpoint_id pool =
     map_option ee_metrics (find (\<lambda>entry. em_id (ee_metrics entry) = endpoint_id) (ep_endpoints pool))"

definition best_endpoint_index :: "surroundings \<Rightarrow> 'p endpoint_pool \<Rightarrow> nat option" where
  "best_endpoint_index su pool = map_option lb_index (select_by_weighted_score su pool)"


section \<open>Registry\<close>

datatype select_actor = Broadcast | Validator

record semaphore =
  sem_permits :: nat
  sem_closed :: bool

record 'p rpc_provider_stack =
  ps_broadcast :: "(chain_id \<times> 'p endpoint_pool) list"
  ps_broadcast_semaphore :: semaphore
  ps_validator :: "(chain_id \<times> 'p endpoint_pool) list"
  ps_validator_semaphore :: semaphore

definition RpcProviderStack_new :: "'p rpc_provider_stack" where
  "RpcProviderStack_new =
     \<lparr>ps_broadcast = [], ps_broadcast_semaphore = \<lparr>sem_permits = RPC_BROADCAST_CONCURRENCY, sem_closed = False\<rparr>,
      ps_validator = [], ps_validator_semaphore = \<lparr>sem_permits = RPC_VALIDATOR_CONCURRENCY, sem_closed = False\<rparr>\<rparr>"

definition acquire_owned :: "duration \<Rightarrow> semaphore \<Rightarrow> (lobby_rpc_error + unit) \<times> semaphore" where
  "acquire_owned timeout sem =
     (if sem_closed sem then (Inl SemaphoreClosed, sem)
      else if sem_permits sem = 0 then (Inl (PermitAcquisitionTimeout timeout), sem)
      else (Inr (), sem\<lparr>sem_permits := sem_permits sem - 1\<rparr>))"

fun get_semaphore ::
  "duration \<Rightarrow> select_actor \<Rightarrow> 'p rpc_provider_stack \<Rightarrow> (lobby_rpc_error + unit) \<times> 'p rpc_provider_stack" where
  "get_semaphore timeout Broadcast stack =
     (case acquire_owned timeout (ps_broadcast_semaphore stack) of (r, sem) \<Rightarrow> (r, stack\<lparr>ps_broadcast_semaphore := sem\<rparr>))"
| "get_semaphore timeout Validator stack =
     (case acquire_owned timeout (ps_validator_semaphore stack) of (r, sem) \<Rightarrow> (r, stack\<lparr>ps_validator_semaphore := sem\<rparr>))"

text \<open>Dropping an \<open>OwnedSemaphorePermit\<close> returns it to its semaphore.\<close>

definition release :: "semaphore \<Rightarrow> semaphore" where
  "release sem = sem\<lparr>sem_permits := sem_permits sem + 1\<rparr>"

fun drop_permit :: "select_actor \<Rightarrow> 'p rpc_provider_stack \<Rightarrow> 'p rpc_provider_stack" where
  "drop_permit Broadcast stack = stack\<lparr>ps_broadcast_semaphore := release (ps_broadcast_semaphore stack)\<rparr>"
| "drop_permit Validator stack = stack\<lparr>ps_validator_semaphore := release (ps_validator_semaphore stack)\<rparr>"

fun get_pool :: "select_actor \<Rightarrow> chain_id \<Rightarrow> 'p rpc_provider_stack \<Rightarrow> 'p endpoint_pool option" where
  "get_pool Broadcast c stack = map_of (ps_broadcast stack) c"
| "get_pool Validator c stack = map_of (ps_validator stack) c"

definition register_chain_pool ::
  "chain_id \<Rightarrow> 'p endpoint_pool \<Rightarrow> 'p endpoint_pool \<Rightarrow> 'p rpc_provider_stack \<Rightarrow> 'p rpc_provider_stack" where
  "register_chain_pool c broadcast_pool validator_pool stack =
     stack\<lparr>ps_broadcast := AList.update c broadcast_pool (ps_broadcast stack),
           ps_validator := AList.update c validator_pool (ps_validator stack)\<rparr>"

definition get_registred_chains :: "'p rpc_provider_stack \<Rightarrow> chain_id list" where
  "get_registred_chains stack = map fst (ps_broadcast stack)"

text \<open>
  A choice holds \<open>Arc\<close>s into its pool: a method called through it changes the metrics of that entry of the
  pool.
\<close>

definition update_entry :: "nat \<Rightarrow> (endpoint_metrics \<Rightarrow> endpoint_metrics) \<Rightarrow> 'p endpoint_pool \<Rightarrow> 'p endpoint_pool" where
  "update_entry idx f pool =
     (if idx < length (ep_endpoints pool)
      then pool\<lparr>ep_endpoints := (ep_endpoints pool)
             [idx := (ep_endpoints pool ! idx)\<lparr>ee_metrics := f (ee_metrics (ep_endpoints pool ! idx))\<rparr>]\<rparr>
      else pool)"

fun update_pool ::
  "select_actor \<Rightarrow> chain_id \<Rightarrow> ('p endpoint_pool \<Rightarrow> 'p endpoint_pool) \<Rightarrow> 'p rpc_provider_stack \<Rightarrow> 'p rpc_provider_stack" where
  "update_pool Broadcast c f stack = stack\<lparr>ps_broadcast := AList.map_entry c f (ps_broadcast stack)\<rparr>"
| "update_pool Validator c f stack = stack\<lparr>ps_validator := AList.map_entry c f (ps_validator stack)\<rparr>"


section \<open>The wheel\<close>

lemma total_score_simps [simp]:
  "total_score acc [] = acc" "total_score acc ((i, s) # scored) = total_score (f64_add acc s) scored"
  by (simp_all add: total_score_def)

lemma roulette_reaches:
  "scored \<noteq> [] \<Longrightarrow> threshold \<le> total_score acc scored \<Longrightarrow>
   threshold \<le> fst (roulette threshold acc scored) \<and> snd (roulette threshold acc scored) \<in> fst ` set scored"
proof (induction scored arbitrary: acc)
  case Nil
  then show ?case by simp
next
  case (Cons x scored)
  obtain i s where x: "x = (i, s)" by (cases x)
  show ?case
  proof (cases "threshold \<le> f64_add acc s")
    case True
    then show ?thesis by (simp add: x Let_def)
  next
    case False
    moreover have "threshold \<le> total_score (f64_add acc s) scored"
      using Cons.prems by (simp add: x)
    moreover have "scored \<noteq> []" using calculation by auto
    ultimately show ?thesis using Cons.IH [of "f64_add acc s"] by (simp add: x Let_def)
  qed
qed

lemma f64_add_rounded: "f64_round (f64_add x y) = f64_add x y" "0 \<le> f64_add x y"
  by (simp_all add: f64_add_def f64_round_nonneg)

lemma total_score_rounded:
  "f64_round acc = acc \<Longrightarrow> 0 \<le> acc \<Longrightarrow>
   f64_round (total_score acc scored) = total_score acc scored \<and> 0 \<le> total_score acc scored"
proof (induction scored arbitrary: acc)
  case Nil
  then show ?case by simp
next
  case (Cons x scored)
  then show ?case using Cons.IH [OF f64_add_rounded] by (cases x) simp
qed

text \<open>
  The draw is below one, so the threshold never exceeds the total, rounded or not: the branch of the
  sources for a wheel that ends without a selection is not taken.
\<close>

lemma threshold_le_total:
  assumes "0 \<le> draw" "draw < 1"
  shows "f64_mul draw (total_score 0 scored) \<le> total_score 0 scored"
proof -
  have "draw * total_score 0 scored \<le> total_score 0 scored"
    using assms total_score_rounded [of 0 scored] by (intro mult_left_le_one_le) simp_all
  then show ?thesis
    unfolding f64_mul_def using f64_round_mono [of "draw * total_score 0 scored" "total_score 0 scored"] total_score_rounded [of 0 scored]
    by simp
qed

lemma scored_endpoints_iff:
  "i \<in> fst ` set (scored_endpoints pool) \<longleftrightarrow>
     i < length (ep_endpoints pool) \<and> is_available (ee_metrics (ep_endpoints pool ! i))"
proof -
  have "i \<in> fst ` set (scored_endpoints pool) \<longleftrightarrow>
      (\<exists>entry. (i, entry) \<in> set (enumerate 0 (ep_endpoints pool)) \<and> 0 < load_balancing_score (ee_metrics entry))"
    by (force simp: scored_endpoints_def image_iff)
  then show ?thesis by (auto simp: in_set_enumerate_eq score_pos_iff)
qed

lemma scored_endpoints_empty:
  "scored_endpoints pool = [] \<longleftrightarrow> (\<forall>entry \<in> set (ep_endpoints pool). \<not> is_available (ee_metrics entry))"
  using scored_endpoints_iff [of _ pool]
  by (metis emptyE ex_in_conv image_is_empty in_set_conv_nth set_empty)

lemma breaker_never_expired:
  assumes "surroundings_ok su"
  shows "\<not> breaker_expired su ie"
proof -
  have "su_now su \<le> fst (su_reads su (fst ie))" using assms by (simp add: surroundings_ok_def)
  then show ?thesis
    by (auto simp: breaker_expired_def circuit_breaker_until_def Let_def split: prod.splits option.splits if_splits)
qed

lemma recovery_first:
  assumes "surroundings_ok su"
  shows "select_circuit_breaker_recovery su pool =
    (case ep_endpoints pool of [] \<Rightarrow> None | entry # _ \<Rightarrow> Some (choice_of entry 0))"
proof -
  have "find (breaker_expired su) (enumerate 0 (ep_endpoints pool)) = None"
    by (simp add: find_None_iff breaker_never_expired [OF assms])
  then show ?thesis by (simp add: select_circuit_breaker_recovery_def)
qed

text \<open>What a weighted selection returns: an available endpoint when there is one, else the first.\<close>

definition weighted_choice :: "'p endpoint_pool \<Rightarrow> nat \<Rightarrow> bool" where
  "weighted_choice pool i \<longleftrightarrow>
     i < length (ep_endpoints pool) \<and>
     (if \<exists>entry \<in> set (ep_endpoints pool). is_available (ee_metrics entry)
      then is_available (ee_metrics (ep_endpoints pool ! i)) else i = 0)"

lemma weighted_outcome:
  assumes "surroundings_ok su" "ep_endpoints pool \<noteq> []"
  shows "\<exists>i. weighted_choice pool i \<and> select_by_weighted_score su pool = Some (choice_of (ep_endpoints pool ! i) i)"
proof (cases "scored_endpoints pool = []")
  case True
  then show ?thesis
    using assms recovery_first [OF assms(1), of pool] scored_endpoints_empty [of pool]
    by (intro exI [of _ 0]) (auto simp: select_by_weighted_score_def weighted_choice_def split: list.splits)
next
  case False
  let ?thr = "f64_mul (su_draw su) (total_score 0 (scored_endpoints pool))"
  obtain cum sel where wheel: "roulette ?thr 0 (scored_endpoints pool) = (cum, sel)" by fastforce
  have "?thr \<le> cum" "sel \<in> fst ` set (scored_endpoints pool)"
    using roulette_reaches [OF False threshold_le_total [of "su_draw su"]] assms(1) wheel by (auto simp: surroundings_ok_def)
  moreover have "\<exists>entry \<in> set (ep_endpoints pool). is_available (ee_metrics entry)"
    using False by (simp add: scored_endpoints_empty)
  ultimately show ?thesis
    using assms(2) False wheel scored_endpoints_iff [of sel pool]
    by (intro exI [of _ sel]) (auto simp: select_by_weighted_score_def weighted_choice_def get_at_def Let_def)
qed

lemma select_endpoint_Some:
  assumes "surroundings_ok su" "ep_endpoints pool \<noteq> []"
  shows "\<exists>i. i < length (ep_endpoints pool) \<and> select_endpoint su strategy pool = Some (choice_of (ep_endpoints pool ! i) i) \<and>
    (if \<exists>j. strategy = StickySession j \<and> j < length (ep_endpoints pool) \<and> is_available (ee_metrics (ep_endpoints pool ! j))
     then strategy = StickySession i else weighted_choice pool i)"
proof -
  obtain i where i: "weighted_choice pool i" "select_by_weighted_score su pool = Some (choice_of (ep_endpoints pool ! i) i)"
    using weighted_outcome [OF assms] by blast
  then have lt: "i < length (ep_endpoints pool)" by (simp add: weighted_choice_def)
  show ?thesis
  proof (cases strategy)
    case WeightedLeastResponseTime
    with i lt show ?thesis by auto
  next
    case (StickySession j)
    with i lt assms(2) show ?thesis
      by (cases "j < length (ep_endpoints pool) \<and> is_available (ee_metrics (ep_endpoints pool ! j))")
        (auto simp: select_by_sticky_session_def get_at_def)
  qed
qed

lemma select_endpoint_None_iff:
  assumes "surroundings_ok su"
  shows "select_endpoint su strategy pool = None \<longleftrightarrow> ep_endpoints pool = []"
  using select_endpoint_Some [OF assms, of pool strategy]
  by (cases "ep_endpoints pool = []"; cases strategy) (auto simp: select_by_weighted_score_def select_by_sticky_session_def)

text \<open>
  C24. The complete outcome of selecting an endpoint: nothing exactly on an empty pool; a sticky index that names
  an available endpoint gets that endpoint; otherwise the choice is an available endpoint whenever the
  pool has one, for every draw of the generator, and the first endpoint when none is available: no
  expired circuit breaker is ever found.
\<close>
theorem select_endpoint_outcome:
  assumes "surroundings_ok su"
  shows "case select_endpoint su strategy pool of
      None \<Rightarrow> ep_endpoints pool = []
    | Some ch \<Rightarrow>
        lb_index ch < length (ep_endpoints pool) \<and> ch = choice_of (ep_endpoints pool ! lb_index ch) (lb_index ch) \<and>
        (if \<exists>j. strategy = StickySession j \<and> j < length (ep_endpoints pool) \<and> is_available (ee_metrics (ep_endpoints pool ! j))
         then strategy = StickySession (lb_index ch) else weighted_choice pool (lb_index ch))"
proof (cases "ep_endpoints pool = []")
  case True
  then show ?thesis using select_endpoint_None_iff [OF assms, of strategy pool] by simp
next
  case False
  then obtain i where i: "i < length (ep_endpoints pool)" "select_endpoint su strategy pool = Some (choice_of (ep_endpoints pool ! i) i)"
    and P: "if \<exists>j. strategy = StickySession j \<and> j < length (ep_endpoints pool) \<and> is_available (ee_metrics (ep_endpoints pool ! j))
     then strategy = StickySession i else weighted_choice pool i"
    using select_endpoint_Some [OF assms False, of strategy] by blast
  have idx: "lb_index (choice_of (ep_endpoints pool ! i) i) = i" by (simp add: choice_of_def)
  show ?thesis unfolding i(2) option.case idx using i(1) P by blast
qed

text \<open>
  The count of healthy endpoints is answered from the cache whenever two reads of the clock are less than five
  seconds apart, however old the cache is.
\<close>

lemma healthy_count_from_cache:
  "lag < 5000000 \<Longrightarrow> healthy_endpoint_count lag lag' pool = (length (ep_healthy_cache pool), pool)"
  by (simp add: healthy_endpoint_count_def saturating_sub_def as_secs_def CACHE_TTL_SECS_def less_imp_diff_less div_less_iff_less_mult)


section \<open>Witness\<close>

definition sample_pool :: "string endpoint_pool" where
  "sample_pool =
     add_endpoint ''b'' (EndpointMetrics_new ''validator-1-1'' ''https://b'' 0) 0
       (add_endpoint ''a'' ((EndpointMetrics_new ''validator-1-0'' ''https://a'' 0)\<lparr>em_health := 2\<rparr>) 0
         (EndpointPool_new (ChainId 1)))"

definition sample_surroundings :: surroundings where
  "sample_surroundings = \<lparr>su_draw = 1 / 2, su_now = 0, su_reads = (\<lambda>i. (0, 0))\<rparr>"

lemma sample_surroundings_ok: "surroundings_ok sample_surroundings"
  by (simp add: surroundings_ok_def sample_surroundings_def)

theorem select_endpoint_outcome_witness:
  "case select_endpoint sample_surroundings (StickySession 0) sample_pool of
      None \<Rightarrow> False
    | Some ch \<Rightarrow> lb_index ch = 1"
  using select_endpoint_outcome [OF sample_surroundings_ok, of sample_pool "StickySession 0"]
  by (auto simp: sample_pool_def add_endpoint_def update_healthy_cache_def EndpointPool_new_def EndpointMetrics_new_def
      is_available_def health_def weighted_choice_def less_Suc_eq split: option.splits)

end
