(* ===== verification/Rpc_Client.thy ===== *)
theory Rpc_Client
  imports Rpc_Pool
begin

text \<open>
  The RPC client, \<^verbatim>\<open>crate/utils/src/rpc/client.rs\<close>: a provider stack and a cache of statistics. A call runs
  over the client and a network state \<open>'w\<close> of the surroundings; it reports the time it took. The
  reference to the metrics that a context holds is the place of the entry in the stack. The crates \<open>url\<close> and
  alloy are the parameters of the provider factory.
\<close>

section \<open>Contexts\<close>

definition STATS_CACHE_TTL_MS :: nat where "STATS_CACHE_TTL_MS = 1000"

record endpoint_stats =
  es_id :: string
  es_url :: string
  es_health :: endpoint_health
  es_avg_response_time_ms :: f64
  es_error_rate :: f64
  es_score :: f64
  es_request_count :: u64
  es_error_count :: u64

record 'p unary_context =
  uc_provider :: 'p
  uc_metrics :: "select_actor \<times> chain_id \<times> nat"
  uc_chain_id :: chain_id
  uc_index :: nat
  uc_endpoint_id :: string

record 'p rpc_client =
  provider_stack :: "'p rpc_provider_stack"
  stats_cache :: "(chain_id \<times> (endpoint_stats list \<times> db_time)) list"

record 'w rpc_env =
  env_surroundings :: "'w \<Rightarrow> surroundings \<times> 'w"
  env_lags :: "'w \<Rightarrow> (duration \<times> duration) \<times> 'w"

definition env_ok :: "'w rpc_env \<Rightarrow> bool" where
  "env_ok env \<longleftrightarrow> (\<forall>w. surroundings_ok (fst (env_surroundings env w)))"

type_synonym ('p, 'w, 'r) client_call =
  "'p rpc_client \<times> 'w \<Rightarrow> (lobby_rpc_error + 'r) \<times> duration \<times> ('p rpc_client \<times> 'w)"

definition RpcClient_new :: "'p rpc_provider_stack \<Rightarrow> 'p rpc_client" where
  "RpcClient_new stack = \<lparr>provider_stack = stack, stats_cache = []\<rparr>"

text \<open>A wait for a permit that fails by the timeout has taken that long.\<close>

fun waited :: "lobby_rpc_error \<Rightarrow> duration" where
  "waited (PermitAcquisitionTimeout timeout) = timeout"
| "waited _ = 0"

definition acquire_unary_context ::
  "'w rpc_env \<Rightarrow> select_actor \<Rightarrow> chain_id \<Rightarrow> nat option \<Rightarrow> duration \<Rightarrow> ('p, 'w, 'p unary_context) client_call" where
  "acquire_unary_context env actor c sticky_index timeout s =
     (case s of (client, w) \<Rightarrow>
      case get_semaphore timeout actor (provider_stack client) of
        (Inl err, stack) \<Rightarrow> (Inl err, waited err, (client\<lparr>provider_stack := stack\<rparr>, w))
      | (Inr _, stack) \<Rightarrow>
          (case get_pool actor c stack of
             None \<Rightarrow> (Inl (NoEndpointsAvailable c), 0, (client\<lparr>provider_stack := drop_permit actor stack\<rparr>, w))
           | Some pool \<Rightarrow>
               (let strategy = (case sticky_index of Some index \<Rightarrow> StickySession index | None \<Rightarrow> WeightedLeastResponseTime);
                    (su, w') = env_surroundings env w in
                case select_endpoint su strategy pool of
                  None \<Rightarrow> (Inl (AllEndpointsUnhealthy c), 0, (client\<lparr>provider_stack := drop_permit actor stack\<rparr>, w'))
                | Some choice \<Rightarrow>
                    (Inr \<lparr>uc_provider = lb_provider choice, uc_metrics = (actor, c, lb_index choice), uc_chain_id = c,
                          uc_index = lb_index choice, uc_endpoint_id = em_id (lb_metrics choice)\<rparr>,
                     0, (client\<lparr>provider_stack := stack\<rparr>, w')))))"

definition on_metrics ::
  "'p unary_context \<Rightarrow> (endpoint_metrics \<Rightarrow> endpoint_metrics) \<Rightarrow> 'p rpc_client \<Rightarrow> 'p rpc_client" where
  "on_metrics ctx f client =
     (case uc_metrics ctx of (actor, c, i) \<Rightarrow>
        client\<lparr>provider_stack := update_pool actor c (update_entry i f) (provider_stack client)\<rparr>)"

definition UnaryContext_record_success ::
  "'p unary_context \<Rightarrow> duration \<Rightarrow> duration \<times> duration \<Rightarrow> 'p rpc_client \<Rightarrow> 'p rpc_client" where
  "UnaryContext_record_success ctx elapsed lags client =
     on_metrics ctx (record_success elapsed (fst lags) (snd lags)) client"

definition UnaryContext_record_failure ::
  "'p unary_context \<Rightarrow> duration \<times> duration \<Rightarrow> 'p rpc_client \<Rightarrow> 'p rpc_client" where
  "UnaryContext_record_failure ctx lags client = on_metrics ctx (record_failure (fst lags)) client"


section \<open>Calls\<close>

text \<open>The operation is a call of the provider: it returns the text of a transport error or a result, and the time it took.\<close>

definition execute_unary ::
  "'w rpc_env \<Rightarrow> select_actor \<Rightarrow> chain_id \<Rightarrow> nat option \<Rightarrow> duration \<Rightarrow>
   ('p \<Rightarrow> 'w \<Rightarrow> (string + 'r) \<times> duration \<times> 'w) \<Rightarrow> ('p, 'w, 'r) client_call" where
  "execute_unary env actor c sticky_index timeout operation s =
     (case acquire_unary_context env actor c sticky_index timeout s of
        (Inl err, k, s') \<Rightarrow> (Inl err, k, s')
      | (Inr ctx, k, (client, w)) \<Rightarrow>
          (case operation (uc_provider ctx) w of (result, k', w') \<Rightarrow>
             let (lags, w'') = env_lags env w' in
             case result of
               Inr x \<Rightarrow>
                 (let client' = UnaryContext_record_success ctx (k + k') lags client in
                  (Inr x, k + k', (client'\<lparr>provider_stack := drop_permit actor (provider_stack client')\<rparr>, w'')))
             | Inl msg \<Rightarrow>
                 (let client' = UnaryContext_record_failure ctx lags client in
                  (Inl (TransportError msg), k + k',
                   (client'\<lparr>provider_stack := drop_permit actor (provider_stack client')\<rparr>, w'')))))"


section \<open>Registry and statistics\<close>

definition register_chain ::
  "chain_id \<Rightarrow> 'p endpoint_pool \<Rightarrow> 'p endpoint_pool \<Rightarrow> 'p rpc_client \<Rightarrow> 'p rpc_client" where
  "register_chain c broadcast_pool validator_pool client =
     client\<lparr>provider_stack := register_chain_pool c broadcast_pool validator_pool (provider_stack client),
            stats_cache := AList.delete c (stats_cache client)\<rparr>"

definition stats_of :: "endpoint_metrics_snapshot \<Rightarrow> endpoint_stats" where
  "stats_of sn =
     \<lparr>es_id = sn_id sn, es_url = sn_url sn, es_health = sn_health sn,
      es_avg_response_time_ms = sn_avg_response_time_ms sn, es_error_rate = sn_error_rate sn,
      es_score = sn_score sn, es_request_count = sn_request_count sn, es_error_count = sn_error_count sn\<rparr>"

definition fetch_stats ::
  "db_time \<Rightarrow> select_actor \<Rightarrow> chain_id \<Rightarrow> 'p rpc_client \<Rightarrow> endpoint_stats list option \<times> 'p rpc_client" where
  "fetch_stats now actor c client =
     (case get_pool actor c (provider_stack client) of
        None \<Rightarrow> (None, client)
      | Some pool \<Rightarrow>
          (let stats = map stats_of (endpoints_metrics pool) in
           (Some stats, client\<lparr>stats_cache := AList.update c (stats, now) (stats_cache client)\<rparr>)))"

definition get_unary_endpoint_stats ::
  "db_time \<Rightarrow> select_actor \<Rightarrow> chain_id \<Rightarrow> 'p rpc_client \<Rightarrow> endpoint_stats list option \<times> 'p rpc_client" where
  "get_unary_endpoint_stats now actor c client =
     (case map_of (stats_cache client) c of
        Some (stats, timestamp) \<Rightarrow>
          if nat (now - timestamp) div 1000 < STATS_CACHE_TTL_MS then (Some stats, client)
          else fetch_stats now actor c client
      | None \<Rightarrow> fetch_stats now actor c client)"

definition refresh_stats ::
  "db_time \<Rightarrow> select_actor \<Rightarrow> chain_id \<Rightarrow> 'p rpc_client \<Rightarrow> endpoint_stats list option \<times> 'p rpc_client" where
  "refresh_stats now actor c client =
     get_unary_endpoint_stats now actor c (client\<lparr>stats_cache := AList.delete c (stats_cache client)\<rparr>)"

record ('u, 'p) provider_factory =
  url_parse :: "string \<Rightarrow> string + 'u"
  url_scheme :: "'u \<Rightarrow> string"
  connect_http :: "'u \<Rightarrow> 'p"

definition create_unary_provider :: "('u, 'p) provider_factory \<Rightarrow> string \<Rightarrow> lobby_rpc_error + 'p" where
  "create_unary_provider pf url =
     (case url_parse pf url of
        Inl e \<Rightarrow> Inl (InvalidUrl (''Failed to parse URL: '' @ e))
      | Inr u \<Rightarrow>
          if url_scheme pf u \<noteq> ''http'' \<and> url_scheme pf u \<noteq> ''https''
          then Inl (InvalidUrl (''Unary provider requires http:// or https:// scheme, got: '' @ url_scheme pf u))
          else Inr (connect_http pf u))"

text \<open>The text of the error carries the \<open>Debug\<close> rendering of the chain.\<close>

fun count_endpoints ::
  "(chain_id \<Rightarrow> string) \<Rightarrow> 'p rpc_provider_stack \<Rightarrow> chain_id list \<Rightarrow> (chain_id \<times> nat) list \<Rightarrow>
   lobby_rpc_error + (chain_id \<times> nat) list" where
  "count_endpoints debug stack [] counts = Inr counts"
| "count_endpoints debug stack (c # cs) counts =
     (case get_pool Broadcast c stack of
        None \<Rightarrow> Inl (EndpointPoolCorrupted (''pool no found for: '' @ debug c))
      | Some pool \<Rightarrow> count_endpoints debug stack cs (AList.update c (get_endpoint_count pool) counts))"

definition get_endpoint_hashmap :: "(chain_id \<Rightarrow> string) \<Rightarrow> 'p rpc_client \<Rightarrow> lobby_rpc_error + (chain_id \<times> nat) list" where
  "get_endpoint_hashmap debug client =
     count_endpoints debug (provider_stack client) (get_registred_chains (provider_stack client)) []"


section \<open>Well-formed clients\<close>

text \<open>
  Between calls every permit is free. The registries of the two actors hold the same chains; the pools of a
  chain are not empty, their metrics are well formed and the entry at an index is the same endpoint in both.
\<close>

definition pool_ok :: "chain_id \<Rightarrow> 'p endpoint_pool \<Rightarrow> bool" where
  "pool_ok c pool \<longleftrightarrow>
     ep_chain_id pool = c \<and> ep_endpoints pool \<noteq> [] \<and> (\<forall>entry \<in> set (ep_endpoints pool). metrics_ok (ee_metrics entry))"

definition endpoint_urls :: "'p endpoint_pool \<Rightarrow> ('p \<times> string) list" where
  "endpoint_urls pool = map (\<lambda>entry. (ee_provider entry, em_url (ee_metrics entry))) (ep_endpoints pool)"

definition pools_agree :: "chain_id \<Rightarrow> 'p rpc_provider_stack \<Rightarrow> bool" where
  "pools_agree c stack =
     (case (get_pool Broadcast c stack, get_pool Validator c stack) of
        (None, None) \<Rightarrow> True
      | (Some bp, Some vp) \<Rightarrow> pool_ok c bp \<and> pool_ok c vp \<and> endpoint_urls bp = endpoint_urls vp
      | _ \<Rightarrow> False)"

definition semaphores_free :: "'p rpc_provider_stack \<Rightarrow> bool" where
  "semaphores_free stack \<longleftrightarrow>
     ps_broadcast_semaphore stack = \<lparr>sem_permits = RPC_BROADCAST_CONCURRENCY, sem_closed = False\<rparr> \<and>
     ps_validator_semaphore stack = \<lparr>sem_permits = RPC_VALIDATOR_CONCURRENCY, sem_closed = False\<rparr>"

definition client_ok :: "'p rpc_client \<Rightarrow> bool" where
  "client_ok client \<longleftrightarrow> semaphores_free (provider_stack client) \<and> (\<forall>c. pools_agree c (provider_stack client))"

text \<open>The chains and endpoints a client serves; calls never change them.\<close>

definition served :: "'p rpc_client \<Rightarrow> chain_id \<Rightarrow> ('p \<times> string) list option" where
  "served client c = map_option endpoint_urls (get_pool Validator c (provider_stack client))"


section \<open>Permits\<close>

lemma update_pool_simps [simp]:
  "ps_broadcast_semaphore (update_pool actor c f stack) = ps_broadcast_semaphore stack"
  "ps_validator_semaphore (update_pool actor c f stack) = ps_validator_semaphore stack"
  by (cases actor; simp)+

lemma update_pool_drop: "drop_permit actor (update_pool actor c f stack) = update_pool actor c f (drop_permit actor stack)"
  by (cases actor) simp_all

lemma get_pool_drop [simp]: "get_pool a c (drop_permit actor stack) = get_pool a c stack"
  by (cases a; cases actor) simp_all

text \<open>A permit that was free is taken, and dropping it gives the stack back.\<close>

lemma permit_round_trip:
  assumes "semaphores_free stack"
  obtains taken where "get_semaphore timeout actor stack = (Inr (), taken)" "drop_permit actor taken = stack"
    "\<And>a c. get_pool a c taken = get_pool a c stack"
proof
  let ?taken = "snd (get_semaphore timeout actor stack)"
  show "get_semaphore timeout actor stack = (Inr (), ?taken)" "drop_permit actor ?taken = stack"
    using assms
    by (cases actor; simp add: semaphores_free_def acquire_owned_def release_def RPC_BROADCAST_CONCURRENCY_def
        RPC_VALIDATOR_CONCURRENCY_def)+
  then show "get_pool a c ?taken = get_pool a c stack" for a c using get_pool_drop by metis
qed


section \<open>What a call does\<close>

lemma client_okD:
  assumes "client_ok client"
  shows "semaphores_free (provider_stack client)" "pools_agree c (provider_stack client)"
  using assms by (simp_all add: client_ok_def)

text \<open>The pool of either actor for a served chain lists the served endpoints.\<close>

lemma served_None: "client_ok client \<Longrightarrow> served client c = None \<Longrightarrow> get_pool actor c (provider_stack client) = None"
  using client_okD(2) [of client c]
  by (cases actor) (auto simp: served_def pools_agree_def split: option.splits)

lemma served_Some:
  assumes "client_ok client" "served client c = Some urls"
  obtains pool where "get_pool actor c (provider_stack client) = Some pool" "pool_ok c pool" "endpoint_urls pool = urls"
  using assms client_okD(2) [of client c]
  by (cases actor) (auto simp: served_def pools_agree_def split: option.splits)

lemma endpoint_urls_nth: "i < length (ep_endpoints pool) \<Longrightarrow> fst (endpoint_urls pool ! i) = ee_provider (ep_endpoints pool ! i)"
  by (simp add: endpoint_urls_def)

lemma acquire_unserved:
  assumes "client_ok client" "served client c = None"
  shows "acquire_unary_context env actor c sticky timeout (client, w) = (Inl (NoEndpointsAvailable c), 0, (client, w))"
proof -
  obtain taken where "get_semaphore timeout actor (provider_stack client) = (Inr (), taken)"
    "drop_permit actor taken = provider_stack client" "get_pool actor c taken = get_pool actor c (provider_stack client)"
    using permit_round_trip [OF client_okD(1) [OF assms(1)]] by metis
  with served_None [OF assms] show ?thesis by (simp add: acquire_unary_context_def)
qed

lemma acquire_served:
  assumes "client_ok client" "env_ok env" "served client c = Some urls"
  obtains i ctx taken where "i < length urls" "drop_permit actor taken = provider_stack client"
    "acquire_unary_context env actor c sticky timeout (client, w) =
       (Inr ctx, 0, (client\<lparr>provider_stack := taken\<rparr>, snd (env_surroundings env w)))"
    "uc_provider ctx = fst (urls ! i)" "uc_metrics ctx = (actor, c, i)"
proof -
  obtain pool where pool: "get_pool actor c (provider_stack client) = Some pool" "pool_ok c pool" "endpoint_urls pool = urls"
    using served_Some [OF assms(1,3)] .
  obtain taken where taken: "get_semaphore timeout actor (provider_stack client) = (Inr (), taken)"
    "drop_permit actor taken = provider_stack client" "get_pool actor c taken = Some pool"
    using permit_round_trip [OF client_okD(1) [OF assms(1)]] pool(1) by metis
  obtain su w' where su: "env_surroundings env w = (su, w')" by fastforce
  then have "surroundings_ok su" using assms(2) unfolding env_ok_def by (metis fst_conv)
  moreover have "ep_endpoints pool \<noteq> []" using pool(2) by (simp add: pool_ok_def)
  ultimately obtain i where i: "i < length (ep_endpoints pool)"
    "select_endpoint su (case sticky of Some index \<Rightarrow> StickySession index | None \<Rightarrow> WeightedLeastResponseTime) pool =
       Some (choice_of (ep_endpoints pool ! i) i)"
    using select_endpoint_Some by blast
  show ?thesis
  proof (rule that)
    show "i < length urls" using i(1) pool(3) by (auto simp: endpoint_urls_def)
    show "drop_permit actor taken = provider_stack client" by (rule taken)
    show "acquire_unary_context env actor c sticky timeout (client, w) =
       (Inr \<lparr>uc_provider = ee_provider (ep_endpoints pool ! i), uc_metrics = (actor, c, i), uc_chain_id = c, uc_index = i,
             uc_endpoint_id = em_id (ee_metrics (ep_endpoints pool ! i))\<rparr>, 0,
        (client\<lparr>provider_stack := taken\<rparr>, snd (env_surroundings env w)))"
      using taken i su by (simp add: acquire_unary_context_def choice_of_def)
  qed (use endpoint_urls_nth [OF i(1)] pool(3) in simp_all)
qed

definition log_call :: "select_actor \<Rightarrow> chain_id \<Rightarrow> nat \<Rightarrow> call_record \<Rightarrow> 'p rpc_client \<Rightarrow> 'p rpc_client" where
  "log_call actor c i call client =
     client\<lparr>provider_stack := update_pool actor c (update_entry i (record_call call)) (provider_stack client)\<rparr>"

lemma execute_served:
  assumes "client_ok client" "env_ok env" "served client c = Some urls"
  shows "\<exists>i call. i < length urls \<and>
    (case operation (fst (urls ! i)) (snd (env_surroundings env w)) of (result, k, w') \<Rightarrow>
       execute_unary env actor c sticky timeout operation (client, w) =
         (map_sum TransportError id result, k, (log_call actor c i call client, snd (env_lags env w'))) \<and>
       is_failure call = isl result)"
proof -
  obtain i ctx taken where i: "i < length urls" "drop_permit actor taken = provider_stack client"
    and acq: "acquire_unary_context env actor c sticky timeout (client, w) =
       (Inr ctx, 0, (client\<lparr>provider_stack := taken\<rparr>, snd (env_surroundings env w)))"
    and ctx: "uc_provider ctx = fst (urls ! i)" "uc_metrics ctx = (actor, c, i)"
    using acquire_served [OF assms] .
  obtain result k w' where op: "operation (fst (urls ! i)) (snd (env_surroundings env w)) = (result, k, w')"
    using prod_cases3 by blast
  obtain lag lag' w'' where lags: "env_lags env w' = ((lag, lag'), w'')" using prod.exhaust by metis
  have eq: "record_success k lag lag' = record_call (Call_Success k lag lag')" "record_failure lag = record_call (Call_Failure lag)"
    by auto
  show ?thesis
    by (rule exI [of _ i], rule exI [of _ "case result of Inl _ \<Rightarrow> Call_Failure lag | Inr _ \<Rightarrow> Call_Success k lag lag'"])
      (cases result; simp add: i acq ctx op lags execute_unary_def UnaryContext_record_success_def
        UnaryContext_record_failure_def on_metrics_def update_pool_drop log_call_def eq)
qed

text \<open>
  C23. The complete outcome of a call on a well-formed client: an unregistered chain is refused without touching
  anything; otherwise the operation runs once, on one of the endpoints the client serves for the chain, its
  result or the transport error is returned, exactly one call of the matching kind is recorded with that
  endpoint's metrics of that actor, and the permit is back, on every path.
\<close>
theorem execute_unary_outcome:
  assumes "client_ok client" "env_ok env"
  shows "case served client c of
      None \<Rightarrow> execute_unary env actor c sticky timeout operation (client, w) =
                (Inl (NoEndpointsAvailable c), 0, (client, w))
    | Some urls \<Rightarrow> \<exists>i call. i < length urls \<and>
        (case operation (fst (urls ! i)) (snd (env_surroundings env w)) of (result, k, w') \<Rightarrow>
           execute_unary env actor c sticky timeout operation (client, w) =
             (map_sum TransportError id result, k, (log_call actor c i call client, snd (env_lags env w'))) \<and>
           is_failure call = isl result)"
proof (cases "served client c")
  case None
  then show ?thesis by (simp add: execute_unary_def acquire_unserved [OF assms(1)])
next
  case (Some urls)
  then show ?thesis using execute_served [OF assms Some] by simp
qed


section \<open>Calls keep the client well formed\<close>

lemma record_call_ok: "metrics_ok m \<Longrightarrow> metrics_ok (record_call call m)"
  by (cases call) (simp_all add: metrics_ok_success metrics_ok_failure)

lemma record_call_url [simp]: "em_url (record_call call m) = em_url m" "em_id (record_call call m) = em_id m"
  by (cases call; simp add: record_success_def record_failure_def update_health_status_def Let_def)+

lemma endpoint_urls_update [simp]: "endpoint_urls (update_entry i (record_call call) pool) = endpoint_urls pool"
  by (simp add: update_entry_def endpoint_urls_def map_update list_update_same_conv)

lemma pool_ok_update: "pool_ok c pool \<Longrightarrow> pool_ok c (update_entry i (record_call call) pool)"
  by (auto simp: pool_ok_def update_entry_def record_call_ok dest!: set_update_subset_insert [THEN subsetD])

lemma get_pool_update:
  "get_pool a c' (update_pool actor c f stack) =
     (if a = actor \<and> c' = c then map_option f (get_pool a c' stack) else get_pool a c' stack)"
  by (cases a; cases actor) (auto simp: map_of_map_entry split: option.splits)

lemma pools_agree_update:
  "pools_agree c' stack \<Longrightarrow> pools_agree c' (update_pool actor c (update_entry i (record_call call)) stack)"
  by (cases actor)
    (auto simp: pools_agree_def get_pool_update pool_ok_update simp del: get_pool.simps update_pool.simps split: option.splits)

lemma log_call_ok: "client_ok client \<Longrightarrow> client_ok (log_call actor c i call client)"
  by (simp add: client_ok_def log_call_def pools_agree_update semaphores_free_def)

lemma log_call_served [simp]: "served (log_call actor c i call client) = served client"
  by (rule ext) (simp add: served_def log_call_def get_pool_update option.map_comp comp_def del: get_pool.simps update_pool.simps)

lemma execute_unary_ok:
  assumes "client_ok client" "env_ok env"
  shows "client_ok (fst (snd (snd (execute_unary env actor c sticky timeout operation (client, w))))) \<and>
    served (fst (snd (snd (execute_unary env actor c sticky timeout operation (client, w))))) = served client"
proof (cases "served client c")
  case None
  then show ?thesis by (simp add: execute_unary_def acquire_unserved [OF assms(1)] assms)
next
  case (Some urls)
  obtain i call where "case operation (fst (urls ! i)) (snd (env_surroundings env w)) of (result, k, w') \<Rightarrow>
       execute_unary env actor c sticky timeout operation (client, w) =
         (map_sum TransportError id result, k, (log_call actor c i call client, snd (env_lags env w'))) \<and>
       is_failure call = isl result"
    using execute_served [OF assms Some, where operation = operation and w = w and actor = actor and sticky = sticky and timeout = timeout]
    by (elim exE conjE) (rule that)
  then show ?thesis using log_call_ok [OF assms(1)] by (auto split: prod.splits)
qed


section \<open>Witness\<close>

definition sample_rpc_client :: "string rpc_client" where
  "sample_rpc_client =
     (let bp = add_endpoint ''a'' (EndpointMetrics_new ''broadcast-1-0'' ''https://a'' 0) 0 (EndpointPool_new (ChainId 1));
          vp = add_endpoint ''a'' (EndpointMetrics_new ''validator-1-0'' ''https://a'' 0) 0 (EndpointPool_new (ChainId 1)) in
      register_chain (ChainId 1) bp vp (RpcClient_new RpcProviderStack_new))"

definition sample_env :: "nat rpc_env" where
  "sample_env = \<lparr>env_surroundings = (\<lambda>n. (sample_surroundings, n)), env_lags = (\<lambda>n. ((0, 0), n))\<rparr>"

lemma sample_env_ok: "env_ok sample_env"
  by (simp add: env_ok_def sample_env_def sample_surroundings_ok)

lemma sample_rpc_client_ok: "client_ok sample_rpc_client"
  by (simp add: client_ok_def semaphores_free_def sample_rpc_client_def register_chain_def register_chain_pool_def RpcClient_new_def
      RpcProviderStack_new_def pools_agree_def pool_ok_def endpoint_urls_def add_endpoint_def update_healthy_cache_def
      EndpointPool_new_def metrics_ok_new Let_def EndpointMetrics_new_def metrics_ok_def)

lemma sample_served: "served sample_rpc_client (ChainId 1) = Some [(''a'', ''https://a'')]"
  by (simp add: served_def sample_rpc_client_def register_chain_def register_chain_pool_def RpcClient_new_def
      RpcProviderStack_new_def endpoint_urls_def add_endpoint_def update_healthy_cache_def EndpointPool_new_def Let_def
      EndpointMetrics_new_def)

theorem execute_unary_outcome_witness:
  "\<exists>call. execute_unary sample_env Broadcast (ChainId 1) (Some 0) 5 (\<lambda>p n. (Inr (length p), 7, Suc n)) (sample_rpc_client, 0) =
     (Inr 1, 7, (log_call Broadcast (ChainId 1) 0 call sample_rpc_client, 1)) \<and> \<not> is_failure call"
  using execute_unary_outcome [OF sample_rpc_client_ok sample_env_ok, where c = "ChainId 1" and actor = Broadcast and sticky = "Some 0" and timeout = 5
      and operation = "\<lambda>p n. (Inr (length p), 7, Suc n)" and w = 0]
  by (auto simp: sample_served sample_env_def)

end
