(* ===== verification/Rpc_Calls.thy ===== *)
theory Rpc_Calls
  imports Rpc_Client
begin

text \<open>
  The functions the rest of Lobby calls, \<^verbatim>\<open>crate/utils/src/rpc/mod.rs\<close>: the construction of the client from the
  environment, the four calls of the actors and the choice of an endpoint for a pipeline. A provider of the
  alloy library is a record of operations over the network state. The calls, packed as an \<open>rpc_port\<close>, are what
  the broadcast and validator engines run on.
\<close>

section \<open>Calls\<close>

record ('p, 'w) alloy_provider =
  pv_send_raw_transaction :: "'p \<Rightarrow> bytes \<Rightarrow> 'w \<Rightarrow> (string + tx_hash) \<times> duration \<times> 'w"
  pv_get_transaction_count_pending :: "'p \<Rightarrow> address \<Rightarrow> 'w \<Rightarrow> (string + u64) \<times> duration \<times> 'w"
  pv_get_transaction_receipt :: "'p \<Rightarrow> tx_hash \<Rightarrow> 'w \<Rightarrow> (string + receipt option) \<times> duration \<times> 'w"
  pv_get_block_number :: "'p \<Rightarrow> 'w \<Rightarrow> (string + u64) \<times> duration \<times> 'w"

fun sticky_index_of :: "load_balancing_strategy \<Rightarrow> nat option" where
  "sticky_index_of (StickySession sticky_index) = Some sticky_index"
| "sticky_index_of WeightedLeastResponseTime = None"

definition map_call :: "(lobby_rpc_error \<Rightarrow> lobby_rpc_error) \<Rightarrow> ('r \<Rightarrow> 'q) \<Rightarrow> ('p, 'w, 'r) client_call \<Rightarrow> ('p, 'w, 'q) client_call" where
  "map_call f g call s = (case call s of (r, k, s') \<Rightarrow> (map_sum f g r, k, s'))"

definition send_raw_transaction ::
  "'w rpc_env \<Rightarrow> ('p, 'w) alloy_provider \<Rightarrow> chain_id \<Rightarrow> load_balancing_strategy \<Rightarrow> bytes \<Rightarrow> duration \<Rightarrow> ('p, 'w, tx_hash) client_call" where
  "send_raw_transaction env pv c strategy signed_txn timeout =
     map_call (\<lambda>e. RpcBroadcastError (show_lobby_rpc_error e)) id
       (execute_unary env Broadcast c (sticky_index_of strategy) timeout (\<lambda>p. pv_send_raw_transaction pv p signed_txn))"

definition get_transaction_count ::
  "'w rpc_env \<Rightarrow> ('p, 'w) alloy_provider \<Rightarrow> chain_id \<Rightarrow> load_balancing_strategy \<Rightarrow> address \<Rightarrow> duration \<Rightarrow> ('p, 'w, tx_nonce) client_call" where
  "get_transaction_count env pv c strategy a timeout =
     map_call (\<lambda>e. NonceFetchError (show_lobby_rpc_error e)) (\<lambda>nonce. TxNonce (ucast nonce))
       (execute_unary env Broadcast c (sticky_index_of strategy) timeout (\<lambda>p. pv_get_transaction_count_pending pv p a))"

definition get_transaction_receipt ::
  "'w rpc_env \<Rightarrow> ('p, 'w) alloy_provider \<Rightarrow> chain_id \<Rightarrow> load_balancing_strategy \<Rightarrow> tx_hash \<Rightarrow> duration \<Rightarrow> ('p, 'w, receipt option) client_call" where
  "get_transaction_receipt env pv c strategy h timeout =
     map_call (\<lambda>e. ReceiptFetchFailed (show_lobby_rpc_error e)) id
       (execute_unary env Validator c (sticky_index_of strategy) timeout (\<lambda>p. pv_get_transaction_receipt pv p h))"

definition get_block_number ::
  "'w rpc_env \<Rightarrow> ('p, 'w) alloy_provider \<Rightarrow> chain_id \<Rightarrow> load_balancing_strategy \<Rightarrow> duration \<Rightarrow> ('p, 'w, u64) client_call" where
  "get_block_number env pv c strategy timeout =
     map_call (\<lambda>e. BlockNotFound (show_lobby_rpc_error e)) id
       (execute_unary env Validator c (sticky_index_of strategy) timeout (\<lambda>p. pv_get_block_number pv p))"

definition acquire_healthy_endpoint :: "'w rpc_env \<Rightarrow> chain_id \<Rightarrow> duration \<Rightarrow> ('p, 'w, nat option) client_call" where
  "acquire_healthy_endpoint env c timeout s =
     (case s of (client, w) \<Rightarrow>
      case get_semaphore timeout Validator (provider_stack client) of
        (Inl err, stack) \<Rightarrow> (Inl err, waited err, (client\<lparr>provider_stack := stack\<rparr>, w))
      | (Inr _, stack) \<Rightarrow>
          (case get_pool Validator c stack of
             None \<Rightarrow> (Inl (NoEndpointsAvailable c), 0, (client\<lparr>provider_stack := drop_permit Validator stack\<rparr>, w))
           | Some pool \<Rightarrow>
               (let (su, w') = env_surroundings env w in
                (Inr (best_endpoint_index su pool), 0, (client\<lparr>provider_stack := drop_permit Validator stack\<rparr>, w')))))"

text \<open>The engines call with a sticky session and keep the \<open>Debug\<close> rendering of an error.\<close>

fun debug_lobby_rpc_error :: "(string \<Rightarrow> string) \<Rightarrow> (chain_id \<Rightarrow> string) \<Rightarrow> lobby_rpc_error \<Rightarrow> string" where
  "debug_lobby_rpc_error str chain (PermitAcquisitionTimeout t) = ''PermitAcquisitionTimeout { timeout: '' @ show_duration t @ '' }''"
| "debug_lobby_rpc_error str chain SemaphoreClosed = ''SemaphoreClosed''"
| "debug_lobby_rpc_error str chain (NoEndpointsAvailable c) = ''NoEndpointsAvailable { chain_id: '' @ chain c @ '' }''"
| "debug_lobby_rpc_error str chain (AllEndpointsUnhealthy c) = ''AllEndpointsUnhealthy { chain_id: '' @ chain c @ '' }''"
| "debug_lobby_rpc_error str chain (TransportError m) = ''TransportError('' @ str m @ '')''"
| "debug_lobby_rpc_error str chain (ProviderConstructionError m) = ''ProviderConstructionError('' @ str m @ '')''"
| "debug_lobby_rpc_error str chain (InvalidUrl m) = ''InvalidUrl('' @ str m @ '')''"
| "debug_lobby_rpc_error str chain (RpcBroadcastError m) = ''RpcBroadcastError('' @ str m @ '')''"
| "debug_lobby_rpc_error str chain (NonceFetchError m) = ''NonceFetchError('' @ str m @ '')''"
| "debug_lobby_rpc_error str chain (ReceiptFetchFailed m) = ''ReceiptFetchFailed('' @ str m @ '')''"
| "debug_lobby_rpc_error str chain (BlockNotFound m) = ''BlockNotFound('' @ str m @ '')''"
| "debug_lobby_rpc_error str chain (EndpointPoolCorrupted m) = ''EndpointPoolCorrupted('' @ str m @ '')''"

definition debugged :: "(lobby_rpc_error \<Rightarrow> string) \<Rightarrow> (lobby_rpc_error + 'r) \<times> duration \<times> 's \<Rightarrow> (string + 'r) \<times> nat \<times> 's" where
  "debugged dbg out = (case out of (r, k, s') \<Rightarrow> (map_sum dbg id r, k, s'))"

definition client_port ::
  "'w rpc_env \<Rightarrow> ('p, 'w) alloy_provider \<Rightarrow> (lobby_rpc_error \<Rightarrow> string) \<Rightarrow> ('p rpc_client \<times> 'w) rpc_port" where
  "client_port env pv dbg =
     \<lparr>rpc_send_raw_transaction = (\<lambda>c i bs t s. debugged dbg (send_raw_transaction env pv c (StickySession i) bs (nat t) s)),
      rpc_get_transaction_count = (\<lambda>c i a t s. debugged dbg (get_transaction_count env pv c (StickySession i) a (nat t) s)),
      rpc_get_transaction_receipt = (\<lambda>c i h t s. debugged dbg (get_transaction_receipt env pv c (StickySession i) h (nat t) s)),
      rpc_get_block_number = (\<lambda>c i t s. debugged dbg (get_block_number env pv c (StickySession i) (nat t) s))\<rparr>"


section \<open>The client from the environment\<close>

text \<open>\<open>str::trim\<close> removes the characters of the Unicode property \<open>White_Space\<close>, here by their UTF-8 bytes.\<close>

definition white_space :: "string list" where
  "white_space =
     map (\<lambda>n. [char_of n]) [9, 10, 11, 12, 13, 32 :: nat] @
     [[CHR 0xC2, CHR 0x85], [CHR 0xC2, CHR 0xA0], [CHR 0xE1, CHR 0x9A, CHR 0x80]] @
     map (\<lambda>n. [CHR 0xE2, CHR 0x80, char_of n]) ([128..<139] @ [168, 169, 175 :: nat]) @
     [[CHR 0xE2, CHR 0x81, CHR 0x9F], [CHR 0xE3, CHR 0x80, CHR 0x80]]"

definition strip_any :: "string list \<Rightarrow> string \<Rightarrow> string option" where
  "strip_any ps s = (case List.map_filter (\<lambda>p. strip_prefix p s) ps of [] \<Rightarrow> None | t # _ \<Rightarrow> Some t)"

fun strip_many :: "nat \<Rightarrow> string list \<Rightarrow> string \<Rightarrow> string" where
  "strip_many 0 ps s = s"
| "strip_many (Suc n) ps s = (case strip_any ps s of None \<Rightarrow> s | Some t \<Rightarrow> strip_many n ps t)"

definition str_trim :: "string \<Rightarrow> string" where
  "str_trim s =
     (let t = strip_many (length s) white_space s in
      rev (strip_many (length t) (map rev white_space) (rev t)))"

fun add_endpoints ::
  "('u, 'p) provider_factory \<Rightarrow> (nat \<Rightarrow> duration) \<Rightarrow> chain_id \<Rightarrow> nat \<Rightarrow> string list \<Rightarrow> 'p endpoint_pool \<times> 'p endpoint_pool \<Rightarrow>
   lobby_rpc_error + 'p endpoint_pool \<times> 'p endpoint_pool" where
  "add_endpoints pf lag c index [] pools = Inr pools"
| "add_endpoints pf lag c index (url # urls) (broadcast_pool, validator_pool) =
     (case create_unary_provider pf url of
        Inl e \<Rightarrow> Inl e
      | Inr broadcast_provider \<Rightarrow>
          (case create_unary_provider pf url of
             Inl e \<Rightarrow> Inl e
           | Inr validator_provider \<Rightarrow>
               (let broadcast_metrics = EndpointMetrics_new (''broadcast-'' @ show_chain_id c @ ''-'' @ show_nat index) url (lag index);
                    validator_metrics = EndpointMetrics_new (''validator-'' @ show_chain_id c @ ''-'' @ show_nat index) url (lag index) in
                add_endpoints pf lag c (Suc index) urls
                  (add_endpoint broadcast_provider broadcast_metrics (lag index) broadcast_pool,
                   add_endpoint validator_provider validator_metrics (lag index) validator_pool))))"

definition split_urls :: "string \<Rightarrow> string list" where
  "split_urls value = filter (\<lambda>s. s \<noteq> []) (map str_trim (split_on CHR '','' value))"

text \<open>\<open>env::vars\<close> as the list of the variables in the order it yields them.\<close>

fun register_endpoints ::
  "('u, 'p) provider_factory \<Rightarrow> (nat \<Rightarrow> duration) \<Rightarrow> (string \<times> string) list \<Rightarrow> 'p rpc_client \<times> bool \<Rightarrow>
   lobby_rpc_error + 'p rpc_client \<times> bool" where
  "register_endpoints pf lag [] acc = Inr acc"
| "register_endpoints pf lag ((key, value) # vars) (client, found) =
     (case strip_prefix ''RPC_ENDPOINT_'' key of
        None \<Rightarrow> register_endpoints pf lag vars (client, found)
      | Some chain_id_str \<Rightarrow>
          (case ChainId_from_str chain_id_str of
             Inl _ \<Rightarrow> Inl (ProviderConstructionError (''Invalid chain ID in environment variable: '' @ key))
           | Inr c \<Rightarrow>
               (let urls = split_urls value in
                if urls = [] then register_endpoints pf lag vars (client, found)
                else
                  (case add_endpoints pf lag c 0 urls (EndpointPool_new c, EndpointPool_new c) of
                     Inl e \<Rightarrow> Inl e
                   | Inr (broadcast_pool, validator_pool) \<Rightarrow>
                       register_endpoints pf lag vars (register_chain c broadcast_pool validator_pool client, True)))))"

definition get_client_endpoint_hashmap ::
  "(chain_id \<Rightarrow> string) \<Rightarrow> 'p rpc_client \<Rightarrow> lobby_rpc_error + (chain_id \<times> nat) list" where
  "get_client_endpoint_hashmap debug rpc_client = get_endpoint_hashmap debug rpc_client"

definition build_rpc_client ::
  "('u, 'p) provider_factory \<Rightarrow> (nat \<Rightarrow> duration) \<Rightarrow> (string \<times> string) list \<Rightarrow> lobby_rpc_error + 'p rpc_client" where
  "build_rpc_client pf lag vars =
     (case register_endpoints pf lag vars (RpcClient_new RpcProviderStack_new, False) of
        Inl e \<Rightarrow> Inl e
      | Inr (client, found) \<Rightarrow>
          if found then Inr client
          else Inl (ProviderConstructionError ''No RPC_ENDPOINT_* environment variables found''))"


section \<open>What the environment registers\<close>

definition usable_url :: "('u, 'p) provider_factory \<Rightarrow> string \<Rightarrow> bool" where
  "usable_url pf url \<longleftrightarrow> (\<exists>p. create_unary_provider pf url = Inr p)"

definition endpoints_for :: "('u, 'p) provider_factory \<Rightarrow> string list \<Rightarrow> ('p \<times> string) list" where
  "endpoints_for pf urls = map (\<lambda>url. (projr (create_unary_provider pf url), url)) urls"

text \<open>The variables that name endpoints, as the suffix of the key and the list of URLs.\<close>

definition endpoint_vars :: "(string \<times> string) list \<Rightarrow> (string \<times> string list) list" where
  "endpoint_vars vars =
     List.map_filter (\<lambda>(key, value). map_option (\<lambda>suffix. (suffix, split_urls value)) (strip_prefix ''RPC_ENDPOINT_'' key)) vars"

definition var_ok :: "('u, 'p) provider_factory \<Rightarrow> string \<times> string list \<Rightarrow> bool" where
  "var_ok pf v \<longleftrightarrow> (\<exists>c. ChainId_from_str (fst v) = Inr c) \<and> (\<forall>url \<in> set (snd v). usable_url pf url)"

text \<open>The endpoints of a chain: those of the last variable that names it and lists any.\<close>

definition env_endpoints :: "('u, 'p) provider_factory \<Rightarrow> (string \<times> string) list \<Rightarrow> chain_id \<Rightarrow> ('p \<times> string) list option" where
  "env_endpoints pf vars =
     map_of (rev (map (\<lambda>v. (projr (ChainId_from_str (fst v)), endpoints_for pf (snd v)))
       (filter (\<lambda>v. snd v \<noteq> []) (endpoint_vars vars))))"

definition pools_wf :: "chain_id \<Rightarrow> ('p \<times> string) list \<Rightarrow> 'p endpoint_pool \<times> 'p endpoint_pool \<Rightarrow> bool" where
  "pools_wf c urls pools \<longleftrightarrow>
     (\<forall>pool \<in> {fst pools, snd pools}. ep_chain_id pool = c \<and> endpoint_urls pool = urls \<and>
        (\<forall>entry \<in> set (ep_endpoints pool). metrics_ok (ee_metrics entry)))"

lemma pools_wf_new: "pools_wf c [] (EndpointPool_new c, EndpointPool_new c)"
  by (simp add: pools_wf_def EndpointPool_new_def endpoint_urls_def)

lemma pools_wf_add:
  assumes "pools_wf c urls (bp, vp)"
  shows "pools_wf c (urls @ [(p, url)])
    (add_endpoint p (EndpointMetrics_new i url l) l' bp, add_endpoint p (EndpointMetrics_new j url k) k' vp)"
  using assms metrics_ok_new
  by (auto simp: pools_wf_def add_endpoint_def update_healthy_cache_def endpoint_urls_def EndpointMetrics_new_def metrics_ok_def)

lemma add_endpoints_ok:
  assumes "\<forall>url \<in> set urls. usable_url pf url" "pools_wf c us pools"
  shows "\<exists>pools'. add_endpoints pf lag c index urls pools = Inr pools' \<and> pools_wf c (us @ endpoints_for pf urls) pools'"
  using assms
proof (induction urls arbitrary: index us pools)
  case Nil
  then show ?case by (cases pools) (simp add: endpoints_for_def)
next
  case (Cons url urls)
  obtain p where p: "create_unary_provider pf url = Inr p" using Cons.prems(1) by (auto simp: usable_url_def)
  obtain bp vp where pools: "pools = (bp, vp)" by (cases pools)
  note step = pools_wf_add [OF Cons.prems(2) [unfolded pools]]
  show ?case
    using Cons.IH [OF _ step] Cons.prems(1) by (fastforce simp: pools p Let_def endpoints_for_def)
qed

lemma add_endpoints_error:
  "\<not> (\<forall>url \<in> set urls. usable_url pf url) \<Longrightarrow> \<exists>e. add_endpoints pf lag c index urls pools = Inl e"
proof (induction urls arbitrary: index pools)
  case Nil
  then show ?case by simp
next
  case (Cons url urls)
  obtain bp vp where pools: "pools = (bp, vp)" by (cases pools)
  show ?case
  proof (cases "create_unary_provider pf url")
    case (Inl e)
    then show ?thesis by (simp add: pools)
  next
    case (Inr p)
    then have "\<not> (\<forall>url \<in> set urls. usable_url pf url)" using Cons.prems by (auto simp: usable_url_def)
    from Cons.IH [OF this] Inr show ?thesis by (simp add: pools Let_def)
  qed
qed

lemma get_pool_register:
  "get_pool Broadcast c' (register_chain_pool c bp vp stack) = (if c' = c then Some bp else get_pool Broadcast c' stack)"
  "get_pool Validator c' (register_chain_pool c bp vp stack) = (if c' = c then Some vp else get_pool Validator c' stack)"
  by (simp_all add: register_chain_pool_def update_conv)

lemma pools_wf_ok:
  assumes "pools_wf c urls (bp, vp)" "urls \<noteq> []"
  shows "pool_ok c bp" "pool_ok c vp" "endpoint_urls bp = urls" "endpoint_urls vp = urls"
  using assms by (auto simp: pools_wf_def pool_ok_def endpoint_urls_def)

lemma register_chain_ok:
  assumes "client_ok client" "pools_wf c urls (bp, vp)" "urls \<noteq> []"
  shows "client_ok (register_chain c bp vp client)" "served (register_chain c bp vp client) = (served client)(c \<mapsto> urls)"
proof -
  have sem: "semaphores_free (register_chain_pool c bp vp (provider_stack client))"
    using client_okD(1) [OF assms(1)] by (simp add: semaphores_free_def register_chain_pool_def)
  have agree: "pools_agree c' (register_chain_pool c bp vp (provider_stack client))" for c'
    using client_okD(2) [OF assms(1), of c'] pools_wf_ok [OF assms(2,3)]
    by (auto simp: pools_agree_def get_pool_register simp del: get_pool.simps)
  show "client_ok (register_chain c bp vp client)"
    using sem agree by (simp add: client_ok_def register_chain_def)
  show "served (register_chain c bp vp client) = (served client)(c \<mapsto> urls)"
    using pools_wf_ok [OF assms(2,3)]
    by (auto simp: served_def register_chain_def get_pool_register simp del: get_pool.simps)
qed

lemma endpoint_vars_Cons:
  "endpoint_vars ((key, value) # vars) =
     (case strip_prefix ''RPC_ENDPOINT_'' key of None \<Rightarrow> endpoint_vars vars
      | Some suffix \<Rightarrow> (suffix, split_urls value) # endpoint_vars vars)"
  by (simp add: endpoint_vars_def List.map_filter_simps split: option.splits)

lemma env_endpoints_Cons:
  "strip_prefix ''RPC_ENDPOINT_'' key = None \<Longrightarrow> env_endpoints pf ((key, value) # vars) = env_endpoints pf vars"
  "strip_prefix ''RPC_ENDPOINT_'' key = Some suffix \<Longrightarrow> split_urls value = [] \<Longrightarrow>
     env_endpoints pf ((key, value) # vars) = env_endpoints pf vars"
  "strip_prefix ''RPC_ENDPOINT_'' key = Some suffix \<Longrightarrow> split_urls value \<noteq> [] \<Longrightarrow>
     env_endpoints pf ((key, value) # vars) =
       [projr (ChainId_from_str suffix) \<mapsto> endpoints_for pf (split_urls value)] ++ env_endpoints pf vars"
  by (simp_all add: env_endpoints_def endpoint_vars_Cons)

lemma register_endpoints_ok:
  assumes "client_ok client" "\<forall>v \<in> set (endpoint_vars vars). var_ok pf v"
  shows "\<exists>client'. register_endpoints pf lag vars (client, found) =
      Inr (client', found \<or> (\<exists>v \<in> set (endpoint_vars vars). snd v \<noteq> [])) \<and>
    client_ok client' \<and> served client' = served client ++ env_endpoints pf vars"
  using assms
proof (induction vars arbitrary: client found)
  case Nil
  then show ?case by (simp add: endpoint_vars_def env_endpoints_def List.map_filter_simps)
next
  case (Cons var vars)
  obtain key val where var: "var = (key, val)" by (cases var)
  show ?case
  proof (cases "strip_prefix ''RPC_ENDPOINT_'' key")
    case None
    then show ?thesis
      using Cons.IH [OF Cons.prems(1)] Cons.prems(2) by (simp add: var endpoint_vars_Cons env_endpoints_Cons(1))
  next
    case (Some suffix)
    then have ok: "var_ok pf (suffix, split_urls val)" and rest: "\<forall>v \<in> set (endpoint_vars vars). var_ok pf v"
      using Cons.prems(2) by (simp_all add: var endpoint_vars_Cons)
    obtain c where c: "ChainId_from_str suffix = Inr c" using ok by (auto simp: var_ok_def)
    show ?thesis
    proof (cases "split_urls val = []")
      case True
      then show ?thesis
        using Cons.IH [OF Cons.prems(1) rest] Some c by (simp add: var endpoint_vars_Cons env_endpoints_Cons(2))
    next
      case False
      obtain bp vp where add: "add_endpoints pf lag c 0 (split_urls val) (EndpointPool_new c, EndpointPool_new c) = Inr (bp, vp)"
        and wf: "pools_wf c (endpoints_for pf (split_urls val)) (bp, vp)"
        using add_endpoints_ok [OF _ pools_wf_new, of "split_urls val" pf lag c 0] ok
        by (auto simp: var_ok_def)
      have ne: "endpoints_for pf (split_urls val) \<noteq> []" using False by (simp add: endpoints_for_def)
      note reg = register_chain_ok [OF Cons.prems(1) wf ne]
      obtain client' where "register_endpoints pf lag vars (register_chain c bp vp client, True) = Inr (client', True)"
        "client_ok client'" "served client' = (served client)(c \<mapsto> endpoints_for pf (split_urls val)) ++ env_endpoints pf vars"
        using Cons.IH [OF reg(1) rest, of True] unfolding reg(2) simp_thms by blast
      with Some c False add show ?thesis
        by (intro exI [of _ client']) (simp add: var endpoint_vars_Cons env_endpoints_Cons(3) Let_def)
    qed
  qed
qed

lemma bad_urls:
  "url \<in> set urls \<Longrightarrow> \<not> usable_url pf url \<Longrightarrow> add_endpoints pf lag c index urls pools \<noteq> Inr pools'"
  by (metis Inl_Inr_False add_endpoints_error)

lemma register_endpoints_error:
  "\<not> (\<forall>v \<in> set (endpoint_vars vars). var_ok pf v) \<Longrightarrow> \<exists>e. register_endpoints pf lag vars (client, found) = Inl e"
proof (induction vars arbitrary: client found)
  case Nil
  then show ?case by (simp add: endpoint_vars_def List.map_filter_simps)
next
  case (Cons var vars)
  obtain key val where var: "var = (key, val)" by (cases var)
  show ?case
  proof (cases "strip_prefix ''RPC_ENDPOINT_'' key")
    case None
    then show ?thesis using Cons by (simp add: var endpoint_vars_Cons)
  next
    case (Some suffix)
    show ?thesis
    proof (cases "var_ok pf (suffix, split_urls val)")
      case True
      then have "\<not> (\<forall>v \<in> set (endpoint_vars vars). var_ok pf v)" using Cons.prems Some by (simp add: var endpoint_vars_Cons)
      with Some Cons.IH show ?thesis
        by (auto simp: var Let_def split: sum.splits)
    next
      case False
      then show ?thesis
        using Some bad_urls [of _ "split_urls val" pf lag]
        by (cases "ChainId_from_str suffix") (auto simp: var var_ok_def Let_def split: sum.splits prod.splits)
    qed
  qed
qed

definition env_usable :: "('u, 'p) provider_factory \<Rightarrow> (string \<times> string) list \<Rightarrow> bool" where
  "env_usable pf vars \<longleftrightarrow> list_all (var_ok pf) (endpoint_vars vars) \<and> list_ex (\<lambda>v. snd v \<noteq> []) (endpoint_vars vars)"

lemma build_cases:
  "case build_rpc_client pf lag vars of
     Inl err \<Rightarrow> \<not> env_usable pf vars
   | Inr client \<Rightarrow> env_usable pf vars \<and> client_ok client \<and> served client = env_endpoints pf vars"
proof -
  let ?new = "RpcClient_new RpcProviderStack_new"
  have new: "client_ok ?new" "served ?new = Map.empty"
    by (auto simp: client_ok_def semaphores_free_def pools_agree_def RpcClient_new_def RpcProviderStack_new_def served_def)
  show ?thesis
  proof (cases "\<forall>v \<in> set (endpoint_vars vars). var_ok pf v")
    case True
    then show ?thesis
      using register_endpoints_ok [OF new(1) True, of lag False, unfolded new(2)]
      by (auto simp: build_rpc_client_def env_usable_def list_all_iff list_ex_iff)
  next
    case False
    then show ?thesis
      using register_endpoints_error [OF False, of lag ?new False]
      by (auto simp: build_rpc_client_def env_usable_def list_all_iff)
  qed
qed

lemma build_ok: "build_rpc_client pf lag vars = Inr client \<Longrightarrow> client_ok client \<and> served client = env_endpoints pf vars"
  using build_cases [where pf = pf and lag = lag and vars = vars] by simp

text \<open>
  The client is built exactly when every variable \<open>RPC_ENDPOINT_*\<close> names a chain and lists only usable URLs and
  at least one of them lists any; it then serves for every chain the endpoints of the last such variable, in
  order, with all permits free and with the same endpoint at the same index for both actors.
\<close>
theorem build_rpc_client_outcome:
  "case build_rpc_client pf lag vars of
     Inl err \<Rightarrow> \<not> env_usable pf vars
   | Inr client \<Rightarrow> env_usable pf vars \<and> client_ok client \<and> served client = env_endpoints pf vars"
  by (rule build_cases)

end
