(* ===== verification/Cortex_Config.thy ===== *)
theory Cortex_Config
  imports Retry
begin

text \<open>
  The configuration of the orchestrator, \<^verbatim>\<open>crate/cortex/src/artifacts/config.rs\<close>. The environment is a
  partial function from variable names to texts (a variable that is absent or not Unicode is not in
  its domain), \<open>usize\<close> is 64 bits wide, and \<open>FromStr\<close> of the unsigned types is the one of the Rust
  standard library.
\<close>

section \<open>Unsigned readers\<close>

fun read_u64 :: "nat \<Rightarrow> string \<Rightarrow> int_error_kind + u64" where
  "read_u64 acc [] = Inr (of_nat acc)"
| "read_u64 acc (c # cs) =
     (case dec_digit c of
        None \<Rightarrow> Inl InvalidDigit
      | Some d \<Rightarrow> if acc * 10 + d < 2 ^ 64 then read_u64 (acc * 10 + d) cs else Inl PosOverflow)"

definition parse_u64 :: "string \<Rightarrow> int_error_kind + u64" where
  "parse_u64 s =
     (case s of [] \<Rightarrow> Inl Empty
      | c # cs \<Rightarrow>
          if (c = CHR ''+'' \<or> c = CHR ''-'') \<and> cs = [] then Inl InvalidDigit
          else if c = CHR ''+'' then read_u64 0 cs
          else read_u64 0 s)"

lemma read_u64_digits:
  "read_digits dec_digit 10 acc s = Some n \<Longrightarrow> n < 2 ^ 64 \<Longrightarrow> read_u64 acc s = Inr (of_nat n)"
proof (induction s arbitrary: acc)
  case Nil
  then show ?case by simp
next
  case (Cons c cs)
  then obtain d where d: "dec_digit c = Some d"
    and rest: "read_digits dec_digit 10 (acc * 10 + d) cs = Some n"
    by (auto split: option.splits)
  have "acc * 10 + d \<le> n" using rest read_digits_mono [of dec_digit 9] by simp
  then have "acc * 10 + d < 2 ^ 64" using Cons.prems(2) by linarith
  then show ?case using d Cons.IH [OF rest Cons.prems(2)] by simp
qed

lemma parse_u64_show_nat: "n < 2 ^ 64 \<Longrightarrow> parse_u64 (show_nat n) = Inr (of_nat n)"
  using read_u64_digits [of 0 "show_nat n" n] read_show_nat [of n] hd_show_nat [of n] digit_char_not_sign
  by (cases "show_nat n") (auto simp: parse_u64_def)


section \<open>The configuration\<close>

record cortex_config =
  relay_host_shards :: u64
  nonce_shards :: u64
  sign_shards :: u64
  broadcast_shards :: u64
  validator_shards :: u64
  actor_buffer :: u64
  pipeline_concurrency :: u64
  pipeline_semaphore_timeout :: duration
  cc_retry :: retry_config

datatype config_error = Config_Parse string int_error_kind

definition parse_env :: "environment \<Rightarrow> string \<Rightarrow> u64 \<Rightarrow> config_error + u64" where
  "parse_env env key dflt =
     (case env key of
        Some raw \<Rightarrow> (case parse_u64 raw of Inl e \<Rightarrow> Inl (Config_Parse key e) | Inr v \<Rightarrow> Inr v)
      | None \<Rightarrow> Inr dflt)"

definition bind_config :: "config_error + 'a \<Rightarrow> ('a \<Rightarrow> config_error + 'b) \<Rightarrow> config_error + 'b" where
  "bind_config r k = (case r of Inl e \<Rightarrow> Inl e | Inr x \<Rightarrow> k x)"

definition CortexConfig_from_env :: "environment \<Rightarrow> config_error + cortex_config" where
  "CortexConfig_from_env env =
     bind_config (parse_env env ''RELAYHOST_SHARDS'' 17) (\<lambda>rh.
     bind_config (parse_env env ''NONCE_SHARDS'' 17) (\<lambda>n.
     bind_config (parse_env env ''SIGN_SHARDS'' 17) (\<lambda>s.
     bind_config (parse_env env ''BROADCAST_SHARDS'' 17) (\<lambda>b.
     bind_config (parse_env env ''VALIDATOR_SHARDS'' 17) (\<lambda>v.
     bind_config (parse_env env ''ACTOR_BUFFER_SIZE'' 256) (\<lambda>buf.
     bind_config (parse_env env ''PIPELINE_CONCURRENCY'' 200) (\<lambda>conc.
     bind_config (parse_env env ''PIPELINE_SEMAPHORE_TIMEOUT_MS'' 5000) (\<lambda>t.
       Inr \<lparr>relay_host_shards = rh, nonce_shards = n, sign_shards = s, broadcast_shards = b,
            validator_shards = v, actor_buffer = buf, pipeline_concurrency = conc,
            pipeline_semaphore_timeout = from_millis t, cc_retry = RetryConfig_default\<rparr>))))))))"


section \<open>Properties\<close>

text \<open>The variables in the order they are read.\<close>

definition config_keys :: "string list" where
  "config_keys = [''RELAYHOST_SHARDS'', ''NONCE_SHARDS'', ''SIGN_SHARDS'', ''BROADCAST_SHARDS'', ''VALIDATOR_SHARDS'',
     ''ACTOR_BUFFER_SIZE'', ''PIPELINE_CONCURRENCY'', ''PIPELINE_SEMAPHORE_TIMEOUT_MS'']"

definition readable :: "environment \<Rightarrow> string \<Rightarrow> bool" where
  "readable env key \<longleftrightarrow> (case env key of None \<Rightarrow> True | Some raw \<Rightarrow> (case parse_u64 raw of Inl e \<Rightarrow> False | Inr v \<Rightarrow> True))"

lemma bind_config_simps [simp]: "bind_config (Inl e) k = Inl e" "bind_config (Inr x) k = k x"
  by (simp_all add: bind_config_def)

lemma parse_env_cases:
  obtains (good) v where "readable env key" "parse_env env key d = Inr v"
  | (bad) raw e where "\<not> readable env key" "env key = Some raw" "parse_u64 raw = Inl e"
      "parse_env env key d = Inl (Config_Parse key e)"
proof (cases "env key")
  case None
  then show ?thesis using that(1) by (simp add: readable_def parse_env_def)
next
  case (Some raw)
  show ?thesis
  proof (cases "parse_u64 raw")
    case (Inl e)
    with Some show ?thesis using that(2) by (simp add: readable_def parse_env_def)
  next
    case (Inr v)
    with Some show ?thesis using that(1) by (simp add: readable_def parse_env_def)
  qed
qed

lemma from_env_retry: "CortexConfig_from_env env = Inr cfg \<Longrightarrow> cc_retry cfg = RetryConfig_default"
  by (auto simp: CortexConfig_from_env_def bind_config_def split: sum.splits)

text \<open>
  The configuration is loaded exactly when every set variable is readable; otherwise the error names the
  first unreadable variable in reading order and carries its parse error.
\<close>
theorem from_env_outcome:
  "case CortexConfig_from_env env of
     Inr cfg \<Rightarrow> list_all (readable env) config_keys \<and> cc_retry cfg = RetryConfig_default
   | Inl (Config_Parse key e) \<Rightarrow>
       find (\<lambda>k. \<not> readable env k) config_keys = Some key \<and> (\<exists>raw. env key = Some raw \<and> parse_u64 raw = Inl e)"
  unfolding CortexConfig_from_env_def config_keys_def
  apply (cases rule: parse_env_cases [of env "''RELAYHOST_SHARDS''" 17]; simp)
  apply (cases rule: parse_env_cases [of env "''NONCE_SHARDS''" 17]; simp)
  apply (cases rule: parse_env_cases [of env "''SIGN_SHARDS''" 17]; simp)
  apply (cases rule: parse_env_cases [of env "''BROADCAST_SHARDS''" 17]; simp)
  apply (cases rule: parse_env_cases [of env "''VALIDATOR_SHARDS''" 17]; simp)
  apply (cases rule: parse_env_cases [of env "''ACTOR_BUFFER_SIZE''" 256]; simp)
  apply (cases rule: parse_env_cases [of env "''PIPELINE_CONCURRENCY''" 200]; simp)
  apply (cases rule: parse_env_cases [of env "''PIPELINE_SEMAPHORE_TIMEOUT_MS''" 5000]; simp)
  done

lemma parse_env_roundtrip:
  assumes "env key = Some (show_nat (unat v))"
  shows "parse_env env key d = Inr v"
proof -
  have "unat v < 2 ^ 64" using unsigned_less [of v] by simp
  then show ?thesis using parse_u64_show_nat [of "unat v"] assms by (simp add: parse_env_def)
qed

end
