(* ===== verification/Shard_Pool.thy ===== *)
theory Shard_Pool
  imports Eip1559
begin

text \<open>
  The pools of actor handles, \<^verbatim>\<open>crate/cortex/src/artifacts/pool.rs\<close>. A key is fed to a fresh
  \<open>DefaultHasher\<close>, whose algorithm the standard library leaves unspecified: the finished 64-bit hash
  of a key is a parameter of the model.
\<close>

record 'h shard_pool =
  shards :: "'h list"

datatype routing_key = ByAddress address | ByExecutionId execution_id | ByChainId chain_id

type_synonym hasher = "routing_key \<Rightarrow> u64"

definition ShardPool_new :: "'h list \<Rightarrow> 'h shard_pool run" where
  "ShardPool_new handles =
     (if handles = [] then Panic ''sharded pool must have at least one shard'' else Done \<lparr>shards = handles\<rparr>)"

definition shard_count :: "'h shard_pool \<Rightarrow> nat" where
  "shard_count pool = length (shards pool)"

definition shard_index :: "hasher \<Rightarrow> routing_key \<Rightarrow> nat \<Rightarrow> nat run" where
  "shard_index hash_of key n =
     (if n = 0 then Panic ''attempt to calculate the remainder with a divisor of zero''
      else Done (unat (hash_of key) mod n))"

definition ShardPool_get :: "hasher \<Rightarrow> 'h shard_pool \<Rightarrow> routing_key \<Rightarrow> 'h run" where
  "ShardPool_get hash_of pool key =
     (case shard_index hash_of key (shard_count pool) of
        Panic m \<Rightarrow> Panic m
      | Done i \<Rightarrow> if i < shard_count pool then Done (shards pool ! i) else Panic ''index out of bounds'')"

lemma ShardPool_get_Done:
  "shards pool \<noteq> [] \<Longrightarrow> ShardPool_get hash_of pool key = Done (shards pool ! (unat (hash_of key) mod length (shards pool)))"
  by (simp add: ShardPool_get_def shard_index_def shard_count_def)

lemma ShardPool_new_Done_iff: "ShardPool_new hs = Done pool \<longleftrightarrow> hs \<noteq> [] \<and> pool = \<lparr>shards = hs\<rparr>"
  by (auto simp: ShardPool_new_def)

lemma pool_routes:
  assumes "ShardPool_new handles = Done pool"
  shows "\<exists>h \<in> set handles. ShardPool_get hash_of pool key = Done h"
proof -
  have "handles \<noteq> []" "shards pool = handles" using assms by (auto simp: ShardPool_new_Done_iff)
  then show ?thesis by (auto simp: ShardPool_get_Done intro!: bexI nth_mem)
qed

end
