(* ===== verification/Status_Registry.thy ===== *)
theory Status_Registry
  imports Lobby_Types "HOL-Library.Finite_Map" "HOL-Library.List_Lexorder" "HOL-Library.Char_ord"
begin

text \<open>
  The status registry, \<^verbatim>\<open>crate/cortex/src/artifacts/state.rs\<close>: a concurrent map in memory, and a copy of it
  in Redis that background tasks write. A \<open>set\<close> or \<open>remove\<close> changes the map at once and spawns one task;
  \<open>spawned\<close> keeps the tasks in the order they were spawned. Redis is a record of operations over a state
  \<open>'r\<close>, and the texts of \<open>serde_json\<close> and \<open>Uuid\<close> are the record \<open>status_text\<close>.
\<close>

section \<open>The registry\<close>

record status_text =
  to_json :: "pipeline_status \<Rightarrow> string option"
  from_json :: "string \<Rightarrow> pipeline_status option"
  show_uuid :: "uuid \<Rightarrow> string"
  parse_uuid :: "string \<Rightarrow> uuid option"

datatype redis_task = WriteStatus execution_id pipeline_status | DeleteStatus execution_id

record registry =
  status_book :: "execution_id \<Rightarrow> pipeline_status option"
  spawned :: "redis_task list"

definition registry_set :: "execution_id \<Rightarrow> pipeline_status \<Rightarrow> registry \<Rightarrow> registry" where
  "registry_set e st r =
     r\<lparr>status_book := (status_book r)(e \<mapsto> st), spawned := spawned r @ [WriteStatus e st]\<rparr>"

definition registry_get :: "execution_id \<Rightarrow> registry \<Rightarrow> pipeline_status option" where
  "registry_get e r = status_book r e"

definition registry_remove :: "execution_id \<Rightarrow> registry \<Rightarrow> registry" where
  "registry_remove e r =
     r\<lparr>status_book := (status_book r)(e := None), spawned := spawned r @ [DeleteStatus e]\<rparr>"


section \<open>The copy in Redis\<close>

record 'r redis =
  rd_set_ex :: "string \<Rightarrow> string \<Rightarrow> nat \<Rightarrow> 'r \<Rightarrow> (string + unit) \<times> 'r"
  rd_del :: "string \<Rightarrow> 'r \<Rightarrow> (string + unit) \<times> 'r"
  rd_get :: "string \<Rightarrow> 'r \<Rightarrow> (string + string option) \<times> 'r"
  rd_scan :: "u64 \<Rightarrow> string \<Rightarrow> nat \<Rightarrow> 'r \<Rightarrow> (string + u64 \<times> string list) \<times> 'r"

definition status_prefix :: string where
  "status_prefix = ''lobby:status:''"

definition run_set_task :: "status_text \<Rightarrow> 'r redis \<Rightarrow> execution_id \<Rightarrow> pipeline_status \<Rightarrow> 'r \<Rightarrow> 'r" where
  "run_set_task tx rd e st s =
     (case to_json tx st of
        None \<Rightarrow> s
      | Some v \<Rightarrow> snd (rd_set_ex rd (status_prefix @ show_uuid tx e) v 3600 s))"

definition run_remove_task :: "status_text \<Rightarrow> 'r redis \<Rightarrow> execution_id \<Rightarrow> 'r \<Rightarrow> 'r" where
  "run_remove_task tx rd e s = snd (rd_del rd (''lobby:state:'' @ show_uuid tx e) s)"

fun run_task :: "status_text \<Rightarrow> 'r redis \<Rightarrow> redis_task \<Rightarrow> 'r \<Rightarrow> 'r" where
  "run_task tx rd (WriteStatus e st) s = run_set_task tx rd e st s"
| "run_task tx rd (DeleteStatus e) s = run_remove_task tx rd e s"

text \<open>The body of the loop over the keys of one page, and the scan; its first argument bounds the number of pages.\<close>

fun load_keys ::
  "status_text \<Rightarrow> 'r redis \<Rightarrow> string list \<Rightarrow> (execution_id \<Rightarrow> pipeline_status option) \<Rightarrow> 'r \<Rightarrow>
   (string + (execution_id \<Rightarrow> pipeline_status option)) \<times> 'r" where
  "load_keys tx rd [] book s = (Inr book, s)"
| "load_keys tx rd (key # keys) book s =
     (case strip_prefix status_prefix key of
        None \<Rightarrow> load_keys tx rd keys book s
      | Some uuid_str \<Rightarrow>
          (case parse_uuid tx uuid_str of
             None \<Rightarrow> load_keys tx rd keys book s
           | Some e \<Rightarrow>
               (case rd_get rd key s of
                  (Inl err, s1) \<Rightarrow> (Inl err, s1)
                | (Inr None, s1) \<Rightarrow> load_keys tx rd keys book s1
                | (Inr (Some json), s1) \<Rightarrow>
                    (case from_json tx json of
                       None \<Rightarrow> load_keys tx rd keys book s1
                     | Some st \<Rightarrow> load_keys tx rd keys (book(e \<mapsto> st)) s1))))"

fun scan_loop ::
  "nat \<Rightarrow> status_text \<Rightarrow> 'r redis \<Rightarrow> u64 \<Rightarrow> (execution_id \<Rightarrow> pipeline_status option) \<Rightarrow> 'r \<Rightarrow>
   ((string + (execution_id \<Rightarrow> pipeline_status option)) \<times> 'r) option" where
  "scan_loop 0 tx rd cursor book s = None"
| "scan_loop (Suc pages) tx rd cursor book s =
     (case rd_scan rd cursor (status_prefix @ ''*'') 100 s of
        (Inl err, s1) \<Rightarrow> Some (Inl err, s1)
      | (Inr (new_cursor, keys), s1) \<Rightarrow>
          (case load_keys tx rd keys book s1 of
             (Inl err, s2) \<Rightarrow> Some (Inl err, s2)
           | (Inr book', s2) \<Rightarrow>
               if new_cursor = 0 then Some (Inr book', s2)
               else scan_loop pages tx rd new_cursor book' s2))"

definition StatusRegistry_new ::
  "nat \<Rightarrow> status_text \<Rightarrow> 'r redis \<Rightarrow> 'r \<Rightarrow> ((string + registry) \<times> 'r) option" where
  "StatusRegistry_new pages tx rd s =
     (case scan_loop pages tx rd 0 (\<lambda>_. None) s of
        None \<Rightarrow> None
      | Some (Inl err, s1) \<Rightarrow> Some (Inl err, s1)
      | Some (Inr book, s1) \<Rightarrow> Some (Inr \<lparr>status_book = book, spawned = []\<rparr>, s1))"


section \<open>The contract of a state store\<close>

text \<open>
  The trait \<open>StateStore\<close>: what a client of the three operations may rely on, and what follows for any
  sequence of them. An operation of a sequence is a write or a removal.
\<close>

datatype store_op = OpSet execution_id pipeline_status | OpRemove execution_id

fun op_id :: "store_op \<Rightarrow> execution_id" where
  "op_id (OpSet e st) = e"
| "op_id (OpRemove e) = e"

fun op_status :: "store_op \<Rightarrow> pipeline_status option" where
  "op_status (OpSet e st) = Some st"
| "op_status (OpRemove e) = None"

locale state_store =
  fixes set_op :: "execution_id \<Rightarrow> pipeline_status \<Rightarrow> 's \<Rightarrow> 's"
    and get_op :: "execution_id \<Rightarrow> 's \<Rightarrow> pipeline_status option"
    and remove_op :: "execution_id \<Rightarrow> 's \<Rightarrow> 's"
  assumes get_set: "get_op e' (set_op e st s) = (if e' = e then Some st else get_op e' s)"
    and get_remove: "get_op e' (remove_op e s) = (if e' = e then None else get_op e' s)"
begin

fun apply_op :: "store_op \<Rightarrow> 's \<Rightarrow> 's" where
  "apply_op (OpSet e st) s = set_op e st s"
| "apply_op (OpRemove e) s = remove_op e s"

lemma get_apply: "get_op e (apply_op p s) = (if e = op_id p then op_status p else get_op e s)"
  by (cases p) (simp_all add: get_set get_remove)

lemma get_after_ops:
  "get_op e (fold apply_op ops s) =
     (let ps = filter (\<lambda>p. op_id p = e) ops in if ps = [] then get_op e s else op_status (last ps))"
proof (induction ops arbitrary: s rule: rev_induct)
  case Nil
  then show ?case by simp
next
  case (snoc p ops)
  then show ?case by (simp add: get_apply Let_def)
qed

end

lemma registry_get_set [simp]:
  "registry_get e' (registry_set e st r) = (if e' = e then Some st else registry_get e' r)"
  by (simp add: registry_get_def registry_set_def)

lemma registry_get_remove [simp]:
  "registry_get e' (registry_remove e r) = (if e' = e then None else registry_get e' r)"
  by (simp add: registry_get_def registry_remove_def)

interpretation sr: state_store registry_set registry_get registry_remove
  by unfold_locales simp_all

text \<open>The operations of a sequence on the registry, at the top level.\<close>

fun registry_op :: "store_op \<Rightarrow> registry \<Rightarrow> registry" where
  "registry_op (OpSet e st) r = registry_set e st r"
| "registry_op (OpRemove e) r = registry_remove e r"

lemma registry_op_apply: "registry_op = sr.apply_op"
proof (intro ext)
  show "registry_op p r = sr.apply_op p r" for p r by (cases p) simp_all
qed

text \<open>
  After any sequence of writes and removals, a lookup returns the status of the last write to that execution,
  nothing when the last operation on it was a removal, and the old entry when there was none.
\<close>
theorem registry_reads_last_write:
  "registry_get e (fold registry_op ops r) =
     (let ps = filter (\<lambda>p. op_id p = e) ops in if ps = [] then registry_get e r else op_status (last ps))"
  unfolding registry_op_apply by (rule sr.get_after_ops)


section \<open>Restart\<close>

text \<open>
  What the service documents, for a server that answers. \<open>view\<close> reads the live keys off its state, each
  with its value and the seconds it has left, and \<open>pass n\<close> is the state \<open>n\<close> seconds later: a key whose time
  is up is gone. \<open>SETEX\<close> sets a value and its time, \<open>DEL\<close> removes one key, \<open>GET\<close> and \<open>SCAN\<close> change none,
  and an iteration of \<open>SCAN\<close> from cursor zero ends and returns every live key of the pattern.
  \<open>full_scan v c ks n\<close> is such an iteration from cursor \<open>c\<close>: \<open>n\<close> pages with the keys \<open>ks\<close>. The commands
  themselves take no time.
\<close>

type_synonym live_keys = "string \<Rightarrow> (string \<times> nat) option"

definition age_keys :: "nat \<Rightarrow> live_keys \<Rightarrow> live_keys" where
  "age_keys n v k = (case v k of None \<Rightarrow> None | Some (x, t) \<Rightarrow> if n < t then Some (x, t - n) else None)"

inductive full_scan ::
  "'r redis \<Rightarrow> ('r \<Rightarrow> live_keys) \<Rightarrow> live_keys \<Rightarrow> u64 \<Rightarrow> string list \<Rightarrow> nat \<Rightarrow> bool"
  for rd view v where
  last_page:
    "(\<And>s. view s = v \<Longrightarrow> \<exists>s'. rd_scan rd c (status_prefix @ ''*'') 100 s = (Inr (0, ks), s') \<and> view s' = v) \<Longrightarrow>
     full_scan rd view v c ks 1"
| more_pages:
    "(\<And>s. view s = v \<Longrightarrow> \<exists>s'. rd_scan rd c (status_prefix @ ''*'') 100 s = (Inr (c', ks), s') \<and> view s' = v) \<Longrightarrow>
     c' \<noteq> 0 \<Longrightarrow> full_scan rd view v c' ks' n \<Longrightarrow> full_scan rd view v c (ks @ ks') (Suc n)"

definition redis_up :: "'r redis \<Rightarrow> ('r \<Rightarrow> live_keys) \<Rightarrow> (nat \<Rightarrow> 'r \<Rightarrow> 'r) \<Rightarrow> bool" where
  "redis_up rd view pass \<longleftrightarrow>
     (\<forall>k x t s. 0 < t \<longrightarrow> view (snd (rd_set_ex rd k x t s)) = (view s)(k \<mapsto> (x, t))) \<and>
     (\<forall>k s. view (snd (rd_del rd k s)) = (view s)(k := None)) \<and>
     (\<forall>k s. \<exists>s'. rd_get rd k s = (Inr (map_option fst (view s k)), s') \<and> view s' = view s) \<and>
     (\<forall>v. finite (dom v) \<longrightarrow>
        (\<exists>ks n. full_scan rd view v 0 ks n \<and> set ks = {k \<in> dom v. starts_with status_prefix k})) \<and>
     (\<forall>n s. view (pass n s) = age_keys n (view s))"

definition text_ok :: "status_text \<Rightarrow> bool" where
  "text_ok tx \<longleftrightarrow>
     (\<forall>st. \<exists>j. to_json tx st = Some j \<and> from_json tx j = Some st) \<and> (\<forall>u. parse_uuid tx (show_uuid tx u) = Some u)"

definition status_key :: "status_text \<Rightarrow> execution_id \<Rightarrow> string" where
  "status_key tx e = status_prefix @ show_uuid tx e"

text \<open>A view whose status keys are those the registry writes, and the statuses it holds with the seconds left.\<close>

definition own_keys :: "status_text \<Rightarrow> live_keys \<Rightarrow> bool" where
  "own_keys tx v \<longleftrightarrow> finite (dom v) \<and> (\<forall>k \<in> dom v. starts_with status_prefix k \<longrightarrow> (\<exists>e. k = status_key tx e))"

definition held :: "status_text \<Rightarrow> live_keys \<Rightarrow> execution_id \<Rightarrow> (pipeline_status \<times> nat) option" where
  "held tx v e = (case v (status_key tx e) of None \<Rightarrow> None
     | Some (json, t) \<Rightarrow> map_option (\<lambda>st. (st, t)) (from_json tx json))"

definition stored :: "status_text \<Rightarrow> live_keys \<Rightarrow> execution_id \<Rightarrow> pipeline_status option" where
  "stored tx v e = map_option fst (held tx v e)"

lemma status_key_inject: "text_ok tx \<Longrightarrow> status_key tx e = status_key tx e' \<longleftrightarrow> e = e'"
  by (metis option.inject same_append_eq status_key_def text_ok_def)

lemma removed_key_differs: "''lobby:state:'' @ t \<noteq> status_key tx e" "\<not> starts_with status_prefix (''lobby:state:'' @ t)"
  by (simp_all add: status_key_def status_prefix_def starts_with_def)

lemma load_keys_spec:
  assumes "redis_up rd view pass" "text_ok tx" "view s = v" "\<forall>k \<in> set keys. \<exists>e. k = status_key tx e"
  shows "\<exists>s'. load_keys tx rd keys book s =
     (Inr (\<lambda>e. if status_key tx e \<in> set keys \<and> stored tx v e \<noteq> None
               then stored tx v e else book e), s') \<and> view s' = v"
  using assms(3,4)
proof (induction keys arbitrary: book s)
  case Nil
  then show ?case by simp
next
  case (Cons k keys)
  then obtain e where k: "k = status_key tx e" by auto
  obtain s1 where s1: "rd_get rd k s = (Inr (map_option fst (v k)), s1)" "view s1 = v"
    using assms(1) Cons.prems(1) by (auto simp: redis_up_def) metis
  have uuid: "parse_uuid tx (show_uuid tx e) = Some e" using assms(2) by (simp add: text_ok_def)
  define book1 where "book1 = (case stored tx v e of None \<Rightarrow> book | Some st \<Rightarrow> book(e \<mapsto> st))"
  have "load_keys tx rd (k # keys) book s = load_keys tx rd keys book1 s1"
    using s1(1) uuid by (auto simp: k stored_def held_def status_key_def book1_def split: option.splits)
  moreover obtain s' where "view s' = v" "load_keys tx rd keys book1 s1 =
     (Inr (\<lambda>e. if status_key tx e \<in> set keys \<and> stored tx v e \<noteq> None
               then stored tx v e else book1 e), s')"
    using Cons.IH [OF s1(2)] Cons.prems(2) by auto
  moreover have "book1 e' = (if e' = e \<and> stored tx v e \<noteq> None
      then stored tx v e else book e')" for e'
    by (simp add: book1_def split: option.splits)
  ultimately show ?case
    using status_key_inject [OF assms(2)] by (auto simp: k fun_eq_iff)
qed

lemma scan_loop_spec:
  assumes "full_scan rd view v c ks n" "redis_up rd view pass" "text_ok tx" "view s = v"
    and "\<forall>k \<in> set ks. \<exists>e. k = status_key tx e" "n \<le> pages"
  shows "\<exists>s'. scan_loop pages tx rd c book s =
     Some (Inr (\<lambda>e. if status_key tx e \<in> set ks \<and> stored tx v e \<noteq> None
               then stored tx v e else book e), s')"
  using assms(1,4,5,6)
proof (induction arbitrary: s book pages rule: full_scan.induct)
  case (last_page c ks)
  obtain s1 where "rd_scan rd c (status_prefix @ ''*'') 100 s = (Inr (0, ks), s1)" "view s1 = v"
    using last_page by blast
  moreover obtain p where "pages = Suc p" using last_page.prems(3) by (cases pages) auto
  ultimately show ?case
    using load_keys_spec [OF assms(2,3), of s1 v ks book] last_page.prems(2) by auto
next
  case (more_pages c c' ks ks' n)
  obtain s1 where s1: "rd_scan rd c (status_prefix @ ''*'') 100 s = (Inr (c', ks), s1)" "view s1 = v"
    using more_pages.hyps(1) more_pages.prems(1) by blast
  obtain p where p: "pages = Suc p" "n \<le> p" using more_pages.prems(3) by (cases pages) auto
  obtain s2 book1 where s2: "load_keys tx rd ks book s1 = (Inr book1, s2)" "view s2 = v"
    and book1: "book1 = (\<lambda>e. if status_key tx e \<in> set ks \<and> stored tx v e \<noteq> None
               then stored tx v e else book e)"
    using load_keys_spec [OF assms(2,3) s1(2), of ks book] more_pages.prems(2) by auto
  have "scan_loop pages tx rd c book s = scan_loop p tx rd c' book1 s2"
    using s1 s2 p more_pages.hyps(2) by simp
  then show ?case
    using more_pages.IH [OF s2(2) _ p(2), of book1] more_pages.prems(2) by (auto simp: book1 fun_eq_iff)
qed

lemma restart_reads_view:
  assumes "redis_up rd view pass" "text_ok tx" "own_keys tx (view s)"
  shows "\<exists>n. \<forall>pages \<ge> n. \<exists>r s'. StatusRegistry_new pages tx rd s = Some (Inr r, s') \<and>
     (\<forall>e. registry_get e r = stored tx (view s) e)"
proof -
  obtain ks n where scan: "full_scan rd view (view s) 0 ks n"
    and ks: "set ks = {k \<in> dom (view s). starts_with status_prefix k}"
    using assms(1,3) unfolding redis_up_def own_keys_def by blast
  have own: "\<forall>k \<in> set ks. \<exists>e. k = status_key tx e" using ks assms(3) by (auto simp: own_keys_def)
  have mem: "status_key tx e \<in> set ks" if "stored tx (view s) e \<noteq> None" for e
    using ks that by (auto simp: stored_def held_def status_key_def starts_with_def split: option.splits)
  have eq: "(\<lambda>e. if status_key tx e \<in> set ks \<and> stored tx (view s) e \<noteq> None then stored tx (view s) e else None) =
      stored tx (view s)"
    using mem by (intro ext) metis
  show ?thesis
  proof (intro exI [of _ n] allI impI)
    fix pages assume "n \<le> pages"
    then show "\<exists>r s'. StatusRegistry_new pages tx rd s = Some (Inr r, s') \<and>
        (\<forall>e. registry_get e r = stored tx (view s) e)"
      using scan_loop_spec [OF scan assms(1,2) refl own, of pages "\<lambda>_. None"]
      unfolding eq by (auto simp: StatusRegistry_new_def registry_get_def)
  qed
qed

fun task_of :: "store_op \<Rightarrow> redis_task" where
  "task_of (OpSet e st) = WriteStatus e st"
| "task_of (OpRemove e) = DeleteStatus e"

lemma spawned_ops: "spawned (fold registry_op ops r) = spawned r @ map task_of ops"
proof (induction ops arbitrary: r)
  case Nil
  then show ?case by simp
next
  case (Cons p ops)
  then show ?case by (cases p) (simp_all add: registry_set_def registry_remove_def)
qed

text \<open>
  The tasks as they reach the server, one after another in the order they were spawned, each with the
  seconds that pass after it.
\<close>

definition run_spawned ::
  "status_text \<Rightarrow> 'r redis \<Rightarrow> (nat \<Rightarrow> 'r \<Rightarrow> 'r) \<Rightarrow> (redis_task \<times> nat) list \<Rightarrow> 'r \<Rightarrow> 'r" where
  "run_spawned tx rd pass ts s = fold (\<lambda>(t, g) s. pass g (run_task tx rd t s)) ts s"

text \<open>The operations of a history with the seconds between each of them and the end, and the last write.\<close>

fun aged :: "('a \<times> nat) list \<Rightarrow> ('a \<times> nat) list" where
  "aged [] = []"
| "aged ((p, g) # h) = (p, g + sum_list (map snd h)) # aged h"

definition writes_of :: "execution_id \<Rightarrow> (store_op \<times> nat) list \<Rightarrow> (store_op \<times> nat) list" where
  "writes_of e h = filter (\<lambda>w. op_id (fst w) = e \<and> op_status (fst w) \<noteq> None) (aged h)"

definition surviving :: "execution_id \<Rightarrow> (store_op \<times> nat) list \<Rightarrow> (pipeline_status \<times> nat) option" where
  "surviving e h =
     (if writes_of e h = [] then None
      else case last (writes_of e h) of (p, age) \<Rightarrow>
        if age < 3600 then map_option (\<lambda>st. (st, 3600 - age)) (op_status p) else None)"

lemma aged_snoc: "aged (h @ [(p, g)]) = map (\<lambda>(q, age). (q, age + g)) (aged h) @ [(p, g)]"
  by (induction h rule: aged.induct) auto

lemma surviving_snoc:
  "surviving e (h @ [(p, g)]) =
     (case (if op_id p = e \<and> op_status p \<noteq> None then Some (the (op_status p), 3600) else surviving e h) of
        None \<Rightarrow> None | Some (st, t) \<Rightarrow> if g < t then Some (st, t - g) else None)"
proof -
  have "writes_of e (h @ [(p, g)]) = map (\<lambda>(q, age). (q, age + g)) (writes_of e h) @
      (if op_id p = e \<and> op_status p \<noteq> None then [(p, g)] else [])"
    by (auto simp: writes_of_def aged_snoc filter_map o_def case_prod_beta)
  then show ?thesis
    by (cases "writes_of e h = []") (auto simp: surviving_def last_map case_prod_beta split: option.splits)
qed

lemma held_age:
  "held tx (age_keys g v) e =
     (case held tx v e of None \<Rightarrow> None | Some (st, t) \<Rightarrow> if g < t then Some (st, t - g) else None)"
  by (auto simp: held_def age_keys_def split: option.splits)

lemma own_keys_age:
  assumes "own_keys tx v"
  shows "own_keys tx (age_keys g v)"
proof -
  have "dom (age_keys g v) \<subseteq> dom v" by (auto simp: age_keys_def split: option.splits)
  with assms show ?thesis by (auto simp: own_keys_def intro: finite_subset)
qed

lemma task_step:
  assumes "redis_up rd view pass" "text_ok tx"
  shows "own_keys tx (view s) \<Longrightarrow> own_keys tx (view (run_task tx rd (task_of p) s))"
    and "held tx (view (run_task tx rd (task_of p) s)) e =
      (if op_id p = e \<and> op_status p \<noteq> None then Some (the (op_status p), 3600) else held tx (view s) e)"
proof -
  have eff: "0 < t \<Longrightarrow> view (snd (rd_set_ex rd k x t s)) = (view s)(k \<mapsto> (x, t))"
    "view (snd (rd_del rd k s)) = (view s)(k := None)" for k x t s
    using assms(1) by (simp_all add: redis_up_def)
  have json: "\<exists>j. to_json tx st = Some j \<and> from_json tx j = Some st" for st
    using assms(2) by (simp add: text_ok_def)
  show "held tx (view (run_task tx rd (task_of p) s)) e =
      (if op_id p = e \<and> op_status p \<noteq> None then Some (the (op_status p), 3600) else held tx (view s) e)"
  proof (cases p)
    case (OpSet e' st)
    then show ?thesis
      using json [of st] status_key_inject [OF assms(2), of e' e]
      by (auto simp: run_set_task_def eff held_def simp flip: status_key_def)
  next
    case (OpRemove e')
    then show ?thesis
      using removed_key_differs(1) [of "show_uuid tx e'" tx e] by (simp add: run_remove_task_def eff held_def)
  qed
  show "own_keys tx (view (run_task tx rd (task_of p) s))" if "own_keys tx (view s)"
  proof (cases p)
    case (OpSet e' st)
    then show ?thesis
      using json [of st] that by (auto simp: run_set_task_def eff own_keys_def simp flip: status_key_def)
  next
    case (OpRemove e')
    have "finite (dom ((view s)(k := None)))" for k
      using that by (auto simp: own_keys_def intro: finite_subset [of _ "dom (view s)"])
    with OpRemove show ?thesis using that by (auto simp: run_remove_task_def eff own_keys_def split: if_splits)
  qed
qed

lemma history_effect:
  assumes "redis_up rd view pass" "text_ok tx" "own_keys tx (view s)" "\<forall>e. held tx (view s) e = None"
  defines "s' h \<equiv> run_spawned tx rd pass (map (\<lambda>(p, g). (task_of p, g)) h) s"
  shows "own_keys tx (view (s' h)) \<and> (\<forall>e. held tx (view (s' h)) e = surviving e h)"
proof (induction h rule: rev_induct)
  case Nil
  then show ?case using assms(3,4) by (simp add: s'_def run_spawned_def surviving_def writes_of_def)
next
  case (snoc pg h)
  obtain p g where pg: "pg = (p, g)" by fastforce
  have "view (s' (h @ [pg])) = age_keys g (view (run_task tx rd (task_of p) (s' h)))"
    using assms(1) by (simp add: s'_def run_spawned_def pg redis_up_def)
  then show ?case
    using snoc.IH task_step [OF assms(1,2)] own_keys_age
    by (auto simp: held_age surviving_snoc pg)
qed

text \<open>
  C22. A restart recovers, for every execution, the last status written to Redis, provided that write
  is less than an hour old at the restart, and nothing otherwise: entries live for the 3600 seconds
  the writer gives them. The history is any sequence of writes and removals with the seconds that pass
  after each; Redis answers and has applied the spawned tasks in order, and held no status before.
  A removal does not count: it deletes a key of another prefix, so an execution that was removed comes
  back with its last status as long as that has not expired.
\<close>
theorem restart_recovers_last_write:
  assumes "redis_up rd view pass" "text_ok tx" "own_keys tx (view s)"
    and "\<forall>k. starts_with status_prefix k \<longrightarrow> view s k = None"
    and "r = fold registry_op (map fst h) \<lparr>status_book = \<lambda>_. None, spawned = []\<rparr>"
  shows "\<exists>n. \<forall>pages \<ge> n. \<exists>r' s'.
     StatusRegistry_new pages tx rd (run_spawned tx rd pass (zip (spawned r) (map snd h)) s) = Some (Inr r', s') \<and>
     (\<forall>e. registry_get e r' =
        (let ws = writes_of e h in
         if ws \<noteq> [] \<and> snd (last ws) < 3600 then op_status (fst (last ws)) else None))"
proof -
  let ?ts = "map (\<lambda>(p, g). (task_of p, g)) h"
  let ?s = "run_spawned tx rd pass ?ts s"
  have none: "\<forall>e. held tx (view s) e = None"
    using assms(4) by (simp add: held_def status_key_def starts_with_def)
  have own: "own_keys tx (view ?s)" and held: "held tx (view ?s) e = surviving e h" for e
    using history_effect [OF assms(1-3) none, of h] by auto
  have "stored tx (view ?s) e =
      (let ws = writes_of e h in if ws \<noteq> [] \<and> snd (last ws) < 3600 then op_status (fst (last ws)) else None)" for e
    by (auto simp: stored_def held surviving_def Let_def case_prod_beta option.map_comp o_def option.map_ident)
  moreover have "zip (spawned r) (map snd h) = ?ts"
    using spawned_ops [of "map fst h"] assms(5) by (simp add: zip_map_map zip_same_conv_map case_prod_beta')
  ultimately show ?thesis using restart_reads_view [OF assms(1,2) own] by simp
qed


section \<open>Witness\<close>

text \<open>
  A store in memory whose scan returns every key in one page, and a reversible text of the statuses: a letter
  for the constructor and, for two fields, the length of the first in unary before them.
\<close>

definition sample_redis :: "(string, string \<times> nat) fmap redis" where
  "sample_redis =
     \<lparr>rd_set_ex = (\<lambda>k x t s. (Inr (), fmupd k (x, t) s)), rd_del = (\<lambda>k s. (Inr (), fmdrop k s)),
      rd_get = (\<lambda>k s. (Inr (map_option fst (fmlookup s k)), s)),
      rd_scan = (\<lambda>c pat n s. (Inr (0, filter (starts_with status_prefix) (sorted_list_of_fset (fmdom s))), s))\<rparr>"

definition sample_pass :: "nat \<Rightarrow> (string, string \<times> nat) fmap \<Rightarrow> (string, string \<times> nat) fmap" where
  "sample_pass n m = fmmap (\<lambda>(x, t). (x, t - n))
     (fmfilter (\<lambda>k. case fmlookup m k of None \<Rightarrow> False | Some (x, t) \<Rightarrow> n < t) m)"

definition pack2 :: "string \<Rightarrow> string \<Rightarrow> string" where
  "pack2 a b = replicate (length a) CHR ''1'' @ CHR ''0'' # a @ b"

definition unpack2 :: "string \<Rightarrow> string \<times> string" where
  "unpack2 s = (let n = length (takeWhile (\<lambda>c. c = CHR ''1'') s); t = drop (Suc n) s in (take n t, drop n t))"

lemma unpack2_pack2: "unpack2 (pack2 a b) = (a, b)"
proof -
  have "takeWhile (\<lambda>c. c = CHR ''1'') (replicate (length a) CHR ''1'' @ CHR ''0'' # a @ b) = replicate (length a) CHR ''1''"
    by (subst takeWhile_append2) auto
  then show ?thesis by (simp add: unpack2_def pack2_def)
qed

definition nonce_text :: "tx_nonce \<Rightarrow> string" where
  "nonce_text n = show_nat (unat (nonce_u256 n))"

definition nonce_of_text :: "string \<Rightarrow> tx_nonce" where
  "nonce_of_text s = TxNonce (case read_digits dec_digit 10 0 s of None \<Rightarrow> 0 | Some n \<Rightarrow> of_nat n)"

fun sample_to_json :: "pipeline_status \<Rightarrow> string" where
  "sample_to_json PermitAquired = ''p''"
| "sample_to_json Accepted = ''a''"
| "sample_to_json NonceReserved = ''n''"
| "sample_to_json Signed = ''s''"
| "sample_to_json (Broadcasted h m) = CHR ''b'' # pack2 h m"
| "sample_to_json (ConfirmedOnChain h) = CHR ''c'' # h"
| "sample_to_json (Failed st why) = CHR ''f'' # pack2 st why"
| "sample_to_json (NonceMismatchDetected x y) = CHR ''m'' # pack2 (nonce_text x) (nonce_text y)"
| "sample_to_json (ValidatorTimedOut m) = CHR ''t'' # m"

fun sample_from_json :: "string \<Rightarrow> pipeline_status option" where
  "sample_from_json [] = None"
| "sample_from_json (c # s) =
     (if c = CHR ''p'' then Some PermitAquired else if c = CHR ''a'' then Some Accepted
      else if c = CHR ''n'' then Some NonceReserved else if c = CHR ''s'' then Some Signed
      else if c = CHR ''b'' then Some (case unpack2 s of (x, y) \<Rightarrow> Broadcasted x y)
      else if c = CHR ''c'' then Some (ConfirmedOnChain s)
      else if c = CHR ''f'' then Some (case unpack2 s of (x, y) \<Rightarrow> Failed x y)
      else if c = CHR ''m'' then
        Some (case unpack2 s of (x, y) \<Rightarrow> NonceMismatchDetected (nonce_of_text x) (nonce_of_text y))
      else if c = CHR ''t'' then Some (ValidatorTimedOut s) else None)"

definition sample_status_text :: status_text where
  "sample_status_text =
     \<lparr>to_json = (\<lambda>st. Some (sample_to_json st)), from_json = sample_from_json,
      show_uuid = (\<lambda>u. show_nat (unat u)),
      parse_uuid = (\<lambda>t. map_option of_nat (read_digits dec_digit 10 0 t))\<rparr>"

lemma nonce_text_inverse: "nonce_of_text (nonce_text n) = n"
  by (cases n) (simp add: nonce_of_text_def nonce_text_def read_show_nat)

lemma sample_status_text_ok: "text_ok sample_status_text"
proof -
  have "sample_from_json (sample_to_json st) = Some st" for st
    by (cases st) (simp_all add: unpack2_pack2 nonce_text_inverse)
  then show ?thesis by (simp add: text_ok_def sample_status_text_def read_show_nat)
qed

lemma sample_redis_up: "redis_up sample_redis fmlookup sample_pass"
proof -
  have "full_scan sample_redis fmlookup (fmlookup m) 0 (filter (starts_with status_prefix) (sorted_list_of_fset (fmdom m))) 1"
    for m
    by (rule last_page) (simp add: sample_redis_def fmlookup_inject)
  moreover have "\<exists>m. v = fmlookup m" if "finite (dom v)" for v :: live_keys
    using that by (metis fmlookup_cases mem_Collect_eq)
  ultimately have "\<exists>ks n. full_scan sample_redis fmlookup v 0 ks n \<and> set ks = {k \<in> dom v. starts_with status_prefix k}"
    if "finite (dom v)" for v
    using that by (fastforce simp: fmlookup_dom_iff)
  moreover have "fmlookup (sample_pass n m) = age_keys n (fmlookup m)" for n m
    by (auto simp: sample_pass_def age_keys_def fun_eq_iff split: option.splits)
  ultimately show ?thesis by (auto simp: redis_up_def sample_redis_def fun_eq_iff)
qed

text \<open>
  Execution 4 is written an hour before the restart, execution 5 ten seconds before it, and 5 is then removed.
\<close>

definition sample_history :: "(store_op \<times> nat) list" where
  "sample_history = [(OpSet 4 Accepted, 3590), (OpSet 5 Signed, 3), (OpRemove 5, 7)]"

theorem restart_recovers_last_write_witness:
  "\<exists>n. \<forall>pages \<ge> n. \<exists>r' s'.
     StatusRegistry_new pages sample_status_text sample_redis
       (run_spawned sample_status_text sample_redis sample_pass
         (zip (spawned (fold registry_op (map fst sample_history) \<lparr>status_book = \<lambda>_. None, spawned = []\<rparr>))
           (map snd sample_history)) fmempty) =
       Some (Inr r', s') \<and>
     registry_get 4 r' = None \<and> registry_get 5 r' = Some Signed"
proof -
  have ws: "writes_of 4 sample_history = [(OpSet 4 Accepted, 3600)]"
    "writes_of 5 sample_history = [(OpSet 5 Signed, 10)]"
    by (simp_all add: writes_of_def sample_history_def)
  have own: "own_keys sample_status_text (fmlookup fmempty)"
    "\<forall>k. starts_with status_prefix k \<longrightarrow> fmlookup fmempty k = None"
    by (simp_all add: own_keys_def)
  from restart_recovers_last_write [OF sample_redis_up sample_status_text_ok own refl, of sample_history]
  obtain n where n: "\<forall>pages \<ge> n. \<exists>r' s'.
     StatusRegistry_new pages sample_status_text sample_redis
       (run_spawned sample_status_text sample_redis sample_pass
         (zip (spawned (fold registry_op (map fst sample_history) \<lparr>status_book = \<lambda>_. None, spawned = []\<rparr>))
           (map snd sample_history)) fmempty) = Some (Inr r', s') \<and>
     (\<forall>e. registry_get e r' = (let ws = writes_of e sample_history in
        if ws \<noteq> [] \<and> snd (last ws) < 3600 then op_status (fst (last ws)) else None))"
    by blast
  have "registry_get 4 r' = None \<and> registry_get 5 r' = Some Signed"
    if "\<forall>e. registry_get e r' = (let ws = writes_of e sample_history in
        if ws \<noteq> [] \<and> snd (last ws) < 3600 then op_status (fst (last ws)) else None)" for r'
    using that ws by simp
  with n show ?thesis by blast
qed

end
