(* ===== verification/Pipeline.thy ===== *)
theory Pipeline
  imports Retry Cortex_Error Shard_Pool Status_Registry
begin

text \<open>
  The pipeline of one execution, \<^verbatim>\<open>crate/cortex/src/pipeline.rs\<close>, over the actor traits of
  \<^verbatim>\<open>crate/primitives/src/traits.rs\<close>. The traits are records of operations on a state \<open>'s\<close> that the actors
  share; the pipeline runs over that state and the status registry. An early \<open>return\<close> and a panic end
  the task: they are the errors of its programs. Logging is left out; the telemetry, which
  the default build does not compile, is in theory \<^verbatim>\<open>Telemetry\<close>.
\<close>

section \<open>The actor traits\<close>

record 's intent_relay =
  register_transaction ::
    "execution_id \<Rightarrow> eip1559_transaction \<Rightarrow> client_config \<Rightarrow> ('s, relay_host_error, unit) sprog"

record 's nonce_manager =
  nm_reserve :: "chain_id \<Rightarrow> address \<Rightarrow> execution_id \<Rightarrow> ('s, local_error, tx_nonce) sprog"
  nm_resolve :: "execution_id \<Rightarrow> nonce_state \<Rightarrow> ('s, local_error, unit) sprog"
  nm_sync :: "chain_id \<Rightarrow> address \<Rightarrow> execution_id \<Rightarrow> tx_nonce \<Rightarrow> ('s, local_error, tx_nonce) sprog"

record 's signer =
  sn_sign :: "chain_id \<Rightarrow> address \<Rightarrow> execution_id \<Rightarrow> eip1559_transaction \<Rightarrow> ('s, local_error, signed_transaction) sprog"
  sn_revert :: "execution_id \<Rightarrow> ('s, local_error, unit) sprog"

record 's broadcaster =
  br_broadcast ::
    "chain_id \<Rightarrow> address \<Rightarrow> execution_id \<Rightarrow> signed_transaction \<Rightarrow> nat \<Rightarrow> ('s, broadcast_error, broadcast_outcome) sprog"

record 's validator =
  vd_validate :: "chain_id \<Rightarrow> execution_id \<Rightarrow> tx_hash \<Rightarrow> nat \<Rightarrow> ('s, validator_error, validator_outcome) sprog"


section \<open>The context\<close>

record 's pipeline_context =
  ctx_execution_id :: execution_id
  ctx_client_config :: client_config
  ctx_txn :: eip1559_transaction
  relayhost_pool :: "'s intent_relay shard_pool"
  nonce_pool :: "'s nonce_manager shard_pool"
  sign_pool :: "'s signer shard_pool"
  broadcast_pool :: "'s broadcaster shard_pool"
  validator_pool :: "'s validator shard_pool"
  ctx_retry_config :: retry_config
  ctx_acquire_endpoint :: "chain_id \<Rightarrow> duration \<Rightarrow> ('s, lobby_rpc_error, nat option) sprog"

text \<open>What the process provides to every task: the runtime, the hasher and the foreign texts.\<close>

record 's host =
  host_runtime :: "'s runtime"
  host_hasher :: hasher
  host_text :: crate_text

datatype exit = Returned | Panicked string

type_synonym ('s, 'a) task = "('s \<times> registry, exit, 'a) sprog"

definition route :: "'s host \<Rightarrow> 'h shard_pool \<Rightarrow> routing_key \<Rightarrow> ('s, 'h) task" where
  "route host pool key =
     (case ShardPool_get (host_hasher host) pool key of Panic m \<Rightarrow> throw (Panicked m) | Done h \<Rightarrow> ret h)"

definition awaited :: "('s, 'e, 'a) sprog \<Rightarrow> ('s, 'e + 'a) task" where
  "awaited m w = (case m (fst w) of (r, s') \<Rightarrow> (Inr r, (s', snd w)))"

definition retried :: "'s host \<Rightarrow> retry_config \<Rightarrow> ('s, 'e retry_decision, 'a) sprog \<Rightarrow> ('s, 'e + 'a) task" where
  "retried host cfg operation w =
     (case retry_with_backoff (host_runtime host) cfg operation (fst w) of
        (Inl m, s') \<Rightarrow> (Inl (Panicked m), (s', snd w))
      | (Inr r, s') \<Rightarrow> (Inr r, (s', snd w)))"

definition set_status :: "execution_id \<Rightarrow> pipeline_status \<Rightarrow> ('s, unit) task" where
  "set_status e st w = (Inr (), (fst w, registry_set e st (snd w)))"


section \<open>Helpers\<close>

definition release_nonce :: "'s host \<Rightarrow> 's nonce_manager \<Rightarrow> execution_id \<Rightarrow> retry_config \<Rightarrow> ('s, unit) task" where
  "release_nonce host nh e cfg =
     andThen (retried host cfg (map_error Retry (nm_resolve nh e N_Released))) (\<lambda>_. ret ())"

definition revert_sign :: "'s host \<Rightarrow> 's signer \<Rightarrow> execution_id \<Rightarrow> retry_config \<Rightarrow> ('s, unit) task" where
  "revert_sign host sh e cfg =
     andThen (retried host cfg (map_error Retry (sn_revert sh e))) (\<lambda>_. ret ())"

definition finalise_nonce :: "'s host \<Rightarrow> 's nonce_manager \<Rightarrow> execution_id \<Rightarrow> retry_config \<Rightarrow> ('s, unit) task" where
  "finalise_nonce host nh e cfg =
     andThen (retried host cfg (map_error Retry (nm_resolve nh e N_Finalized))) (\<lambda>_. ret ())"

definition consume_nonce :: "'s host \<Rightarrow> 's nonce_manager \<Rightarrow> execution_id \<Rightarrow> retry_config \<Rightarrow> ('s, unit) task" where
  "consume_nonce host nh e cfg =
     andThen (retried host cfg (map_error Retry (nm_resolve nh e N_Consumed))) (\<lambda>_. ret ())"

definition record_faliure :: "'s host \<Rightarrow> execution_id \<Rightarrow> cortex_error \<Rightarrow> ('s, unit) task" where
  "record_faliure host e err = set_status e (Failed (stage err) (show_cortex_error (host_text host) err))"

text \<open>\<open>record_faliure(..); return\<close>, alone and after the nonce has been released.\<close>

definition hard_fail :: "'s host \<Rightarrow> execution_id \<Rightarrow> cortex_error \<Rightarrow> ('s, 'a) task" where
  "hard_fail host e err = andThen (record_faliure host e err) (\<lambda>_. throw Returned)"

definition release_and_fail ::
  "'s host \<Rightarrow> 's nonce_manager \<Rightarrow> execution_id \<Rightarrow> retry_config \<Rightarrow> cortex_error \<Rightarrow> ('s, 'a) task" where
  "release_and_fail host nh e cfg err = andThen (release_nonce host nh e cfg) (\<lambda>_. hard_fail host e err)"


section \<open>The stages\<close>

definition relay_stage :: "'s host \<Rightarrow> 's pipeline_context \<Rightarrow> ('s, unit) task" where
  "relay_stage host ctx =
     (let e = ctx_execution_id ctx in
      andThen (route host (relayhost_pool ctx) (ByExecutionId e)) (\<lambda>rh.
      andThen (retried host (ctx_retry_config ctx)
                 (map_error Retry (register_transaction rh e (ctx_txn ctx) (ctx_client_config ctx)))) (\<lambda>rh_result.
        case rh_result of
          Inl err \<Rightarrow> hard_fail host e (Cortex_RelayHost err)
        | Inr _ \<Rightarrow> set_status e Accepted)))"

definition nonce_stage :: "'s host \<Rightarrow> 's pipeline_context \<Rightarrow> ('s, 's nonce_manager \<times> tx_nonce) task" where
  "nonce_stage host ctx =
     (let e = ctx_execution_id ctx; a = from_address (ctx_client_config ctx); c = chain_id (ctx_txn ctx) in
      andThen (route host (nonce_pool ctx) (ByAddress a)) (\<lambda>nh.
      andThen (retried host (ctx_retry_config ctx) (map_error Retry (nm_reserve nh c a e))) (\<lambda>r.
        case r of
          Inl err \<Rightarrow> hard_fail host e (Cortex_NonceReservation err)
        | Inr n \<Rightarrow> andThen (set_status e NonceReserved) (\<lambda>_. ret (nh, n)))))"

definition sign_stage ::
  "'s host \<Rightarrow> 's pipeline_context \<Rightarrow> 's nonce_manager \<Rightarrow> eip1559_transaction \<Rightarrow>
   ('s, 's signer \<times> signed_transaction) task" where
  "sign_stage host ctx nh txn =
     (let e = ctx_execution_id ctx; a = from_address (ctx_client_config ctx); c = chain_id (ctx_txn ctx) in
      andThen (route host (sign_pool ctx) (ByExecutionId e)) (\<lambda>sh.
      andThen (retried host (ctx_retry_config ctx) (map_error Retry (sn_sign sh c a e txn))) (\<lambda>r.
        case r of
          Inl err \<Rightarrow> release_and_fail host nh e (ctx_retry_config ctx) (Cortex_Sign err)
        | Inr s \<Rightarrow> andThen (set_status e Signed) (\<lambda>_. ret (sh, s)))))"

definition endpoint_timeout :: duration where
  "endpoint_timeout = 30000000"

definition endpoint_stage :: "'s host \<Rightarrow> 's pipeline_context \<Rightarrow> 's nonce_manager \<Rightarrow> ('s, nat) task" where
  "endpoint_stage host ctx nh =
     (let e = ctx_execution_id ctx; c = chain_id (ctx_txn ctx) in
      andThen (awaited (ctx_acquire_endpoint ctx c endpoint_timeout)) (\<lambda>r.
        case r of
          Inr (Some index) \<Rightarrow> ret index
        | Inr None \<Rightarrow>
            release_and_fail host nh e (ctx_retry_config ctx) (NoHealthyRpcProvider (NoEndpointsAvailable c))
        | Inl err \<Rightarrow> release_and_fail host nh e (ctx_retry_config ctx) (EndpointPoolFailed err)))"

definition classify_broadcast :: "broadcast_error \<Rightarrow> broadcast_error retry_decision" where
  "classify_broadcast err =
     (case err of
        Broadcast_NonceTooLow n a \<Rightarrow> FailImmediately (Broadcast_NonceTooLow n a)
      | Broadcast_MissingProvider c \<Rightarrow> FailImmediately (Broadcast_MissingProvider c)
      | e \<Rightarrow> Retry e)"

definition broadcast_attempt ::
  "'s host \<Rightarrow> 's pipeline_context \<Rightarrow> 's broadcaster \<Rightarrow> nat \<Rightarrow> signed_transaction \<Rightarrow>
   ('s, broadcast_error + broadcast_outcome) task" where
  "broadcast_attempt host ctx bh sticky s =
     retried host (ctx_retry_config ctx)
       (map_error classify_broadcast
         (br_broadcast bh (chain_id (ctx_txn ctx)) (from_address (ctx_client_config ctx)) (ctx_execution_id ctx) s sticky))"

definition recover_nonce ::
  "'s host \<Rightarrow> 's pipeline_context \<Rightarrow> 's nonce_manager \<Rightarrow> 's signer \<Rightarrow> eip1559_transaction \<Rightarrow> tx_nonce \<Rightarrow> tx_nonce \<Rightarrow>
   ('s, eip1559_transaction \<times> signed_transaction) task" where
  "recover_nonce host ctx nh sh txn nonce_on_chain attempted_nonce =
     (let e = ctx_execution_id ctx; a = from_address (ctx_client_config ctx); c = chain_id (ctx_txn ctx);
          cfg = ctx_retry_config ctx in
      andThen (set_status e (NonceMismatchDetected nonce_on_chain attempted_nonce)) (\<lambda>_.
      andThen (consume_nonce host nh e cfg) (\<lambda>_.
      andThen (revert_sign host sh e cfg) (\<lambda>_.
      andThen (retried host cfg (map_error Retry (nm_sync nh c a e nonce_on_chain))) (\<lambda>r.
        case r of
          Inl err \<Rightarrow> hard_fail host e (Cortex_NonceSync err)
        | Inr corrected_nonce \<Rightarrow>
            andThen (set_status e NonceReserved) (\<lambda>_.
            let txn' = txn\<lparr>nonce := corrected_nonce\<rparr> in
            andThen (retried host cfg (map_error Retry (sn_sign sh c a e txn'))) (\<lambda>r.
              case r of
                Inl err \<Rightarrow> release_and_fail host nh e cfg (Cortex_ReSign err)
              | Inr s \<Rightarrow> andThen (set_status e Signed) (\<lambda>_. ret (txn', s)))))))))"

definition broadcast_failed ::
  "'s host \<Rightarrow> 's pipeline_context \<Rightarrow> 's nonce_manager \<Rightarrow> broadcast_error \<Rightarrow> ('s, 'a) task" where
  "broadcast_failed host ctx nh err =
     (let e = ctx_execution_id ctx; cfg = ctx_retry_config ctx in
      case err of
        Broadcast_MissingProvider c \<Rightarrow>
          release_and_fail host nh e cfg (Cortex_Broadcast (Broadcast_MissingProvider c))
      | Broadcast_Internal m \<Rightarrow> hard_fail host e (Cortex_Broadcast err)
      | Broadcast_DatabaseError m \<Rightarrow> hard_fail host e (Cortex_Broadcast err)
      | Broadcast_Invariant m \<Rightarrow> hard_fail host e (Cortex_Broadcast err)
      | _ \<Rightarrow> release_and_fail host nh e cfg (Cortex_Broadcast err))"

text \<open>The \<open>loop\<close> around the broadcast; the flag is \<open>nonce_retry_attempted\<close>.\<close>

function broadcast_loop ::
  "'s host \<Rightarrow> 's pipeline_context \<Rightarrow> 's nonce_manager \<Rightarrow> 's signer \<Rightarrow> 's broadcaster \<Rightarrow> nat \<Rightarrow> bool \<Rightarrow>
   eip1559_transaction \<Rightarrow> signed_transaction \<Rightarrow> ('s, broadcast_outcome) task" where
  "broadcast_loop host ctx nh sh bh sticky nonce_retry_attempted txn s =
     andThen (broadcast_attempt host ctx bh sticky s) (\<lambda>r.
       case r of
         Inr outcome \<Rightarrow> ret outcome
       | Inl (Broadcast_NonceTooLow nonce_on_chain attempted_nonce) \<Rightarrow>
           (if nonce_retry_attempted then
              release_and_fail host nh (ctx_execution_id ctx) (ctx_retry_config ctx)
                (Cortex_Broadcast (Broadcast_NonceTooLow nonce_on_chain attempted_nonce))
            else
              andThen (recover_nonce host ctx nh sh txn nonce_on_chain attempted_nonce) (\<lambda>(txn', s').
                broadcast_loop host ctx nh sh bh sticky True txn' s'))
       | Inl err \<Rightarrow> broadcast_failed host ctx nh err)"
  by pat_completeness auto

termination
  by (relation "measure (\<lambda>(host, ctx, nh, sh, bh, sticky, attempted, txn, s). if attempted then 0 else 1)") auto

declare broadcast_loop.simps [simp del]

definition broadcast_stage ::
  "'s host \<Rightarrow> 's pipeline_context \<Rightarrow> 's nonce_manager \<Rightarrow> 's signer \<Rightarrow> nat \<Rightarrow> eip1559_transaction \<Rightarrow> signed_transaction \<Rightarrow>
   ('s, tx_hash) task" where
  "broadcast_stage host ctx nh sh sticky txn s =
     (let e = ctx_execution_id ctx in
      andThen (route host (broadcast_pool ctx) (ByExecutionId e)) (\<lambda>bh.
      andThen (broadcast_loop host ctx nh sh bh sticky False txn s) (\<lambda>outcome.
      andThen (set_status e (Broadcasted (hex_hash (host_text host) (txn_hash outcome))
                ''Waiting for validation on-chain'')) (\<lambda>_. ret (txn_hash outcome)))))"

definition settle_validation ::
  "'s host \<Rightarrow> 's pipeline_context \<Rightarrow> 's nonce_manager \<Rightarrow> tx_hash \<Rightarrow> validator_outcome \<Rightarrow> ('s, unit) task" where
  "settle_validation host ctx nh h validation =
     (let e = ctx_execution_id ctx; cfg = ctx_retry_config ctx; hex = hex_hash (host_text host) h in
      case validation of
        Included block_number confirmations \<Rightarrow>
          andThen (finalise_nonce host nh e cfg) (\<lambda>_. set_status e (ConfirmedOnChain hex))
      | NotIncluded \<Rightarrow>
          andThen (release_nonce host nh e cfg) (\<lambda>_.
            set_status e (Failed ''validator'' (''tx '' @ hex @ '' not included on-chain'')))
      | Timeout \<Rightarrow>
          andThen (consume_nonce host nh e cfg) (\<lambda>_.
            set_status e (ValidatorTimedOut ''validator timed out, wait for confirmation'')))"

text \<open>The validator is routed by the chain; the build for the benchmark routes by the execution.\<close>

definition validate_routed ::
  "'s host \<Rightarrow> 's pipeline_context \<Rightarrow> routing_key \<Rightarrow> 's nonce_manager \<Rightarrow> nat \<Rightarrow> tx_hash \<Rightarrow> ('s, unit) task" where
  "validate_routed host ctx key nh sticky h =
     (let e = ctx_execution_id ctx; cfg = ctx_retry_config ctx; c = chain_id (ctx_txn ctx) in
      andThen (route host (validator_pool ctx) key) (\<lambda>vh.
      andThen (awaited (vd_validate vh c e h sticky)) (\<lambda>r.
        case r of
          Inr outcome \<Rightarrow> settle_validation host ctx nh h outcome
        | Inl err \<Rightarrow>
            (case err of
               Validator_Database m \<Rightarrow> hard_fail host e (Cortex_Validator err)
             | Validator_Internal m \<Rightarrow> hard_fail host e (Cortex_Validator err)
             | _ \<Rightarrow> release_and_fail host nh e cfg (Cortex_Validator err)))))"

definition validator_stage ::
  "'s host \<Rightarrow> 's pipeline_context \<Rightarrow> 's nonce_manager \<Rightarrow> nat \<Rightarrow> tx_hash \<Rightarrow> ('s, unit) task" where
  "validator_stage host ctx nh sticky h =
     validate_routed host ctx (ByChainId (chain_id (ctx_txn ctx))) nh sticky h"

definition pipeline_body :: "'s host \<Rightarrow> 's pipeline_context \<Rightarrow> ('s, unit) task" where
  "pipeline_body host ctx =
     andThen (relay_stage host ctx) (\<lambda>_.
     andThen (nonce_stage host ctx) (\<lambda>(nh, n).
     let txn = (ctx_txn ctx)\<lparr>nonce := n\<rparr> in
     andThen (sign_stage host ctx nh txn) (\<lambda>(sh, s).
     andThen (endpoint_stage host ctx nh) (\<lambda>sticky_index.
     andThen (broadcast_stage host ctx nh sh sticky_index txn s) (\<lambda>h.
       validator_stage host ctx nh sticky_index h)))))"

definition run_pipeline :: "'s host \<Rightarrow> 's pipeline_context \<Rightarrow> 's \<times> registry \<Rightarrow> unit run \<times> 's \<times> registry" where
  "run_pipeline host ctx w =
     (case pipeline_body host ctx w of
        (Inl (Panicked m), w') \<Rightarrow> (Panic m, w')
      | (_, w') \<Rightarrow> (Done (), w'))"


section \<open>Reasoning about tasks\<close>

text \<open>
  \<open>wp m Q E w\<close>: from \<open>w\<close> the task does not panic, satisfies \<open>Q\<close> when it goes on and \<open>E\<close> when it returns
  early. Total correctness: every task is a total function.
\<close>

definition wp ::
  "('s, 'a) task \<Rightarrow> ('a \<Rightarrow> 's \<times> registry \<Rightarrow> bool) \<Rightarrow> ('s \<times> registry \<Rightarrow> bool) \<Rightarrow> 's \<times> registry \<Rightarrow> bool" where
  "wp m Q E w \<longleftrightarrow>
     (case m w of (Inr x, w') \<Rightarrow> Q x w' | (Inl Returned, w') \<Rightarrow> E w' | (Inl (Panicked msg), w') \<Rightarrow> False)"

lemma wp_andThen [simp]: "wp (andThen m k) Q E = wp m (\<lambda>x. wp (k x) Q E) E"
  by (simp add: fun_eq_iff wp_def andThen_def split: prod.splits sum.splits exit.splits)

lemma wp_ret [simp]: "wp (ret x) Q E = Q x"
  by (simp add: fun_eq_iff wp_def ret_def)

lemma wp_throw [simp]: "wp (throw Returned) Q E = E"
  by (simp add: fun_eq_iff wp_def throw_def)

lemma wp_set_status [simp]: "wp (set_status e st) Q E = (\<lambda>w. Q () (fst w, registry_set e st (snd w)))"
  by (simp add: fun_eq_iff wp_def set_status_def)

lemma wp_awaited [simp]: "wp (awaited m) Q E = (\<lambda>w. Q (fst (m (fst w))) (snd (m (fst w)), snd w))"
  by (simp add: fun_eq_iff wp_def awaited_def split: prod.splits)

lemma wp_mono: "wp m Q E w \<Longrightarrow> (\<And>x w'. Q x w' \<Longrightarrow> Q' x w') \<Longrightarrow> (\<And>w'. E w' \<Longrightarrow> E' w') \<Longrightarrow> wp m Q' E' w"
  by (auto simp: wp_def split: prod.splits sum.splits exit.splits)

lemma wp_route:
  "shards pool \<noteq> [] \<Longrightarrow> (\<And>h. h \<in> set (shards pool) \<Longrightarrow> Q h w) \<Longrightarrow> wp (route host pool key) Q E w"
  by (simp add: route_def ShardPool_get_Done)

lemma wp_retried:
  assumes "max_attempts cfg \<noteq> - 1"
    and "\<And>s0. Q (strip_decision (fst (operation s0))) (snd (operation s0), snd w)"
  shows "wp (retried host cfg operation) Q E w"
proof -
  obtain s0 where "retry_with_backoff (host_runtime host) cfg operation (fst w) =
      (Inr (strip_decision (fst (operation s0))), snd (operation s0))"
    by (rule retry_result [OF assms(1)])
  with assms(2) [of s0] show ?thesis by (simp add: wp_def retried_def)
qed

lemma strip_map_error: "strip_decision (fst (map_error Retry m s)) = fst (m s)" "snd (map_error f m s) = snd (m s)"
  by (simp_all add: strip_decision_def map_error_def split: prod.splits sum.splits)

lemma wp_retry_op:
  assumes "max_attempts cfg \<noteq> - 1" "\<And>r s0 s'. m s0 = (r, s') \<Longrightarrow> Q r (s', snd w)"
  shows "wp (retried host cfg (map_error Retry m)) Q E w"
proof (rule wp_retried [OF assms(1)])
  show "Q (strip_decision (fst (map_error Retry m s0))) (snd (map_error Retry m s0), snd w)" for s0
    using assms(2) [of s0 "fst (m s0)" "snd (m s0)"] by (simp add: strip_map_error)
qed

lemma strip_classify: "strip_decision (fst (map_error classify_broadcast m s)) = fst (m s)"
  by (auto simp: strip_decision_def map_error_def classify_broadcast_def split: prod.splits sum.splits broadcast_error.splits)

lemma wp_broadcast_attempt:
  assumes "max_attempts (ctx_retry_config ctx) \<noteq> - 1"
    and "\<And>r s0 s'. br_broadcast bh (chain_id (ctx_txn ctx)) (from_address (ctx_client_config ctx)) (ctx_execution_id ctx) s sticky s0 = (r, s') \<Longrightarrow>
      Q r (s', snd w)"
  shows "wp (broadcast_attempt host ctx bh sticky s) Q E w"
  unfolding broadcast_attempt_def
proof (rule wp_retried [OF assms(1)])
  let ?m = "br_broadcast bh (chain_id (ctx_txn ctx)) (from_address (ctx_client_config ctx)) (ctx_execution_id ctx) s sticky"
  show "Q (strip_decision (fst (map_error classify_broadcast ?m s0))) (snd (map_error classify_broadcast ?m s0), snd w)" for s0
    using assms(2) [of s0 "fst (?m s0)" "snd (?m s0)"] by (simp add: strip_map_error strip_classify)
qed

text \<open>The helpers that resolve the nonce or revert the signature never end the task, whatever the actor answers.\<close>

lemma wp_helpers:
  fixes host :: "'s host"
  assumes "max_attempts cfg \<noteq> - 1" "\<And>s'. Q () (s', snd w)"
  shows "wp (release_nonce host nh e cfg) Q E w" "wp (consume_nonce host nh e cfg) Q E w"
    "wp (finalise_nonce host nh e cfg) Q E w" "wp (revert_sign host sh e cfg) Q E w"
proof -
  have "wp (andThen (retried host cfg (map_error Retry m)) (\<lambda>_. ret ())) Q E w" for m :: "('s, local_error, unit) sprog"
    using wp_retry_op [OF assms(1), of m "\<lambda>_. Q ()" w host E] assms(2) by simp
  then show "wp (release_nonce host nh e cfg) Q E w" "wp (consume_nonce host nh e cfg) Q E w"
    "wp (finalise_nonce host nh e cfg) Q E w" "wp (revert_sign host sh e cfg) Q E w"
    by (simp_all only: release_nonce_def consume_nonce_def finalise_nonce_def revert_sign_def)
qed

lemma wp_hard_fail [simp]:
  "wp (hard_fail host e err) Q E =
     (\<lambda>w. E (fst w, registry_set e (Failed (stage err) (show_cortex_error (host_text host) err)) (snd w)))"
  by (simp add: hard_fail_def record_faliure_def)

lemma wp_release_and_fail:
  assumes "max_attempts cfg \<noteq> - 1"
    and "\<And>s'. E (s', registry_set e (Failed (stage err) (show_cortex_error (host_text host) err)) (snd w))"
  shows "wp (release_and_fail host nh e cfg err) Q E w"
  unfolding release_and_fail_def wp_andThen by (rule wp_helpers(1) [OF assms(1)]) (simp add: assms(2))


section \<open>The states a pipeline goes through\<close>

definition terminal :: "pipeline_status \<Rightarrow> bool" where
  "terminal st \<longleftrightarrow> (case st of Failed s r \<Rightarrow> True | ConfirmedOnChain h \<Rightarrow> True | ValidatorTimedOut m \<Rightarrow> True | _ \<Rightarrow> False)"

inductive status_step :: "pipeline_status \<Rightarrow> pipeline_status \<Rightarrow> bool" where
  "status_step PermitAquired Accepted"
| "status_step Accepted NonceReserved"
| "status_step NonceReserved Signed"
| "status_step Signed (NonceMismatchDetected n a)"
| "status_step (NonceMismatchDetected n a) NonceReserved"
| "status_step Signed (Broadcasted h m)"
| "status_step (Broadcasted h m) (ConfirmedOnChain h)"
| "status_step (Broadcasted h m) (ValidatorTimedOut msg)"
| "\<not> terminal st \<Longrightarrow> status_step st (Failed sg rs)"

fun status_path :: "pipeline_status \<Rightarrow> pipeline_status list \<Rightarrow> bool" where
  "status_path st [] = True"
| "status_path st (x # xs) \<longleftrightarrow> status_step st x \<and> status_path x xs"

definition mismatches :: "pipeline_status list \<Rightarrow> nat" where
  "mismatches sts = length (filter (\<lambda>st. case st of NonceMismatchDetected n a \<Rightarrow> True | _ \<Rightarrow> False) sts)"

lemma status_path_snoc: "status_path st (xs @ [x]) \<longleftrightarrow> status_path st xs \<and> status_step (last (st # xs)) x"
  by (induction st xs rule: status_path.induct) auto

text \<open>
  Where a pipeline is: the statuses it has written since the registry \<open>r0\<close> form a path that ends in \<open>st\<close> and
  has seen \<open>k\<close> mismatches; the other executions' entries are untouched.
\<close>

definition pipeline_at :: "execution_id \<Rightarrow> registry \<Rightarrow> pipeline_status \<Rightarrow> nat \<Rightarrow> registry \<Rightarrow> bool" where
  "pipeline_at e r0 st k r \<longleftrightarrow>
     (\<exists>sts. spawned r = spawned r0 @ map (WriteStatus e) sts \<and> status_path PermitAquired sts \<and>
        last (PermitAquired # sts) = st \<and> mismatches sts = k \<and> (sts \<noteq> [] \<longrightarrow> registry_get e r = Some st) \<and>
        (\<forall>e'. e' \<noteq> e \<longrightarrow> registry_get e' r = registry_get e' r0))"

definition pipeline_ended :: "execution_id \<Rightarrow> registry \<Rightarrow> registry \<Rightarrow> bool" where
  "pipeline_ended e r0 r \<longleftrightarrow> (\<exists>st k. terminal st \<and> k \<le> 1 \<and> pipeline_at e r0 st k r)"

lemma pipeline_ended_get: "pipeline_ended e r0 r \<Longrightarrow> \<exists>st. terminal st \<and> registry_get e r = Some st"
  by (force simp: pipeline_ended_def pipeline_at_def terminal_def)

lemma pipeline_at_start: "pipeline_at e r0 PermitAquired 0 r0"
  by (auto simp: pipeline_at_def mismatches_def intro: exI [of _ "[]"])

lemma pipeline_at_step:
  assumes "pipeline_at e r0 st k r" "status_step st st'"
  shows "pipeline_at e r0 st' (k + mismatches [st']) (registry_set e st' r)"
proof -
  obtain sts where sts: "spawned r = spawned r0 @ map (WriteStatus e) sts" "status_path PermitAquired sts"
    "last (PermitAquired # sts) = st" "mismatches sts = k" "\<forall>e'. e' \<noteq> e \<longrightarrow> registry_get e' r = registry_get e' r0"
    using assms(1) by (auto simp: pipeline_at_def)
  then show ?thesis
    unfolding pipeline_at_def using assms(2)
    by (intro exI [of _ "sts @ [st']"])
      (simp add: status_path_snoc mismatches_def, simp add: registry_set_def)
qed

lemma pipeline_at_end:
  assumes "pipeline_at e r0 st k r" "status_step st st'" "terminal st'" "k \<le> 1"
  shows "pipeline_ended e r0 (registry_set e st' r)"
proof -
  have "mismatches [st'] = 0" using assms(3) by (cases st') (simp_all add: terminal_def mismatches_def)
  with pipeline_at_step [OF assms(1,2)] assms(3,4) show ?thesis by (auto simp: pipeline_ended_def)
qed

definition pipeline_failed :: "execution_id \<Rightarrow> registry \<Rightarrow> registry \<Rightarrow> bool" where
  "pipeline_failed e r0 r \<longleftrightarrow> pipeline_ended e r0 r \<and> (\<exists>sg rs. registry_get e r = Some (Failed sg rs))"

lemma pipeline_at_fail:
  "pipeline_at e r0 st k r \<Longrightarrow> \<not> terminal st \<Longrightarrow> k \<le> 1 \<Longrightarrow> pipeline_failed e r0 (registry_set e (Failed sg rs) r)"
  unfolding pipeline_failed_def
  by (intro conjI) (erule pipeline_at_end, simp_all add: status_step.intros terminal_def)

definition context_ok :: "'s pipeline_context \<Rightarrow> bool" where
  "context_ok ctx \<longleftrightarrow> max_attempts (ctx_retry_config ctx) \<noteq> - 1 \<and> shards (relayhost_pool ctx) \<noteq> [] \<and>
     shards (nonce_pool ctx) \<noteq> [] \<and> shards (sign_pool ctx) \<noteq> [] \<and> shards (broadcast_pool ctx) \<noteq> [] \<and>
     shards (validator_pool ctx) \<noteq> []"

lemma context_okD:
  assumes "context_ok ctx"
  shows "max_attempts (ctx_retry_config ctx) \<noteq> - 1" "shards (relayhost_pool ctx) \<noteq> []" "shards (nonce_pool ctx) \<noteq> []"
    "shards (sign_pool ctx) \<noteq> []" "shards (broadcast_pool ctx) \<noteq> []" "shards (validator_pool ctx) \<noteq> []"
  using assms by (simp_all add: context_ok_def)

lemma step_to: "pipeline_at e r0 st k r \<Longrightarrow> status_step st st' \<Longrightarrow> mismatches [st'] = 0 \<Longrightarrow> pipeline_at e r0 st' k (registry_set e st' r)"
  using pipeline_at_step [of e r0 st k r st'] by simp

lemma no_mismatch: "mismatches [Accepted] = 0" "mismatches [NonceReserved] = 0" "mismatches [Signed] = 0"
  "mismatches [Broadcasted h m] = 0" "mismatches [NonceMismatchDetected n a] = 1"
  by (simp_all add: mismatches_def)

lemma not_terminal: "\<not> terminal PermitAquired" "\<not> terminal Accepted" "\<not> terminal NonceReserved" "\<not> terminal Signed"
  "\<not> terminal (Broadcasted h m)" "\<not> terminal (NonceMismatchDetected n a)"
  by (simp_all add: terminal_def)

lemmas path_rules = step_to no_mismatch not_terminal status_step.intros


section \<open>The path through the stages\<close>

text \<open>
  From a state on the path, the ways a stage ends the task: it records a failure, with or without a
  release of the nonce.
\<close>

lemma release_and_fail_path:
  assumes "context_ok ctx" "pipeline_at e r0 st k r" "\<not> terminal st" "k \<le> 1"
  shows "wp (release_and_fail host nh e (ctx_retry_config ctx) err) Q (\<lambda>w'. pipeline_failed e r0 (snd w')) (s', r)"
  by (rule wp_release_and_fail [OF context_okD(1) [OF assms(1)]]) (simp add: pipeline_at_fail [OF assms(2-4)])

lemma relay_stage_path:
  assumes "context_ok ctx" "e = ctx_execution_id ctx" "pipeline_at e r0 PermitAquired 0 (snd w)"
  shows "wp (relay_stage host ctx) (\<lambda>_ w'. pipeline_at e r0 Accepted 0 (snd w')) (\<lambda>w'. pipeline_failed e r0 (snd w')) w"
proof -
  note fail = pipeline_at_fail [OF assms(3) not_terminal(1)]
  note next_at = step_to [OF assms(3) status_step.intros(1) no_mismatch(1)]
  show ?thesis
    unfolding relay_stage_def Let_def wp_andThen assms(2) [symmetric]
    by (intro wp_route [OF context_okD(2) [OF assms(1)]] wp_retry_op [OF context_okD(1) [OF assms(1)]])
      (simp add: fail next_at del: stage.simps show_cortex_error.simps split: sum.splits)
qed

lemma nonce_stage_path:
  assumes "context_ok ctx" "e = ctx_execution_id ctx" "pipeline_at e r0 Accepted 0 (snd w)"
  shows "wp (nonce_stage host ctx) (\<lambda>_ w'. pipeline_at e r0 NonceReserved 0 (snd w')) (\<lambda>w'. pipeline_failed e r0 (snd w')) w"
proof -
  note fail = pipeline_at_fail [OF assms(3) not_terminal(2)]
  note next_at = step_to [OF assms(3) status_step.intros(2) no_mismatch(2)]
  show ?thesis
    unfolding nonce_stage_def Let_def wp_andThen assms(2) [symmetric]
    by (intro wp_route [OF context_okD(3) [OF assms(1)]] wp_retry_op [OF context_okD(1) [OF assms(1)]])
      (simp add: fail next_at del: stage.simps show_cortex_error.simps split: sum.splits)
qed

lemma sign_stage_path:
  assumes "context_ok ctx" "e = ctx_execution_id ctx" "pipeline_at e r0 NonceReserved 0 (snd w)"
  shows "wp (sign_stage host ctx nh txn) (\<lambda>_ w'. pipeline_at e r0 Signed 0 (snd w')) (\<lambda>w'. pipeline_failed e r0 (snd w')) w"
proof -
  note fail = release_and_fail_path [OF assms(1,3) not_terminal(3)]
  note next_at = step_to [OF assms(3) status_step.intros(3) no_mismatch(3)]
  show ?thesis
    unfolding sign_stage_def Let_def wp_andThen assms(2) [symmetric]
    by (intro wp_route [OF context_okD(4) [OF assms(1)]] wp_retry_op [OF context_okD(1) [OF assms(1)]])
      (simp add: fail next_at split: sum.splits)
qed

lemma endpoint_stage_path:
  assumes "context_ok ctx" "e = ctx_execution_id ctx" "pipeline_at e r0 Signed 0 (snd w)"
  shows "wp (endpoint_stage host ctx nh) (\<lambda>_ w'. pipeline_at e r0 Signed 0 (snd w')) (\<lambda>w'. pipeline_failed e r0 (snd w')) w"
proof -
  note fail = release_and_fail_path [OF assms(1,3) not_terminal(4)]
  show ?thesis
    unfolding endpoint_stage_def Let_def wp_andThen wp_awaited assms(2) [symmetric]
    by (simp add: fail assms(3) split: sum.splits option.splits)
qed

lemma recover_nonce_path:
  assumes "context_ok ctx" "e = ctx_execution_id ctx" "pipeline_at e r0 Signed 0 (snd w)"
  shows "wp (recover_nonce host ctx nh sh txn n a) (\<lambda>_ w'. pipeline_at e r0 Signed 1 (snd w'))
     (\<lambda>w'. pipeline_failed e r0 (snd w')) w"
proof -
  note cfg = context_okD(1) [OF assms(1)]
  let ?r1 = "registry_set e (NonceMismatchDetected n a) (snd w)"
  have m: "pipeline_at e r0 (NonceMismatchDetected n a) 1 ?r1"
    using pipeline_at_step [OF assms(3) status_step.intros(4) [of n a]] by (simp add: no_mismatch)
  have n: "pipeline_at e r0 NonceReserved 1 (registry_set e NonceReserved ?r1)"
    by (rule step_to [OF m status_step.intros(5) no_mismatch(2)])
  note fail = pipeline_at_fail [OF m not_terminal(6)]
  note fail' = release_and_fail_path [OF assms(1) n not_terminal(3)]
  note next_at = step_to [OF n status_step.intros(3) no_mismatch(3)]
  have resign: "wp (retried host (ctx_retry_config ctx) (map_error Retry (sn_sign sh c ad e t)))
      (\<lambda>r. wp (case r of Inl err \<Rightarrow> release_and_fail host nh e (ctx_retry_config ctx) (Cortex_ReSign err)
        | Inr s \<Rightarrow> andThen (set_status e Signed) (\<lambda>_. ret (t, s)))
        (\<lambda>_ w'. pipeline_at e r0 Signed 1 (snd w')) (\<lambda>w'. pipeline_failed e r0 (snd w')))
      (\<lambda>w'. pipeline_failed e r0 (snd w')) (s', registry_set e NonceReserved ?r1)" for c ad t s'
    by (rule wp_retry_op [OF cfg]) (simp add: fail' next_at del: One_nat_def split: sum.splits)
  show ?thesis
    unfolding recover_nonce_def Let_def wp_andThen wp_set_status assms(2) [symmetric]
    by (rule wp_helpers(2) [OF cfg], rule wp_helpers(4) [OF cfg], rule wp_retry_op [OF cfg])
      (simp add: fail resign del: One_nat_def stage.simps show_cortex_error.simps split: sum.splits)
qed

text \<open>
  That a broadcast call answered with the hash \<open>h\<close>, and that a validation of \<open>h\<close> answered \<open>Included\<close>.
\<close>

definition was_broadcast :: "'s pipeline_context \<Rightarrow> nat \<Rightarrow> tx_hash \<Rightarrow> bool" where
  "was_broadcast ctx sticky h \<longleftrightarrow>
     (\<exists>bh \<in> set (shards (broadcast_pool ctx)). \<exists>s s0 s'.
        br_broadcast bh (chain_id (ctx_txn ctx)) (from_address (ctx_client_config ctx)) (ctx_execution_id ctx) s sticky s0 =
          (Inr \<lparr>txn_hash = h\<rparr>, s'))"

definition was_included :: "'s pipeline_context \<Rightarrow> nat \<Rightarrow> tx_hash \<Rightarrow> bool" where
  "was_included ctx sticky h \<longleftrightarrow>
     (\<exists>vh \<in> set (shards (validator_pool ctx)). \<exists>s0 b n s'.
        vd_validate vh (chain_id (ctx_txn ctx)) (ctx_execution_id ctx) h sticky s0 = (Inr (Included b n), s'))"

lemma broadcast_failed_path:
  assumes "context_ok ctx" "e = ctx_execution_id ctx" "pipeline_at e r0 Signed k r" "k \<le> 1"
  shows "wp (broadcast_failed host ctx nh err) Q (\<lambda>w'. pipeline_failed e r0 (snd w')) (s', r)"
  unfolding broadcast_failed_def Let_def assms(2) [symmetric]
  by (simp add: release_and_fail_path [OF assms(1,3) not_terminal(4) assms(4)]
      pipeline_at_fail [OF assms(3) not_terminal(4) assms(4)]
      del: stage.simps show_cortex_error.simps split: broadcast_error.splits)

lemma broadcast_loop_path:
  assumes "context_ok ctx" "e = ctx_execution_id ctx" "pipeline_at e r0 Signed (if flag then 1 else 0) (snd w)"
    and "bh \<in> set (shards (broadcast_pool ctx))"
  shows "wp (broadcast_loop host ctx nh sh bh sticky flag txn s)
     (\<lambda>outcome w'. (\<exists>k \<le> 1. pipeline_at e r0 Signed k (snd w')) \<and> was_broadcast ctx sticky (txn_hash outcome))
     (\<lambda>w'. pipeline_failed e r0 (snd w')) w"
  using assms
proof (induction host ctx nh sh bh sticky flag txn s arbitrary: w rule: broadcast_loop.induct)
  case (1 host ctx nh sh bh sticky flag txn s)
  let ?Q = "\<lambda>outcome w'. (\<exists>k \<le> 1. pipeline_at e r0 Signed k (snd w')) \<and> was_broadcast ctx sticky (txn_hash outcome)"
  let ?E = "\<lambda>w'. pipeline_failed e r0 (snd w')"
  let ?k = "if flag then 1 else 0 :: nat"
  note at = "1.prems"(3)
  have k: "?k \<le> 1" by simp
  note fail = release_and_fail_path [OF "1.prems"(1) at not_terminal(4) k]
  note failed = broadcast_failed_path [OF "1.prems"(1,2) at k]
  have retry: "wp (andThen (recover_nonce host ctx nh sh txn n a) (\<lambda>(t, s). broadcast_loop host ctx nh sh bh sticky True t s)) ?Q ?E (s', snd w)"
    if "\<not> flag" for n a s'
  proof -
    have "wp (broadcast_loop host ctx nh sh bh sticky True t s2) ?Q ?E w'" if "pipeline_at e r0 Signed 1 (snd w')" for t s2 w'
      using "1.IH" [OF \<open>\<not> flag\<close> "1.prems"(1,2) _ "1.prems"(4)] that by simp
    moreover have "pipeline_at e r0 Signed 0 (snd (s', snd w))" using at that by simp
    ultimately show ?thesis
      unfolding wp_andThen
      by (intro wp_mono [OF recover_nonce_path [OF "1.prems"(1,2)]]) (auto split: prod.splits)
  qed
  show ?case
    unfolding broadcast_loop.simps [of host ctx nh sh bh sticky flag txn s] wp_andThen
  proof (rule wp_broadcast_attempt [OF context_okD(1) [OF "1.prems"(1)]])
    fix r s0 s'
    assume call: "br_broadcast bh (chain_id (ctx_txn ctx)) (from_address (ctx_client_config ctx)) (ctx_execution_id ctx) s sticky s0 = (r, s')"
    show "wp (case r of Inr outcome \<Rightarrow> ret outcome
        | Inl (Broadcast_NonceTooLow n a) \<Rightarrow>
            (if flag then release_and_fail host nh (ctx_execution_id ctx) (ctx_retry_config ctx) (Cortex_Broadcast (Broadcast_NonceTooLow n a))
             else andThen (recover_nonce host ctx nh sh txn n a) (\<lambda>(t, s). broadcast_loop host ctx nh sh bh sticky True t s))
        | Inl err \<Rightarrow> broadcast_failed host ctx nh err) ?Q ?E (s', snd w)"
    proof (cases r)
      case (Inr outcome)
      then have "was_broadcast ctx sticky (txn_hash outcome)"
        using call "1.prems"(4) unfolding was_broadcast_def by (metis (mono_tags) broadcast_outcome.cases broadcast_outcome.select_convs(1))
      with Inr at k show ?thesis by auto
    next
      case (Inl err)
      then show ?thesis
        using fail failed retry "1.prems"(2) by (cases err) auto
    qed
  qed
qed

lemma broadcast_stage_path:
  assumes "context_ok ctx" "e = ctx_execution_id ctx" "pipeline_at e r0 Signed 0 (snd w)"
  shows "wp (broadcast_stage host ctx nh sh sticky txn s)
     (\<lambda>h w'. (\<exists>k \<le> 1. pipeline_at e r0 (Broadcasted (hex_hash (host_text host) h) ''Waiting for validation on-chain'') k (snd w')) \<and>
        was_broadcast ctx sticky h)
     (\<lambda>w'. pipeline_failed e r0 (snd w')) w"
  unfolding broadcast_stage_def Let_def wp_andThen assms(2) [symmetric] wp_set_status wp_ret
proof (rule wp_route [OF context_okD(5) [OF assms(1)]])
  fix bh assume bh: "bh \<in> set (shards (broadcast_pool ctx))"
  let ?st = "\<lambda>outcome. Broadcasted (hex_hash (host_text host) (txn_hash outcome)) ''Waiting for validation on-chain''"
  have at: "pipeline_at e r0 Signed (if False then 1 else 0) (snd w)" using assms(3) by simp
  show "wp (broadcast_loop host ctx nh sh bh sticky False txn s)
     (\<lambda>outcome w. (\<exists>k \<le> 1. pipeline_at e r0 (?st outcome) k (snd (fst w, registry_set e (?st outcome) (snd w)))) \<and>
        was_broadcast ctx sticky (txn_hash outcome))
     (\<lambda>w'. pipeline_failed e r0 (snd w')) w"
    by (rule wp_mono [OF broadcast_loop_path [OF assms(1,2) at bh]])
      (auto intro: step_to [OF _ status_step.intros(6) no_mismatch(4)])
qed

text \<open>What a finished task leaves: a path to its end, and evidence for a confirmation.\<close>

definition pipeline_done :: "'s host \<Rightarrow> 's pipeline_context \<Rightarrow> registry \<Rightarrow> registry \<Rightarrow> bool" where
  "pipeline_done host ctx r0 r \<longleftrightarrow>
     pipeline_ended (ctx_execution_id ctx) r0 r \<and>
     (\<forall>t. registry_get (ctx_execution_id ctx) r = Some (ConfirmedOnChain t) \<longrightarrow>
        (\<exists>h sticky. t = hex_hash (host_text host) h \<and> was_broadcast ctx sticky h \<and> was_included ctx sticky h))"

lemma failed_done: "pipeline_failed (ctx_execution_id ctx) r0 r \<Longrightarrow> pipeline_done host ctx r0 r"
  by (auto simp: pipeline_done_def pipeline_failed_def)

lemma validator_stage_path:
  assumes "context_ok ctx" "e = ctx_execution_id ctx" "k \<le> 1" "was_broadcast ctx sticky h"
    and "pipeline_at e r0 (Broadcasted (hex_hash (host_text host) h) msg) k (snd w)"
  shows "wp (validator_stage host ctx nh sticky h) (\<lambda>_ w'. pipeline_done host ctx r0 (snd w'))
     (\<lambda>w'. pipeline_failed e r0 (snd w')) w"
  unfolding validator_stage_def validate_routed_def Let_def wp_andThen wp_awaited assms(2) [symmetric]
proof (rule wp_route [OF context_okD(6) [OF assms(1)]])
  fix vh assume vh: "vh \<in> set (shards (validator_pool ctx))"
  note cfg = context_okD(1) [OF assms(1)]
  note fail = pipeline_at_fail [OF assms(5) not_terminal(5) assms(3)]
  note rfail = release_and_fail_path [OF assms(1,5) not_terminal(5) assms(3)]
  note ended = pipeline_at_end [OF assms(5) _ _ assms(3)]
  let ?m = "vd_validate vh (chain_id (ctx_txn ctx)) e h sticky (fst w)"
  have conf: "pipeline_done host ctx r0 (registry_set e (ConfirmedOnChain (hex_hash (host_text host) h)) (snd w))"
    if "fst ?m = Inr (Included b n)" for b n
  proof -
    have "was_included ctx sticky h"
      unfolding was_included_def using vh that assms(2) by (metis prod.collapse)
    with ended [OF status_step.intros(7)] assms(2,4) show ?thesis
      by (auto simp: pipeline_done_def terminal_def)
  qed
  have late: "pipeline_done host ctx r0 (registry_set e (ValidatorTimedOut m) (snd w))" for m
    using ended [OF status_step.intros(8)] assms(2) by (auto simp: pipeline_done_def terminal_def)
  have gone: "pipeline_done host ctx r0 (registry_set e (Failed sg rs) (snd w))" for sg rs
    using fail assms(2) by (auto intro: failed_done)
  show "wp (case fst ?m of
       Inr outcome \<Rightarrow> settle_validation host ctx nh h outcome
     | Inl err \<Rightarrow>
         (case err of
            Validator_Database m \<Rightarrow> hard_fail host e (Cortex_Validator err)
          | Validator_Internal m \<Rightarrow> hard_fail host e (Cortex_Validator err)
          | _ \<Rightarrow> release_and_fail host nh e (ctx_retry_config ctx) (Cortex_Validator err)))
     (\<lambda>_ w'. pipeline_done host ctx r0 (snd w')) (\<lambda>w'. pipeline_failed e r0 (snd w')) (snd ?m, snd w)"
    apply (simp add: rfail fail del: stage.simps show_cortex_error.simps split: sum.splits validator_error.splits)
    apply (intro allI impI)
    subgoal for outcome
      unfolding settle_validation_def Let_def assms(2) [symmetric]
      by (cases outcome) (auto intro!: wp_helpers [OF cfg] simp: conf late gone)
    done
qed

lemma pipeline_body_path:
  assumes ok: "context_ok ctx"
  shows "wp (pipeline_body host ctx) (\<lambda>_ w'. pipeline_done host ctx (snd w) (snd w'))
     (\<lambda>w'. pipeline_failed (ctx_execution_id ctx) (snd w) (snd w')) w"
proof -
  let ?Q = "\<lambda>_ w'. pipeline_done host ctx (snd w) (snd w')"
  let ?at = "\<lambda>st w'. pipeline_at (ctx_execution_id ctx) (snd w) st 0 (snd w')"
  let ?E = "\<lambda>w'. pipeline_failed (ctx_execution_id ctx) (snd w) (snd w')"
  have b: "wp (broadcast_stage host ctx nh sh sticky txn s) (\<lambda>h. wp (validator_stage host ctx nh sticky h) ?Q ?E) ?E w'"
    if "?at Signed w'" for nh sh sticky txn s w'
    by (rule wp_mono [OF broadcast_stage_path [OF ok refl that]]) (auto intro: validator_stage_path [OF ok refl])
  have p: "wp (endpoint_stage host ctx nh)
      (\<lambda>sticky. wp (broadcast_stage host ctx nh sh sticky txn s) (\<lambda>h. wp (validator_stage host ctx nh sticky h) ?Q ?E) ?E) ?E w'"
    if "?at Signed w'" for nh sh txn s w'
    by (rule wp_mono [OF endpoint_stage_path [OF ok refl that]]) (auto intro!: b)
  have g: "wp (sign_stage host ctx nh txn) (\<lambda>x. wp (case x of (sh, s) \<Rightarrow>
      andThen (endpoint_stage host ctx nh) (\<lambda>sticky.
      andThen (broadcast_stage host ctx nh sh sticky txn s) (\<lambda>h. validator_stage host ctx nh sticky h))) ?Q ?E) ?E w'"
    if "?at NonceReserved w'" for nh txn w'
    by (rule wp_mono [OF sign_stage_path [OF ok refl that]]) (auto intro!: p)
  have n: "wp (nonce_stage host ctx) (\<lambda>x. wp (case x of (nh, n) \<Rightarrow>
      andThen (sign_stage host ctx nh ((ctx_txn ctx)\<lparr>nonce := n\<rparr>)) (\<lambda>(sh, s).
      andThen (endpoint_stage host ctx nh) (\<lambda>sticky.
      andThen (broadcast_stage host ctx nh sh sticky ((ctx_txn ctx)\<lparr>nonce := n\<rparr>) s) (\<lambda>h.
        validator_stage host ctx nh sticky h)))) ?Q ?E) ?E w'"
    if "?at Accepted w'" for w'
    by (rule wp_mono [OF nonce_stage_path [OF ok refl that]]) (auto intro!: g)
  show ?thesis
    unfolding pipeline_body_def Let_def wp_andThen
    by (rule wp_mono [OF relay_stage_path [OF ok refl pipeline_at_start]]) (auto intro!: n)
qed

lemma run_pipeline_done:
  assumes "context_ok ctx"
  obtains s' r' where "run_pipeline host ctx (s, r) = (Done (), (s', r'))" "pipeline_done host ctx r r'"
  using pipeline_body_path [OF assms, of host "(s, r)"]
  by (fastforce simp: wp_def run_pipeline_def intro: failed_done split: prod.splits sum.splits exit.splits)

text \<open>
  C17. Whatever the actors, the RPC layer and the runtime answer, a pipeline task ends without a panic, and the
  statuses it has written for its execution form a path of the documented life cycle, with at most
  one nonce recovery, that ends in \<open>ConfirmedOnChain\<close>, \<open>ValidatorTimedOut\<close> or \<open>Failed\<close>; that last status is
  what the registry shows, and no other execution's entry is touched.
\<close>
theorem pipeline_reaches_terminal:
  assumes "context_ok ctx"
  shows "\<exists>s' r' sts. run_pipeline host ctx (s, r) = (Done (), (s', r')) \<and>
     spawned r' = spawned r @ map (WriteStatus (ctx_execution_id ctx)) sts \<and>
     status_path PermitAquired sts \<and> mismatches sts \<le> 1 \<and> sts \<noteq> [] \<and> terminal (last sts) \<and>
     registry_get (ctx_execution_id ctx) r' = Some (last sts) \<and>
     (\<forall>e'. e' \<noteq> ctx_execution_id ctx \<longrightarrow> registry_get e' r' = registry_get e' r)"
proof -
  obtain s' r' where run: "run_pipeline host ctx (s, r) = (Done (), (s', r'))" "pipeline_ended (ctx_execution_id ctx) r r'"
    using run_pipeline_done [OF assms] by (metis pipeline_done_def)
  then obtain sts where "spawned r' = spawned r @ map (WriteStatus (ctx_execution_id ctx)) sts" "status_path PermitAquired sts"
    "terminal (last (PermitAquired # sts))" "mismatches sts \<le> 1"
    "sts \<noteq> [] \<longrightarrow> registry_get (ctx_execution_id ctx) r' = Some (last (PermitAquired # sts))"
    "\<forall>e'. e' \<noteq> ctx_execution_id ctx \<longrightarrow> registry_get e' r' = registry_get e' r"
    by (auto simp: pipeline_ended_def pipeline_at_def)
  moreover from this have "sts \<noteq> []" by (auto simp: terminal_def)
  ultimately show ?thesis using run(1) by auto
qed



section \<open>Witnesses\<close>

text \<open>Actors that count their calls and answer: the nonce 3, a hash, and an inclusion in block 10.\<close>

definition empty_registry :: registry where
  "empty_registry = \<lparr>status_book = \<lambda>_. None, spawned = []\<rparr>"

definition sample_host :: "nat host" where
  "sample_host =
     \<lparr>host_runtime = \<lparr>gen_range = (\<lambda>u s. (drop_bit 1 u, s)), sleep_for = (\<lambda>k s. s)\<rparr>,
      host_hasher = (\<lambda>key. 3),
      host_text = \<lparr>show_sql = (\<lambda>e. ''sql''), debug_chain = show_chain_id, show_hash = (\<lambda>h. ''h''),
        hex_hash = (\<lambda>h. ''0x'' @ show_nat (unat h))\<rparr>\<rparr>"

definition sample_context :: "nat pipeline_context" where
  "sample_context =
     \<lparr>ctx_execution_id = 5, ctx_client_config = \<lparr>client_id = 1, from_address = 7\<rparr>, ctx_txn = sample_tx,
      relayhost_pool = \<lparr>shards = [\<lparr>register_transaction = (\<lambda>e txn cc s. (Inr (), Suc s))\<rparr>]\<rparr>,
      nonce_pool = \<lparr>shards = [\<lparr>nm_reserve = (\<lambda>c a e s. (Inr (TxNonce 3), Suc s)), nm_resolve = (\<lambda>e st s. (Inr (), Suc s)),
        nm_sync = (\<lambda>c a e n s. (Inr n, Suc s))\<rparr>]\<rparr>,
      sign_pool = \<lparr>shards = [\<lparr>sn_sign = (\<lambda>c a e txn s. (Inr \<lparr>rlp = [2, 192], with_nonce = nonce txn\<rparr>, Suc s)),
        sn_revert = (\<lambda>e s. (Inr (), Suc s))\<rparr>]\<rparr>,
      broadcast_pool = \<lparr>shards = [\<lparr>br_broadcast = (\<lambda>c a e txn sticky s. (Inr \<lparr>txn_hash = 99\<rparr>, Suc s))\<rparr>]\<rparr>,
      validator_pool = \<lparr>shards = [\<lparr>vd_validate = (\<lambda>c e h sticky s. (Inr (Included 10 2), Suc s))\<rparr>]\<rparr>,
      ctx_retry_config = RetryConfig_default, ctx_acquire_endpoint = (\<lambda>c t s. (Inr (Some 0), s))\<rparr>"

lemma sample_context_ok: "context_ok sample_context"
  by (simp add: context_ok_def sample_context_def RetryConfig_default_def)

theorem pipeline_reaches_terminal_witness:
  "\<exists>s' r' sts. run_pipeline sample_host sample_context (0, empty_registry) = (Done (), (s', r')) \<and>
     spawned r' = spawned empty_registry @ map (WriteStatus (ctx_execution_id sample_context)) sts \<and>
     status_path PermitAquired sts \<and> mismatches sts \<le> 1 \<and> sts \<noteq> [] \<and> terminal (last sts) \<and>
     registry_get (ctx_execution_id sample_context) r' = Some (last sts) \<and>
     (\<forall>e'. e' \<noteq> ctx_execution_id sample_context \<longrightarrow> registry_get e' r' = registry_get e' empty_registry)"
  by (rule pipeline_reaches_terminal [OF sample_context_ok])

lemma retried_success:
  "max_attempts cfg \<noteq> - 1 \<Longrightarrow> m s = (Inr v, s1) \<Longrightarrow> retried host cfg (map_error f m) (s, r) = (Inr (Inr v), (s1, r))"
  by (simp add: retried_def map_error_def retry_first_success)

lemma sample_default_retry: "max_attempts RetryConfig_default \<noteq> - 1"
  by (simp add: RetryConfig_default_def)

lemma sample_run:
  "run_pipeline sample_host sample_context (0, r) =
     (Done (), (6, registry_set 5 (ConfirmedOnChain ''0x99'')
        (registry_set 5 (Broadcasted ''0x99'' ''Waiting for validation on-chain'')
          (registry_set 5 Signed (registry_set 5 NonceReserved (registry_set 5 Accepted r))))))"
proof -
  have hex: "hex_hash (host_text sample_host) 99 = ''0x99''"
    by code_simp
  have loop: "broadcast_loop sample_host sample_context nh sh \<lparr>br_broadcast = (\<lambda>c a e txn sticky s. (Inr \<lparr>txn_hash = 99\<rparr>, Suc s))\<rparr>
      0 False txn sig (n, r') = (Inr \<lparr>txn_hash = 99\<rparr>, (Suc n, r'))" for nh sh txn sig n r'
    by (subst broadcast_loop.simps)
      (simp add: broadcast_attempt_def retried_success sample_default_retry andThen_def ret_def,
       simp add: sample_context_def retried_success sample_default_retry ret_def)
  note defs = run_pipeline_def pipeline_body_def relay_stage_def nonce_stage_def sign_stage_def endpoint_stage_def
    broadcast_stage_def validator_stage_def validate_routed_def settle_validation_def finalise_nonce_def
  show ?thesis
    by (simp add: defs hex loop [unfolded sample_context_def] andThen_def ret_def route_def ShardPool_get_Done set_status_def awaited_def
        retried_success sample_default_retry sample_context_def Let_def)
qed



section \<open>What the actors promise a pipeline\<close>

text \<open>
  A property of the actors' state that every call of a handle keeps, and that drawing a number and sleeping
  keep. A pipeline keeps it too.
\<close>

locale pipeline_contract =
  fixes I :: "'s \<Rightarrow> bool" and host :: "'s host" and ctx :: "'s pipeline_context"
  assumes relay_keeps: "rh \<in> set (shards (relayhost_pool ctx)) \<Longrightarrow> keeps I (register_transaction rh e txn cc)"
    and reserve_keeps: "nh \<in> set (shards (nonce_pool ctx)) \<Longrightarrow> keeps I (nm_reserve nh c a e)"
    and resolve_keeps: "nh \<in> set (shards (nonce_pool ctx)) \<Longrightarrow> keeps I (nm_resolve nh e ns)"
    and sync_keeps: "nh \<in> set (shards (nonce_pool ctx)) \<Longrightarrow> keeps I (nm_sync nh c a e n)"
    and sign_keeps: "sh \<in> set (shards (sign_pool ctx)) \<Longrightarrow> keeps I (sn_sign sh c a e txn)"
    and revert_keeps: "sh \<in> set (shards (sign_pool ctx)) \<Longrightarrow> keeps I (sn_revert sh e)"
    and broadcast_keeps: "bh \<in> set (shards (broadcast_pool ctx)) \<Longrightarrow> keeps I (br_broadcast bh c a e s sticky)"
    and validate_keeps: "vh \<in> set (shards (validator_pool ctx)) \<Longrightarrow> keeps I (vd_validate vh c e h sticky)"
    and acquire_keeps: "keeps I (ctx_acquire_endpoint ctx c t)"
    and draw_keeps: "I s0 \<Longrightarrow> I (snd (gen_range (host_runtime host) u s0))"
    and sleep_keeps: "I s0 \<Longrightarrow> I (sleep_for (host_runtime host) k s0)"
begin

abbreviation J :: "'s \<times> registry \<Rightarrow> bool" where
  "J \<equiv> \<lambda>w. I (fst w)"

lemma keeps_set_status: "keeps J (set_status e st)"
  by (simp add: keeps_def set_status_def)

lemma keeps_awaited: "keeps I m \<Longrightarrow> keeps J (awaited m)"
  by (auto simp: keeps_def awaited_def split: prod.splits)

lemma keeps_retried: "keeps I m \<Longrightarrow> keeps J (retried host cfg (map_error f m))"
  using keepsD [OF keeps_retry [OF keeps_map_error, of I m "host_runtime host" cfg f]] draw_keeps sleep_keeps
  by (fastforce simp: keeps_def retried_def split: prod.splits sum.splits)

lemma keeps_hard_fail: "keeps J (hard_fail host e err)"
  unfolding hard_fail_def record_faliure_def by (intro keeps_andThen keeps_set_status keeps_throw)

lemma keeps_nonce_helpers:
  assumes "nh \<in> set (shards (nonce_pool ctx))"
  shows "keeps J (release_nonce host nh e cfg)" "keeps J (consume_nonce host nh e cfg)"
    "keeps J (finalise_nonce host nh e cfg)" "keeps J (release_and_fail host nh e cfg err)"
  unfolding release_and_fail_def release_nonce_def consume_nonce_def finalise_nonce_def
  by (intro keeps_andThen keeps_retried resolve_keeps assms keeps_ret keeps_hard_fail)+

lemma keeps_revert_sign: "sh \<in> set (shards (sign_pool ctx)) \<Longrightarrow> keeps J (revert_sign host sh e cfg)"
  unfolding revert_sign_def by (intro keeps_andThen keeps_retried revert_keeps keeps_ret)

lemma hoare_route: "hoare J (route host pool key) (\<lambda>h w. J w \<and> h \<in> set (shards pool)) J"
proof (cases "ShardPool_get (host_hasher host) pool key")
  case (Panic m)
  then show ?thesis by (simp add: route_def hoare_def throw_def)
next
  case (Done h)
  then have "h \<in> set (shards pool)"
    by (auto simp: ShardPool_get_def shard_index_def shard_count_def split: if_splits)
  with Done show ?thesis by (simp add: route_def hoare_def ret_def)
qed

lemma hoare_keep: "keeps J m \<Longrightarrow> hoare J m (\<lambda>_. J) J"
  by (simp add: hoare_keeps_iff)

lemma hoare_seq: "keeps J m \<Longrightarrow> (\<And>x. hoare J (k x) Q J) \<Longrightarrow> hoare J (andThen m k) Q J"
  by (rule hoare_andThen [OF hoare_keep])

lemma hoare_routed:
  "(\<And>h. h \<in> set (shards pool) \<Longrightarrow> hoare J (k h) Q J) \<Longrightarrow> hoare J (andThen (route host pool key) k) Q J"
  by (rule hoare_andThen [OF hoare_route]) (auto simp: hoare_def)

lemma hoare_fails:
  "hoare J (hard_fail host e err) Q J"
  "nh \<in> set (shards (nonce_pool ctx)) \<Longrightarrow> hoare J (release_and_fail host nh e cfg err) Q J"
proof -
  show fail: "hoare J (hard_fail host e err) Q J" for e err and Q :: "'b \<Rightarrow> _"
    by (simp add: hoare_def hard_fail_def record_faliure_def andThen_def set_status_def throw_def)
  show "hoare J (release_and_fail host nh e cfg err) Q J" if "nh \<in> set (shards (nonce_pool ctx))"
    unfolding release_and_fail_def by (rule hoare_seq [OF keeps_nonce_helpers(1) [OF that] fail])
qed

lemma relay_stage_keeps: "hoare J (relay_stage host ctx) (\<lambda>_. J) J"
  unfolding relay_stage_def Let_def
  by (intro hoare_routed hoare_seq keeps_retried relay_keeps)
    (auto intro: hoare_fails hoare_keep keeps_set_status split: sum.splits)

lemma nonce_stage_keeps:
  "hoare J (nonce_stage host ctx) (\<lambda>x w. J w \<and> fst x \<in> set (shards (nonce_pool ctx))) J"
  unfolding nonce_stage_def Let_def
  by (intro hoare_routed hoare_seq keeps_retried reserve_keeps)
    (auto intro!: hoare_fails hoare_seq keeps_set_status hoare_ret split: sum.splits)

lemma sign_stage_keeps:
  "nh \<in> set (shards (nonce_pool ctx)) \<Longrightarrow>
   hoare J (sign_stage host ctx nh txn) (\<lambda>x w. J w \<and> fst x \<in> set (shards (sign_pool ctx))) J"
  unfolding sign_stage_def Let_def
  by (intro hoare_routed hoare_seq keeps_retried sign_keeps)
    (auto intro!: hoare_fails hoare_seq keeps_set_status hoare_ret split: sum.splits)

lemma endpoint_stage_keeps: "nh \<in> set (shards (nonce_pool ctx)) \<Longrightarrow> hoare J (endpoint_stage host ctx nh) (\<lambda>_. J) J"
  unfolding endpoint_stage_def Let_def
  by (intro hoare_seq keeps_awaited acquire_keeps)
    (auto intro!: hoare_fails hoare_ret split: sum.splits option.splits)

lemma recover_nonce_keeps:
  assumes "nh \<in> set (shards (nonce_pool ctx))" "sh \<in> set (shards (sign_pool ctx))"
  shows "hoare J (recover_nonce host ctx nh sh txn n a) (\<lambda>_. J) J"
proof -
  have "hoare J (case r of Inl err \<Rightarrow> release_and_fail host nh e cfg (Cortex_ReSign err)
      | Inr s \<Rightarrow> andThen (set_status e Signed) (\<lambda>_. ret (t, s))) (\<lambda>_. J) J" for r e cfg and t :: eip1559_transaction
    using assms(1) by (auto intro!: hoare_fails hoare_seq keeps_set_status hoare_ret split: sum.splits)
  then have "hoare J (case r of Inl err \<Rightarrow> hard_fail host e (Cortex_NonceSync err)
      | Inr m \<Rightarrow> andThen (set_status e NonceReserved) (\<lambda>_.
          andThen (retried host cfg (map_error Retry (sn_sign sh c ad e (txn\<lparr>nonce := m\<rparr>)))) (\<lambda>r.
          case r of Inl err \<Rightarrow> release_and_fail host nh e cfg (Cortex_ReSign err)
          | Inr s \<Rightarrow> andThen (set_status e Signed) (\<lambda>_. ret (txn\<lparr>nonce := m\<rparr>, s))))) (\<lambda>_. J) J" for r e cfg c ad
    by (auto intro!: hoare_fails hoare_seq keeps_set_status keeps_retried sign_keeps assms(2) split: sum.splits)
  then show ?thesis
    unfolding recover_nonce_def Let_def
    by (intro hoare_seq keeps_set_status keeps_nonce_helpers(2) [OF assms(1)] keeps_revert_sign [OF assms(2)]
        keeps_retried sync_keeps [OF assms(1)])
qed

lemma broadcast_failed_keeps: "nh \<in> set (shards (nonce_pool ctx)) \<Longrightarrow> hoare J (broadcast_failed host ctx nh err) Q J"
  unfolding broadcast_failed_def Let_def by (cases err) (auto intro: hoare_fails)

lemma broadcast_loop_keeps:
  assumes "nh \<in> set (shards (nonce_pool ctx))" "sh \<in> set (shards (sign_pool ctx))" "bh \<in> set (shards (broadcast_pool ctx))"
  shows "hoare J (broadcast_loop host ctx nh sh bh sticky flag txn s) (\<lambda>_. J) J"
proof -
  let ?body = "\<lambda>flag again txn s. andThen (broadcast_attempt host ctx bh sticky s) (\<lambda>r. case r of
      Inr outcome \<Rightarrow> ret outcome
    | Inl (Broadcast_NonceTooLow n a) \<Rightarrow>
        (if flag then release_and_fail host nh (ctx_execution_id ctx) (ctx_retry_config ctx) (Cortex_Broadcast (Broadcast_NonceTooLow n a))
         else andThen (recover_nonce host ctx nh sh txn n a) (\<lambda>(t, s'). again t s'))
    | Inl err \<Rightarrow> broadcast_failed host ctx nh err)"
  have step: "hoare J (?body flag again txn s) (\<lambda>_. J) J" if "\<not> flag \<Longrightarrow> \<forall>t s'. hoare J (again t s') (\<lambda>_. J) J" for flag again txn s
    unfolding broadcast_attempt_def
    using that assms
    by (intro hoare_seq keeps_retried broadcast_keeps)
      (auto intro!: hoare_ret hoare_fails broadcast_failed_keeps hoare_andThen [OF recover_nonce_keeps]
        split: sum.splits broadcast_error.splits)
  have "hoare J (broadcast_loop host ctx nh sh bh sticky True txn s) (\<lambda>_. J) J" for txn s
    by (subst broadcast_loop.simps, rule step) simp
  then show ?thesis
    by (subst broadcast_loop.simps, intro step allI)
qed

lemma broadcast_stage_keeps:
  "nh \<in> set (shards (nonce_pool ctx)) \<Longrightarrow> sh \<in> set (shards (sign_pool ctx)) \<Longrightarrow>
   hoare J (broadcast_stage host ctx nh sh sticky txn s) (\<lambda>_. J) J"
  unfolding broadcast_stage_def Let_def
  by (intro hoare_routed hoare_andThen [OF broadcast_loop_keeps] hoare_seq keeps_set_status hoare_ret) auto

lemma validator_stage_keeps:
  assumes "nh \<in> set (shards (nonce_pool ctx))"
  shows "hoare J (validator_stage host ctx nh sticky h) (\<lambda>_. J) J"
proof -
  have "hoare J (settle_validation host ctx nh h outcome) (\<lambda>_. J) J" for outcome
    unfolding settle_validation_def Let_def
    by (cases outcome) (auto intro!: hoare_keep keeps_andThen keeps_nonce_helpers assms keeps_set_status)
  then show ?thesis
    unfolding validator_stage_def validate_routed_def Let_def using assms
    by (intro hoare_routed hoare_seq keeps_awaited validate_keeps)
      (auto intro!: hoare_fails split: sum.splits validator_error.splits)
qed

lemma hoare_known: "(R \<Longrightarrow> hoare J m Q J) \<Longrightarrow> hoare (\<lambda>w. J w \<and> R) m Q J"
  by (auto simp: hoare_def)

lemma pipeline_body_keeps: "keeps J (pipeline_body host ctx)"
  unfolding hoare_keeps_iff [symmetric] pipeline_body_def Let_def
proof (rule hoare_andThen [OF relay_stage_keeps], rule hoare_andThen [OF nonce_stage_keeps], rule hoare_known)
  fix x :: "'s nonce_manager \<times> tx_nonce"
  assume nh: "fst x \<in> set (shards (nonce_pool ctx))"
  have tail: "hoare J (andThen (endpoint_stage host ctx (fst x)) (\<lambda>sticky.
      andThen (broadcast_stage host ctx (fst x) sh sticky txn s) (\<lambda>h. validator_stage host ctx (fst x) sticky h))) (\<lambda>_. J) J"
    if "sh \<in> set (shards (sign_pool ctx))" for sh txn s
    using nh that
    by (intro hoare_andThen [OF endpoint_stage_keeps] hoare_andThen [OF broadcast_stage_keeps] validator_stage_keeps)
  show "hoare J (case x of (nh, n) \<Rightarrow> andThen (sign_stage host ctx nh ((ctx_txn ctx)\<lparr>nonce := n\<rparr>)) (\<lambda>(sh, s).
      andThen (endpoint_stage host ctx nh) (\<lambda>sticky_index.
      andThen (broadcast_stage host ctx nh sh sticky_index ((ctx_txn ctx)\<lparr>nonce := n\<rparr>) s) (\<lambda>h.
        validator_stage host ctx nh sticky_index h)))) (\<lambda>_. J) J"
    using nh tail
    by (auto simp: case_prod_beta intro!: hoare_andThen [OF sign_stage_keeps] hoare_known)
qed

lemma run_pipeline_keeps: "I s \<Longrightarrow> I (fst (snd (run_pipeline host ctx (s, r))))"
  using keepsD [OF pipeline_body_keeps, of "(s, r)"]
  by (auto simp: run_pipeline_def split: prod.splits sum.splits exit.splits)

end

end
