(* ===== verification/Custody.thy ===== *)
theory Custody
  imports Eip1559
begin

text \<open>
  The key custody of \<^verbatim>\<open>crate/utils/src/custody/json_test_policy.rs\<close>. The files are a parameter, and so are
  \<open>serde_json\<close>, which gives the accounts of the JSON object in the order in which the hash map yields them,
  the parser of addresses, their display form and \<open>hex::decode\<close>. The order of the accounts does not matter.
\<close>

record policy_account =
  acc_pvt_key :: string
  acc_pub_key :: string
  acc_address :: string

record policy =
  keys :: "address \<rightharpoonup> string"

record address_text =
  parse_address :: "string \<Rightarrow> address option"
  show_address :: "address \<Rightarrow> string"

fun load_accounts :: "address_text \<Rightarrow> policy_account list \<Rightarrow> policy \<Rightarrow> policy run" where
  "load_accounts at [] p = Done p"
| "load_accounts at (acc # accs) p =
     (case parse_address at (acc_address acc) of
        None \<Rightarrow> Panic ''address invalid''
      | Some a \<Rightarrow>
          (if keys p a \<noteq> None then Panic ''duplicate address found in policy''
           else load_accounts at accs (p\<lparr>keys := (keys p)(a \<mapsto> acc_pvt_key acc)\<rparr>)))"

record file_system =
  fs_try_exists :: "string \<Rightarrow> bool option"
  fs_open :: "string \<Rightarrow> string + string"
  fs_json_accounts :: "string \<Rightarrow> string + policy_account list"
  fs_debug_path :: "string \<Rightarrow> string"

definition load_file :: "address_text \<Rightarrow> file_system \<Rightarrow> string \<Rightarrow> policy run" where
  "load_file at fs path =
     (case fs_open fs path of
        Inl e \<Rightarrow> Panic (''Unable to open file '' @ path @ ''. '' @ e)
      | Inr content \<Rightarrow>
          (case fs_json_accounts fs content of
             Inl e \<Rightarrow> Panic (''Unable to read file '' @ path @ ''. '' @ e)
           | Inr raw \<Rightarrow> load_accounts at raw \<lparr>keys = Map.empty\<rparr>))"

definition debug_bytes :: "bytes \<Rightarrow> string" where
  "debug_bytes bs =
     ''['' @ (case map (\<lambda>b. show_nat (unat b)) bs of [] \<Rightarrow> [] | t # ts \<Rightarrow> t @ concat (map (\<lambda>u. '', '' @ u) ts)) @ '']''"

definition resolve_key ::
  "address_text \<Rightarrow> text_crates \<Rightarrow> policy \<Rightarrow> address \<Rightarrow> local_error + bytes" where
  "resolve_key at tc p from =
     (case keys p from of
        None \<Rightarrow> Inl (Local_Internal (''Policy violation: no Key detected for: '' @ show_address at from))
      | Some pvt_string \<Rightarrow>
         (case strip_prefix ''0x'' pvt_string of
            None \<Rightarrow> Inl (Local_Internal ''Unable to parse Pvt Keys'')
          | Some pvt_str \<Rightarrow>
             (case hex_decode tc pvt_str of
                Inl e \<Rightarrow> Inl (Local_Invariant e)
              | Inr bs \<Rightarrow>
                  (if length bs = 32 then Inr bs
                   else Inl (Local_Invariant (''Invalid pvt key length: '' @ debug_bytes bs))))))"

text \<open>The directory of the manifest is a constant of the build of each crate.\<close>

definition keys_path :: "string \<Rightarrow> environment \<Rightarrow> string" where
  "keys_path manifest_dir env =
     (case env ''LOBBY_TEST_KEYS'' of Some path \<Rightarrow> path | None \<Rightarrow> manifest_dir @ ''/../../test_keys.json'')"

definition export_custody_key_count :: "address_text \<Rightarrow> file_system \<Rightarrow> string \<Rightarrow> environment \<Rightarrow> nat run" where
  "export_custody_key_count at fs manifest_dir env =
     bind_run (load_file at fs (keys_path manifest_dir env)) (\<lambda>p. Done (card (dom (keys p))))"


section \<open>What is loaded\<close>

lemma load_accounts_Done_iff:
  "(\<exists>p'. load_accounts at accs p = Done p') \<longleftrightarrow>
     (\<forall>acc \<in> set accs. \<exists>a. parse_address at (acc_address acc) = Some a \<and> keys p a = None) \<and>
     distinct (map (\<lambda>acc. parse_address at (acc_address acc)) accs)"
proof (induction accs arbitrary: p)
  case (Cons acc accs)
  show ?case
  proof (cases "parse_address at (acc_address acc)")
    case (Some a)
    then show ?thesis by (auto simp: Cons.IH image_iff) (metis option.sel)+
  qed simp
qed simp

lemma load_accounts_keys:
  "load_accounts at accs p = Done p' \<Longrightarrow>
   keys p' a = Some k \<longleftrightarrow> keys p a = Some k \<or> (\<exists>acc \<in> set accs. parse_address at (acc_address acc) = Some a \<and> acc_pvt_key acc = k)"
proof (induction accs arbitrary: p)
  case (Cons acc accs)
  then obtain b where b: "parse_address at (acc_address acc) = Some b" "keys p b = None"
    and rest: "load_accounts at accs (p\<lparr>keys := (keys p)(b \<mapsto> acc_pvt_key acc)\<rparr>) = Done p'"
    by (auto split: option.splits if_splits)
  then have "\<forall>acc' \<in> set accs. parse_address at (acc_address acc') \<noteq> Some b"
    using load_accounts_Done_iff [of at accs "p\<lparr>keys := (keys p)(b \<mapsto> acc_pvt_key acc)\<rparr>"] by force
  with b Cons.IH [OF rest] show ?case by auto
qed simp

text \<open>The accounts a file holds.\<close>

definition file_accounts :: "file_system \<Rightarrow> string \<Rightarrow> policy_account list option" where
  "file_accounts fs path =
     (case fs_open fs path of
        Inl e \<Rightarrow> None
      | Inr content \<Rightarrow> (case fs_json_accounts fs content of Inl e \<Rightarrow> None | Inr raw \<Rightarrow> Some raw))"

definition accounts_ok :: "address_text \<Rightarrow> policy_account list \<Rightarrow> bool" where
  "accounts_ok at raw \<longleftrightarrow>
     (\<forall>acc \<in> set raw. parse_address at (acc_address acc) \<noteq> None) \<and>
     distinct (map (\<lambda>acc. parse_address at (acc_address acc)) raw)"

lemma load_file_accounts:
  "load_file at fs path = Done p \<longleftrightarrow>
     (\<exists>raw. file_accounts fs path = Some raw \<and> load_accounts at raw \<lparr>keys = Map.empty\<rparr> = Done p)"
  by (auto simp: load_file_def file_accounts_def split: sum.splits)

lemma load_file_Done_iff:
  "(\<exists>p. load_file at fs path = Done p) \<longleftrightarrow> (\<exists>raw. file_accounts fs path = Some raw \<and> accounts_ok at raw)"
proof -
  have "(\<exists>p. load_accounts at raw \<lparr>keys = Map.empty\<rparr> = Done p) \<longleftrightarrow> accounts_ok at raw" for raw
    unfolding load_accounts_Done_iff accounts_ok_def by simp
  then show ?thesis unfolding load_file_accounts by blast
qed

lemma load_file_keys:
  assumes "load_file at fs path = Done p" "file_accounts fs path = Some raw"
  shows "keys p a = Some k \<longleftrightarrow> (\<exists>acc \<in> set raw. parse_address at (acc_address acc) = Some a \<and> acc_pvt_key acc = k)"
  using assms load_accounts_keys [of at raw "\<lparr>keys = Map.empty\<rparr>" p a k] by (simp add: load_file_accounts)

lemma load_file_dom:
  assumes "load_file at fs path = Done p" "file_accounts fs path = Some raw"
  shows "Some ` dom (keys p) = set (map (\<lambda>acc. parse_address at (acc_address acc)) raw)"
proof -
  have ok: "accounts_ok at raw" using load_file_Done_iff [of at fs path] assms by auto
  have "a \<in> dom (keys p) \<longleftrightarrow> (\<exists>acc \<in> set raw. parse_address at (acc_address acc) = Some a)" for a
    unfolding domIff not_None_eq load_file_keys [OF assms] by blast
  moreover have "\<exists>a. parse_address at (acc_address acc) = Some a" if "acc \<in> set raw" for acc
    using that ok by (simp add: accounts_ok_def)
  ultimately show ?thesis unfolding set_map set_eq_iff image_iff by metis
qed

lemma export_custody_count:
  assumes "file_accounts fs (keys_path manifest_dir env) = Some raw" "accounts_ok at raw"
  shows "export_custody_key_count at fs manifest_dir env = Done (length raw)"
proof -
  obtain p where p: "load_file at fs (keys_path manifest_dir env) = Done p" using assms load_file_Done_iff by blast
  have "card (dom (keys p)) = card (Some ` dom (keys p))" by (simp add: card_image)
  also have "\<dots> = length raw"
    unfolding load_file_dom [OF p assms(1)] using assms(2) distinct_card by (fastforce simp: accounts_ok_def)
  finally show ?thesis using p by (simp add: export_custody_key_count_def bind_run_def)
qed

lemma resolve_key_Inr: "resolve_key at tc p from = Inr bs \<Longrightarrow> length bs = 32 \<and> keys p from \<noteq> None"
  by (auto simp: resolve_key_def split: option.splits sum.splits if_splits)

text \<open>
  C30. What the custody resolves: from a file that loads, the key of an address is the 32 bytes that the hexadecimal
  text of the one account of that address encodes after its prefix; an address without an account, or whose
  account has another text, resolves to an error.
\<close>
theorem custody_resolution:
  assumes "load_file at fs path = Done p" "file_accounts fs path = Some raw"
  shows "resolve_key at tc p from = Inr bs \<longleftrightarrow>
     length bs = 32 \<and>
     (\<exists>!acc. acc \<in> set raw \<and> parse_address at (acc_address acc) = Some from) \<and>
     (\<exists>acc hex. acc \<in> set raw \<and> parse_address at (acc_address acc) = Some from \<and>
        acc_pvt_key acc = ''0x'' @ hex \<and> hex_decode tc hex = Inr bs)"
proof -
  have "accounts_ok at raw"
    using load_file_Done_iff [of at fs path] assms by auto
  then have one: "acc = acc'" if "acc \<in> set raw" "acc' \<in> set raw" "parse_address at (acc_address acc) = parse_address at (acc_address acc')"
    for acc acc'
    using that by (auto simp: accounts_ok_def distinct_map inj_on_def)
  note keys = load_file_keys [OF assms, of "from"]
  have pre: "strip_prefix ''0x'' s = Some h \<longleftrightarrow> s = ''0x'' @ h" for s h by (rule strip_prefix_Some_iff)
  show ?thesis
  proof
    assume "resolve_key at tc p from = Inr bs"
    then obtain s h where s: "keys p from = Some s" "s = ''0x'' @ h" "hex_decode tc h = Inr bs" "length bs = 32"
      by (auto simp: resolve_key_def pre split: option.splits sum.splits if_splits)
    then obtain acc where "acc \<in> set raw" "parse_address at (acc_address acc) = Some from" "acc_pvt_key acc = s" using keys by blast
    with s one show "length bs = 32 \<and> (\<exists>!acc. acc \<in> set raw \<and> parse_address at (acc_address acc) = Some from) \<and>
     (\<exists>acc hex. acc \<in> set raw \<and> parse_address at (acc_address acc) = Some from \<and>
        acc_pvt_key acc = ''0x'' @ hex \<and> hex_decode tc hex = Inr bs)" by (metis (no_types, lifting))
  next
    assume "length bs = 32 \<and> (\<exists>!acc. acc \<in> set raw \<and> parse_address at (acc_address acc) = Some from) \<and>
     (\<exists>acc hex. acc \<in> set raw \<and> parse_address at (acc_address acc) = Some from \<and>
        acc_pvt_key acc = ''0x'' @ hex \<and> hex_decode tc hex = Inr bs)"
    then obtain h where "keys p from = Some (''0x'' @ h)" "hex_decode tc h = Inr bs" "length bs = 32" using keys by blast
    then show "resolve_key at tc p from = Inr bs" using pre [of "''0x'' @ h" h] by (simp add: resolve_key_def del: append.simps)
  qed
qed


section \<open>Witness\<close>

definition sample_files :: file_system where
  "sample_files =
     \<lparr>fs_try_exists = (\<lambda>path. Some True), fs_open = Inr,
      fs_json_accounts = (\<lambda>content. Inr [\<lparr>acc_pvt_key = ''0x01'', acc_pub_key = ''p'', acc_address = ''7''\<rparr>]),
      fs_debug_path = (\<lambda>path. path)\<rparr>"

definition sample_address_text :: address_text where
  "sample_address_text = \<lparr>parse_address = (\<lambda>s. if s = ''7'' then Some 7 else None), show_address = (\<lambda>a. ''0x'')\<rparr>"

definition sample_hex :: "text_crates" where
  "sample_hex = \<lparr>u256_from_hex = (\<lambda>s. None), hex_decode = (\<lambda>s. if s = ''01'' then Inr (replicate 32 1) else Inl ''odd'')\<rparr>"

theorem custody_resolution_witness:
  "resolve_key sample_address_text sample_hex (run_value (load_file sample_address_text sample_files ''keys'')) 7 =
     Inr (replicate 32 1)"
proof -
  obtain p where p: "load_file sample_address_text sample_files ''keys'' = Done p"
    by (simp add: load_file_def sample_files_def sample_address_text_def)
  let ?acc = "\<lparr>acc_pvt_key = ''0x01'', acc_pub_key = ''p'', acc_address = ''7''\<rparr>"
  have raw: "file_accounts sample_files ''keys'' = Some [?acc]"
    by (simp add: file_accounts_def sample_files_def)
  have "acc \<in> set [?acc] \<and> parse_address sample_address_text (acc_address acc) = Some 7 \<longleftrightarrow> acc = ?acc" for acc
    by (auto simp: sample_address_text_def)
  note one = this
  have "acc_pvt_key ?acc = ''0x'' @ ''01''" "hex_decode sample_hex ''01'' = Inr (replicate 32 1)" by (simp_all add: sample_hex_def)
  then have "\<exists>acc hex. acc \<in> set [?acc] \<and> parse_address sample_address_text (acc_address acc) = Some 7 \<and>
      acc_pvt_key acc = ''0x'' @ hex \<and> hex_decode sample_hex hex = Inr (replicate 32 1)"
    using one by blast
  then show ?thesis unfolding p run_value.simps custody_resolution [OF p raw] one by simp
qed

end
