(* ===== verification/Sign_Engine.thy ===== *)
theory Sign_Engine
  imports Database Custody
begin

text \<open>
  The sign actor, \<^verbatim>\<open>crate/actors/src/sign/engine.rs\<close>, over the table \<^verbatim>\<open>sign.sign_requests\<close>. The
  custody and the signing routine are arguments; the properties instantiate them with the models of
  \<open>resolve_key\<close> and \<open>sign_eip1559_transaction\<close>.
\<close>

section \<open>The table\<close>

definition s_indexed :: "sign_row \<Rightarrow> bool" where
  "s_indexed r \<longleftrightarrow> s_state r = S_Reserved \<or> s_state r = S_Signed"

datatype sign_change = SetSigned db_time bytes | SetFailed db_time

fun sign_moment :: "sign_change \<Rightarrow> db_time" where
  "sign_moment (SetSigned now tx) = now"
| "sign_moment (SetFailed now) = now"

text \<open>The two assignments the statements make, under the trigger that stamps a state change.\<close>

fun apply_sign_change :: "sign_change \<Rightarrow> sign_row \<Rightarrow> sign_row" where
  "apply_sign_change (SetSigned now tx) r =
     r\<lparr>s_state := S_Signed, s_signed_tx := Some tx,
       s_updated_at := (if s_state r \<noteq> S_Signed then now else s_updated_at r)\<rparr>"
| "apply_sign_change (SetFailed now) r =
     r\<lparr>s_state := S_Failed, s_updated_at := (if s_state r \<noteq> S_Failed then now else s_updated_at r)\<rparr>"

interpretation sg: lease_table s_execution_id s_revision apply_sign_change s_updated_at
  "\<lambda>r. s_state r = S_Signed" "\<lambda>r. s_state r = S_Reserved" s_indexed sign_moment
proof
  fix c r
  show "s_execution_id (apply_sign_change c r) = s_execution_id r" by (cases c) simp_all
  show "s_revision (apply_sign_change c r) = s_revision r" by (cases c) simp_all
  show "s_updated_at (apply_sign_change c r) = s_updated_at r \<or> s_updated_at (apply_sign_change c r) = sign_moment c"
    by (cases c) simp_all
qed (auto simp: s_indexed_def)

definition new_sign_row :: "db_time \<Rightarrow> execution_id \<Rightarrow> int \<Rightarrow> address \<Rightarrow> int \<Rightarrow> sign_row" where
  "new_sign_row now e c a v =
     \<lparr>s_execution_id = e, s_revision = v, s_chain_id = c, s_from_address = a, s_signed_tx = None,
      s_state = S_Reserved, s_created_at = now, s_updated_at = now\<rparr>"

definition sign_insert_stmt :: "execution_id \<Rightarrow> int \<Rightarrow> address \<Rightarrow> int option stmt" where
  "sign_insert_stmt e c a locked d =
     (case lease_insert ''sign_requests_pkey'' ''uniq_active_reservation'' s_execution_id s_revision
             s_updated_at (\<lambda>r. s_state r = S_Signed) (\<lambda>r. s_state r = S_Reserved) s_indexed bigint_ok
             (db_clock d) e (new_sign_row (db_clock d) e c a) (sign_requests d) of
        Inl err \<Rightarrow> Inl err
      | Inr (v, rows) \<Rightarrow> Inr (v, d\<lparr>sign_requests := rows\<rparr>))"

text \<open>
  \<open>UPDATE ... WHERE execution_id = .. AND revision = .. AND state = 'reserved' AND updated_at >
  now() - 5 min\<close>: the result is the number of rows changed.
\<close>

definition sign_settle_stmt :: "execution_id \<Rightarrow> int \<Rightarrow> (db_time \<Rightarrow> sign_change) \<Rightarrow> nat stmt" where
  "sign_settle_stmt e v ch locked d =
     (let hit = (\<lambda>r. s_execution_id r = e \<and> s_revision r = v \<and> s_state r = S_Reserved \<and>
                     db_clock d - minutes 5 < s_updated_at r) in
      Inr (length (filter hit (sign_requests d)),
           d\<lparr>sign_requests := map (\<lambda>r. if hit r then apply_sign_change (ch (db_clock d)) r else r) (sign_requests d)\<rparr>))"

definition sign_revert_stmt :: "execution_id \<Rightarrow> nat stmt" where
  "sign_revert_stmt e locked d =
     (case latest_row s_execution_id s_revision
             (\<lambda>r. s_state r = S_Signed \<and> (s_execution_id r, s_revision r) \<notin> set locked) e (sign_requests d) of
        None \<Rightarrow> Inr (0, d)
      | Some t \<Rightarrow>
          Inr (1, d\<lparr>sign_requests := update_row s_execution_id s_revision (s_execution_id t, s_revision t)
                      (apply_sign_change (SetFailed (db_clock d))) (sign_requests d)\<rparr>))"

definition latest_sign_stmt :: "execution_id \<Rightarrow> sign_row option stmt" where
  "latest_sign_stmt e locked d =
     Inr (latest_row s_execution_id s_revision (\<lambda>_. True) e (sign_requests d), d)"


section \<open>The handlers\<close>

definition sign_db :: "sql_error \<Rightarrow> local_error" where
  "sign_db e = Local_DatabaseError (SqlMessage e)"

type_synonym custody_fn = "address \<Rightarrow> local_error + bytes"
type_synonym signing_fn = "eip1559_transaction \<Rightarrow> bytes \<Rightarrow> local_error + signed_transaction"

text \<open>The engine of a shard loads the keys when it is created.\<close>

definition SignEngine_new :: "address_text \<Rightarrow> file_system \<Rightarrow> string \<Rightarrow> environment \<Rightarrow> policy run" where
  "SignEngine_new at fs manifest_dir env =
     (let keys_path = keys_path manifest_dir env in
      case fs_try_exists fs keys_path of
        Some False \<Rightarrow> Panic (''invalid path provided: '' @ fs_debug_path fs keys_path)
      | None \<Rightarrow> Panic (''unauthorized path provided: '' @ fs_debug_path fs keys_path)
      | Some True \<Rightarrow> load_file at fs keys_path)"

definition handle_sign ::
  "custody_fn \<Rightarrow> signing_fn \<Rightarrow> address \<Rightarrow> chain_id \<Rightarrow> execution_id \<Rightarrow> eip1559_transaction \<Rightarrow>
   (local_error, signed_transaction) prog" where
  "handle_sign custody signing from c e txn =
     andThen (lift_result (custody from)) (\<lambda>pvt_key.
       case u256_to_i64 (chain_u256 c) of
         None \<Rightarrow> throw (Local_Invariant ''Chain_id does not fit in i64'')
       | Some ci \<Rightarrow>
           andThen (sql sign_db (sign_insert_stmt e ci from)) (\<lambda>inserted.
             case inserted of
               None \<Rightarrow> throw (Local_Invariant ''Invariant failed while state insertion'')
             | Some v \<Rightarrow>
                 (case signing txn pvt_key of
                    Inr signed_tx \<Rightarrow>
                      andThen (sql sign_db (sign_settle_stmt e v (\<lambda>now. SetSigned now (rlp signed_tx)))) (\<lambda>n.
                        if n \<noteq> 1 then throw (Local_Invariant ''Invalid sign_requests state transition'')
                        else ret signed_tx)
                  | Inl err \<Rightarrow>
                      andThen (sql sign_db (sign_settle_stmt e v SetFailed)) (\<lambda>n.
                        if n \<noteq> 1 then throw (Local_Invariant ''Invalid sign_requests state transition'')
                        else throw err))))"

definition handle_revert :: "execution_id \<Rightarrow> (local_error, unit) prog" where
  "handle_revert e =
     andThen (sql sign_db (sign_revert_stmt e)) (\<lambda>rows_affected.
       if rows_affected > 0 then ret ()
       else
         andThen (sql sign_db (latest_sign_stmt e)) (\<lambda>existing.
           case existing of
             Some row \<Rightarrow>
               (if s_state row = S_Reserved
                then throw (Local_Internal ''txn should have been signed by now, update failed'')
                else if s_state row = S_Failed
                then throw (Local_Internal ''txn already updated to failed'')
                else throw (Local_Internal ''curropted state''))
           | None \<Rightarrow> throw (Local_Internal ''invalid execution_id'')))"

datatype sign_command =
    Sign address chain_id execution_id eip1559_transaction
  | Revert execution_id

datatype sign_reply =
    SignReply "local_error + signed_transaction"
  | RevertReply "local_error + unit"

fun sign_handle :: "custody_fn \<Rightarrow> signing_fn \<Rightarrow> sign_command \<Rightarrow> db \<Rightarrow> sign_reply \<times> db" where
  "sign_handle custody signing (Sign from c e txn) d =
     (case handle_sign custody signing from c e txn d of (r, d') \<Rightarrow> (SignReply r, d'))"
| "sign_handle custody signing (Revert e) d = (case handle_revert e d of (r, d') \<Rightarrow> (RevertReply r, d'))"

fun sign_run :: "custody_fn \<Rightarrow> signing_fn \<Rightarrow> sign_command list \<Rightarrow> db \<Rightarrow> sign_reply list \<times> db" where
  "sign_run custody signing [] d = ([], d)"
| "sign_run custody signing (cmd # cmds) d =
     (case sign_handle custody signing cmd d of (reply, d1) \<Rightarrow>
      case sign_run custody signing cmds d1 of (replies, d2) \<Rightarrow> (reply # replies, d2))"

definition SignHandle_sign ::
  "link \<Rightarrow> custody_fn \<Rightarrow> signing_fn \<Rightarrow> chain_id \<Rightarrow> address \<Rightarrow> execution_id \<Rightarrow> eip1559_transaction \<Rightarrow>
   (local_error, signed_transaction) prog" where
  "SignHandle_sign l custody signing c from e txn =
     actor_call l (Local_Internal ''sign actor has shut down'')
       (Local_Internal ''sign actor has dropped its reply channel'') (handle_sign custody signing from c e txn)"

definition SignHandle_revert :: "link \<Rightarrow> execution_id \<Rightarrow> (local_error, unit) prog" where
  "SignHandle_revert l e =
     actor_call l (Local_Internal ''sign actor has shut down'')
       (Local_Internal ''sign actor has dropped its reply channel'') (handle_revert e)"


section \<open>The invariant\<close>

definition sign_inv :: "db \<Rightarrow> bool" where
  "sign_inv d \<longleftrightarrow>
     request_inv s_execution_id s_revision s_updated_at s_indexed (db_clock d) (sign_requests d) \<and>
     (\<forall>r \<in> set (sign_requests d). s_state r = S_Signed \<longrightarrow> s_signed_tx r \<noteq> None)"

lemma sign_inv_time_stable [invariant_intros]: "time_stable sign_inv"
  by (auto simp: time_stable_def sign_inv_def intro: request_inv_later)

lemma new_sign_row_simps [simp]:
  "s_execution_id (new_sign_row now e c a v) = e" "s_revision (new_sign_row now e c a v) = v"
  "s_updated_at (new_sign_row now e c a v) = now" "s_state (new_sign_row now e c a v) = S_Reserved"
  "s_indexed (new_sign_row now e c a v)"
  by (simp_all add: new_sign_row_def s_indexed_def)

lemma sign_insert_keeps [invariant_intros]: "stmt_keeps sign_inv (sign_insert_stmt e c a)"
  unfolding stmt_keeps_def
proof (intro allI impI)
  fix locked d x d'
  assume inv: "sign_inv d" and run: "sign_insert_stmt e c a locked d = Inr (x, d')"
  then obtain rows where ins: "lease_insert ''sign_requests_pkey'' ''uniq_active_reservation'' s_execution_id
      s_revision s_updated_at (\<lambda>r. s_state r = S_Signed) (\<lambda>r. s_state r = S_Reserved) s_indexed bigint_ok
      (db_clock d) e (new_sign_row (db_clock d) e c a) (sign_requests d) = Inr (x, rows)"
    and d': "d' = d\<lparr>sign_requests := rows\<rparr>"
    by (auto simp: sign_insert_stmt_def split: sum.splits)
  have "request_inv s_execution_id s_revision s_updated_at s_indexed (db_clock d) rows"
    using inv by (intro sg.insert_keeps_inv [OF _ ins]) (simp_all add: sign_inv_def)
  moreover have "set rows \<subseteq> set (sign_requests d) \<union> {r. s_state r = S_Reserved}"
    using sg.insert_adds [OF ins] by auto
  ultimately show "sign_inv d'" using inv d' by (auto simp: sign_inv_def)
qed


lemma apply_sign_change_simps [simp]:
  "s_state (apply_sign_change (SetFailed now) r) = S_Failed"
  "s_state (apply_sign_change (SetSigned now tx) r) = S_Signed"
  "s_signed_tx (apply_sign_change (SetSigned now tx) r) = Some tx"
  by simp_all

lemma sign_update_inv:
  assumes "sign_inv d" "r0 \<in> set (sign_requests d)" "s_indexed r0"
    and "c = SetFailed (db_clock d) \<or> (\<exists>tx. c = SetSigned (db_clock d) tx)"
  shows "sign_inv (d\<lparr>sign_requests := update_row s_execution_id s_revision (s_execution_id r0, s_revision r0)
    (apply_sign_change c) (sign_requests d)\<rparr>)"
proof -
  have "request_inv s_execution_id s_revision s_updated_at s_indexed (db_clock d)
      (update_row s_execution_id s_revision (s_execution_id r0, s_revision r0) (apply_sign_change c) (sign_requests d))"
  proof (rule sg.update_keeps_inv)
    fix r
    assume "(s_execution_id r, s_revision r) = (s_execution_id r0, s_revision r0)" "r \<in> set (sign_requests d)"
    then have "r = r0"
      using assms(1,2) distinct_map_eq [of "\<lambda>r. (s_execution_id r, s_revision r)" "sign_requests d" r r0]
      by (simp add: sign_inv_def request_inv_def)
    with assms(3) show "s_indexed r" by simp
  qed (use assms(1,4) in \<open>auto simp: sign_inv_def\<close>)
  moreover have "s_signed_tx r \<noteq> None" if "r \<in> set (update_row s_execution_id s_revision
      (s_execution_id r0, s_revision r0) (apply_sign_change c) (sign_requests d))" "s_state r = S_Signed" for r
    using sg.set_update [OF that(1)] that(2) assms(1,4) by (auto simp: sign_inv_def)
  ultimately show ?thesis by (simp add: sign_inv_def)
qed

lemma sign_settle_eq:
  assumes "sign_inv d"
  defines "hit \<equiv> \<lambda>r. s_state r = S_Reserved \<and> db_clock d - minutes 5 < s_updated_at r"
  shows "sign_settle_stmt e v ch locked d =
    (if \<exists>r \<in> set (sign_requests d). (s_execution_id r, s_revision r) = (e, v) \<and> hit r
     then Inr (1, d\<lparr>sign_requests := update_row s_execution_id s_revision (e, v)
       (apply_sign_change (ch (db_clock d))) (sign_requests d)\<rparr>)
     else Inr (0, d))"
proof -
  have dist: "distinct (map (\<lambda>r. (s_execution_id r, s_revision r)) (sign_requests d))"
    using assms(1) by (simp add: sign_inv_def request_inv_def)
  define q where "q \<longleftrightarrow> (\<exists>r \<in> set (sign_requests d). (s_execution_id r, s_revision r) = (e, v) \<and> hit r)"
  have "sign_settle_stmt e v ch locked d =
      Inr (of_bool q, d\<lparr>sign_requests := if q then update_row s_execution_id s_revision (e, v)
        (apply_sign_change (ch (db_clock d))) (sign_requests d) else sign_requests d\<rparr>)"
    unfolding q_def sg.guarded_update [OF dist, of e v hit, symmetric]
    by (simp only: sign_settle_stmt_def Let_def hit_def)
  then show ?thesis unfolding q_def [symmetric] by simp
qed

lemma sign_settle_keeps [invariant_intros]:
  assumes "ch = SetFailed \<or> (\<exists>tx. ch = (\<lambda>now. SetSigned now tx))"
  shows "stmt_keeps sign_inv (sign_settle_stmt e v ch)"
  unfolding stmt_keeps_def
proof (intro allI impI)
  fix locked d x d'
  assume inv: "sign_inv d" and run: "sign_settle_stmt e v ch locked d = Inr (x, d')"
  show "sign_inv d'"
  proof (cases "\<exists>r \<in> set (sign_requests d). (s_execution_id r, s_revision r) = (e, v) \<and>
      s_state r = S_Reserved \<and> db_clock d - minutes 5 < s_updated_at r")
    case True
    then obtain r0 where r0: "r0 \<in> set (sign_requests d)" "(s_execution_id r0, s_revision r0) = (e, v)" "s_indexed r0"
      by (auto simp: s_indexed_def)
    have "sign_inv (d\<lparr>sign_requests := update_row s_execution_id s_revision (e, v)
        (apply_sign_change (ch (db_clock d))) (sign_requests d)\<rparr>)"
      using sign_update_inv [OF inv r0(1,3), of "ch (db_clock d)"] assms r0(2) by auto
    with run True show ?thesis by (auto simp: sign_settle_eq [OF inv])
  next
    case False
    then have "sign_settle_stmt e v ch locked d = Inr (0, d)" by (simp only: sign_settle_eq [OF inv] if_False)
    with run inv show ?thesis by simp
  qed
qed

lemma sign_revert_keeps [invariant_intros]: "stmt_keeps sign_inv (sign_revert_stmt e)"
  unfolding stmt_keeps_def
proof (intro allI impI)
  fix locked d x d'
  assume inv: "sign_inv d" and run: "sign_revert_stmt e locked d = Inr (x, d')"
  show "sign_inv d'"
  proof (cases "latest_row s_execution_id s_revision
      (\<lambda>r. s_state r = S_Signed \<and> (s_execution_id r, s_revision r) \<notin> set locked) e (sign_requests d)")
    case None
    with inv run show ?thesis by (simp add: sign_revert_stmt_def)
  next
    case (Some t)
    have "t \<in> set (sign_requests d)" "s_indexed t"
      using latest_row_Some(1,3) [OF Some] by (simp_all add: s_indexed_def)
    from sign_update_inv [OF inv this] Some run show ?thesis by (auto simp: sign_revert_stmt_def)
  qed
qed

lemma latest_sign_keeps [invariant_intros]: "stmt_keeps P (latest_sign_stmt e)"
  by (auto simp: stmt_keeps_def latest_sign_stmt_def)

lemma handle_sign_keeps [invariant_intros]: "keeps sign_inv (handle_sign custody signing from c e txn)"
  unfolding handle_sign_def by (intro invariant_intros) auto

lemma handle_revert_keeps [invariant_intros]: "keeps sign_inv (handle_revert e)"
  unfolding handle_revert_def by (intro invariant_intros)

lemma sign_handle_keeps: "sign_inv d \<Longrightarrow> sign_inv (snd (sign_handle custody signing cmd d))"
  using keepsD [OF handle_sign_keeps] keepsD [OF handle_revert_keeps]
  by (cases cmd) (auto split: prod.splits, (metis snd_conv)+)

lemma sign_run_inv: "sign_inv d \<Longrightarrow> sign_inv (snd (sign_run custody signing cmds d))"
proof (induction cmds arbitrary: d)
  case Nil
  then show ?case by simp
next
  case (Cons cmd cmds)
  have "sign_inv (snd (sign_run custody signing cmds (snd (sign_handle custody signing cmd d))))"
    by (intro Cons.IH sign_handle_keeps Cons.prems)
  then show ?case by (simp add: case_prod_beta)
qed


section \<open>What a sign request does\<close>

definition sign_held :: "db_time \<Rightarrow> execution_id \<Rightarrow> sign_row list \<Rightarrow> bool" where
  "sign_held now e rows \<longleftrightarrow> (\<exists>r \<in> set rows. s_execution_id r = e \<and>
     (s_state r = S_Signed \<or> s_state r = S_Reserved \<and> now - minutes 2 < s_updated_at r))"

definition sign_stuck :: "execution_id \<Rightarrow> sign_row list \<Rightarrow> bool" where
  "sign_stuck e rows \<longleftrightarrow> (\<exists>r \<in> set rows. s_execution_id r = e \<and> s_state r = S_Reserved)"

definition sign_revision :: "execution_id \<Rightarrow> sign_row list \<Rightarrow> int" where
  "sign_revision e rows = next_revision s_execution_id s_revision e rows"

lemma sign_insert_outcome:
  assumes "sign_inv d" "int (length (sign_requests d)) < i64_max"
  shows "sign_insert_stmt e c a locked d =
    (if sign_held (db_clock d) e (sign_requests d) then Inr (None, d)
     else if sign_stuck e (sign_requests d) then Inl (UniqueViolation ''uniq_active_reservation'')
     else Inr (Some (sign_revision e (sign_requests d)), d\<lparr>sign_requests := sign_requests d @
       [new_sign_row (db_clock d) e c a (sign_revision e (sign_requests d))]\<rparr>))"
proof -
  have inv: "request_inv s_execution_id s_revision s_updated_at s_indexed (db_clock d) (sign_requests d)"
    using assms(1) by (simp add: sign_inv_def)
  note out = sg.insert_outcome [of "db_clock d" "sign_requests d" bigint_ok e "new_sign_row (db_clock d) e c a",
      OF inv request_revision_fits [OF inv assms(2)], folded sign_held_def sign_stuck_def sign_revision_def]
  show ?thesis by (simp add: sign_insert_stmt_def out)
qed

lemma sign_settle_new:
  assumes "sign_inv d" "sign_inv (d\<lparr>sign_requests := sign_requests d @ [new_sign_row (db_clock d) e c a v]\<rparr>)"
    and "v = sign_revision e (sign_requests d)"
  shows "sign_settle_stmt e v ch locked (d\<lparr>sign_requests := sign_requests d @ [new_sign_row (db_clock d) e c a v]\<rparr>) =
    Inr (1, d\<lparr>sign_requests := sign_requests d @ [apply_sign_change (ch (db_clock d)) (new_sign_row (db_clock d) e c a v)]\<rparr>)"
proof -
  have "update_row s_execution_id s_revision (e, v) f (sign_requests d @ [new_sign_row (db_clock d) e c a v]) =
      sign_requests d @ [f (new_sign_row (db_clock d) e c a v)]" for f
    using update_row_append [of s_revision "new_sign_row (db_clock d) e c a v" s_execution_id "sign_requests d" f]
      assms(3) by (simp add: sign_revision_def)
  then show ?thesis by (simp add: sign_settle_eq [OF assms(2)] minutes_def)
qed


lemma handle_sign_outcome:
  assumes "sign_inv d" "quiet d" "int (length (sign_requests d)) < i64_max"
    and "custody from = Inr pvt_key" "u256_to_i64 (chain_u256 c) = Some ci"
  shows "handle_sign custody signing from c e txn d =
    (let row = new_sign_row (db_clock d) e ci from (sign_revision e (sign_requests d)) in
     if sign_held (db_clock d) e (sign_requests d)
     then (Inl (Local_Invariant ''Invariant failed while state insertion''), d)
     else if sign_stuck e (sign_requests d)
     then (Inl (sign_db (UniqueViolation ''uniq_active_reservation'')), d)
     else case signing txn pvt_key of
       Inr stx \<Rightarrow> (Inr stx, d\<lparr>sign_requests := sign_requests d @ [row\<lparr>s_state := S_Signed, s_signed_tx := Some (rlp stx)\<rparr>]\<rparr>)
     | Inl err \<Rightarrow> (Inl err, d\<lparr>sign_requests := sign_requests d @ [row\<lparr>s_state := S_Failed\<rparr>]\<rparr>))"
proof -
  let ?row = "new_sign_row (db_clock d) e ci from (sign_revision e (sign_requests d))"
  let ?d1 = "d\<lparr>sign_requests := sign_requests d @ [?row]\<rparr>"
  note ins = sign_insert_outcome [OF assms(1,3), of e ci "from"]
  show ?thesis
  proof (cases "sign_held (db_clock d) e (sign_requests d) \<or> sign_stuck e (sign_requests d)")
    case True
    then show ?thesis
      using assms(2,4,5) by (auto simp: handle_sign_def engine_simps ins Let_def)
  next
    case False
    then have "sign_insert_stmt e ci from [] d = Inr (Some (sign_revision e (sign_requests d)), ?d1)"
      by (simp add: ins)
    with sign_insert_keeps assms(1) have inv1: "sign_inv ?d1" by (auto simp: stmt_keeps_def)
    have q1: "quiet ?d1" using assms(2) by (simp add: quiet_def)
    note settle = sign_settle_new [OF assms(1) inv1 refl]
    have change: "apply_sign_change (SetFailed (db_clock d)) ?row = ?row\<lparr>s_state := S_Failed\<rparr>"
      "apply_sign_change (SetSigned (db_clock d) tx) ?row = ?row\<lparr>s_state := S_Signed, s_signed_tx := Some tx\<rparr>" for tx
      by (simp_all add: new_sign_row_def)
    from False show ?thesis
      using assms(2,4,5) q1
      by (simp add: handle_sign_def engine_simps ins settle change Let_def split: sum.splits)
  qed
qed


lemma sign_active_unique:
  assumes "sign_inv d" "r \<in> set (sign_requests d)" "r' \<in> set (sign_requests d)"
    and "s_indexed r" "s_indexed r'" "s_execution_id r = s_execution_id r'"
  shows "r = r'"
  using assms by (intro distinct_map_filter_eq [of s_execution_id s_indexed "sign_requests d"])
    (auto simp: sign_inv_def request_inv_def)

lemma revert_frees:
  assumes "sign_inv d" "quiet d" "handle_revert e d = (Inr (), d1)"
  shows "quiet d1" "db_clock d1 = db_clock d" "length (sign_requests d1) = length (sign_requests d)"
    "\<not> sign_held now e (sign_requests d1)" "\<not> sign_stuck e (sign_requests d1)"
proof -
  obtain t where t: "latest_row s_execution_id s_revision (\<lambda>r. s_state r = S_Signed) e (sign_requests d) = Some t"
    and d1: "d1 = d\<lparr>sign_requests := update_row s_execution_id s_revision (s_execution_id t, s_revision t)
      (apply_sign_change (SetFailed (db_clock d))) (sign_requests d)\<rparr>"
    using assms(2,3)
    by (auto simp: handle_revert_def engine_simps sign_revert_stmt_def latest_sign_stmt_def quiet_def
        split: option.splits if_splits)
  note tr = latest_row_Some(1-3) [OF t]
  have "\<not> s_indexed r" if "r \<in> set (sign_requests d1)" "s_execution_id r = e" for r
  proof -
    from that(1) have mem: "r \<in> set (update_row s_execution_id s_revision (s_execution_id t, s_revision t)
        (apply_sign_change (SetFailed (db_clock d))) (sign_requests d))"
      by (simp add: d1 del: apply_sign_change.simps)
    from sg.set_update [OF mem]
    consider (old) "r \<in> set (sign_requests d)" "(s_execution_id r, s_revision r) \<noteq> (s_execution_id t, s_revision t)"
      | (new) r0 where "r = apply_sign_change (SetFailed (db_clock d)) r0"
      by blast
    then show ?thesis
    proof cases
      case old
      then have "r \<noteq> t" by blast
      then show ?thesis
        using sign_active_unique [OF assms(1) old(1) tr(1)] tr(2,3) that(2) by (auto simp: s_indexed_def)
    next
      case new
      then show ?thesis by (simp add: s_indexed_def)
    qed
  qed
  then show "\<not> sign_held now e (sign_requests d1)" "\<not> sign_stuck e (sign_requests d1)"
    by (auto simp: sign_held_def sign_stuck_def s_indexed_def)
  show "quiet d1" "db_clock d1 = db_clock d" "length (sign_requests d1) = length (sign_requests d)"
    using assms(2) by (simp_all add: d1 quiet_def update_row_def)
qed


section \<open>Properties\<close>

text \<open>
  C16. The complete outcome of a signing request while the store is undisturbed. Without a key for the
  sender, or with a chain identifier that does not fit the column, the error is returned and nothing
  is recorded. Otherwise a request that is signed, or reserved for less than two minutes, makes the
  call fail with nothing changed, and so does one reserved for longer, since the unique index still
  holds it; a request of an execution that has no live one is carried out: the routine's signature is
  returned and stored, or its error is returned and the attempt is stored as failed.
\<close>

theorem sign_outcome:
  assumes "sign_inv d" "quiet d" "int (length (sign_requests d)) < i64_max"
  shows "handle_sign custody signing from c e txn d =
    (case custody from of
       Inl err \<Rightarrow> (Inl err, d)
     | Inr pvt_key \<Rightarrow>
        (case u256_to_i64 (chain_u256 c) of
           None \<Rightarrow> (Inl (Local_Invariant ''Chain_id does not fit in i64''), d)
         | Some ci \<Rightarrow>
            (let row = new_sign_row (db_clock d) e ci from (sign_revision e (sign_requests d)) in
             if sign_held (db_clock d) e (sign_requests d)
             then (Inl (Local_Invariant ''Invariant failed while state insertion''), d)
             else if sign_stuck e (sign_requests d)
             then (Inl (sign_db (UniqueViolation ''uniq_active_reservation'')), d)
             else case signing txn pvt_key of
               Inr stx \<Rightarrow> (Inr stx, d\<lparr>sign_requests := sign_requests d @
                 [row\<lparr>s_state := S_Signed, s_signed_tx := Some (rlp stx)\<rparr>]\<rparr>)
             | Inl err \<Rightarrow> (Inl err, d\<lparr>sign_requests := sign_requests d @ [row\<lparr>s_state := S_Failed\<rparr>]\<rparr>))))"
proof (cases "custody from")
  case (Inl err)
  then show ?thesis by (simp add: handle_sign_def prog_simps)
next
  case (Inr pvt_key)
  show ?thesis
  proof (cases "u256_to_i64 (chain_u256 c)")
    case None
    with Inr show ?thesis by (simp add: handle_sign_def prog_simps)
  next
    case (Some ci)
    with handle_sign_outcome [where custody = custody and signing = signing and txn = txn and e = e,
        OF assms Inr Some] Inr
    show ?thesis by simp
  qed
qed

definition sample_custody :: custody_fn where
  "sample_custody from = (if from = 7 then Inr (replicate 32 1) else Inl (Local_Internal ''no key''))"

definition sample_signing :: signing_fn where
  "sample_signing tx k = Inr \<lparr>rlp = [2, 192], with_nonce = nonce tx\<rparr>"

lemma sign_inv_init [simp]: "sign_inv init_db" "quiet init_db" "sign_requests init_db = []"
  by (simp_all add: sign_inv_def init_db_def quiet_def)

theorem sign_outcome_witness:
  "fst (handle_sign sample_custody sample_signing 7 (ChainId 1) 5 sample_tx init_db) =
     Inr \<lparr>rlp = [2, 192], with_nonce = TxNonce 7\<rparr>"
proof -
  have side: "sample_custody 7 = Inr (replicate 32 1)" "u256_to_i64 (chain_u256 (ChainId 1)) = Some 1"
    "int (length (sign_requests init_db)) < i64_max"
    "\<not> sign_held (db_clock init_db) 5 (sign_requests init_db)" "\<not> sign_stuck 5 (sign_requests init_db)"
    by (simp_all add: sample_custody_def u256_to_i64_def i64_max_def sign_held_def sign_stuck_def)
  show ?thesis
    using sign_outcome [where custody = sample_custody and signing = sample_signing and txn = sample_tx and e = 5,
      OF sign_inv_init(1,2) side(3), of 7 "ChainId 1"] side(1,2,4,5)
    by (simp add: Let_def sample_signing_def sample_tx_def)
qed

text \<open>
  Whatever commands the sign actor receives, and whatever faults and locks it meets, an execution
  never has two rows that are reserved or signed, its revisions count up from one without a gap, and
  every signed row carries its payload.
\<close>

theorem sign_table_invariant:
  "sign_inv (snd (sign_run custody signing cmds (init_db\<lparr>db_script := events\<rparr>)))"
  by (rule sign_run_inv) (simp add: sign_inv_def init_db_def)

text \<open>
  After a successful revert the execution can be signed again, at once and with any transaction:
  this is what the recovery from a wrong nonce relies on.
\<close>

theorem revert_then_sign_again:
  assumes "sign_inv d" "quiet d" "handle_revert e d = (Inr (), d1)"
    and "int (length (sign_requests d)) < i64_max" "custody from = Inr pvt_key"
    and "u256_to_i64 (chain_u256 c) = Some ci" "signing txn pvt_key = Inr stx"
  shows "fst (handle_sign custody signing from c e txn d1) = Inr stx \<and>
    (\<exists>r \<in> set (sign_requests (snd (handle_sign custody signing from c e txn d1))).
       s_execution_id r = e \<and> s_state r = S_Signed \<and> s_signed_tx r = Some (rlp stx))"
proof -
  have inv1: "sign_inv d1" using keepsD [OF handle_revert_keeps assms(1), of e] assms(3) by simp
  note f = revert_frees [OF assms(1-3)]
  have len: "int (length (sign_requests d1)) < i64_max" using assms(4) f(3) by simp
  show ?thesis
    unfolding handle_sign_outcome [where custody = custody and signing = signing and txn = txn and e = e,
      OF inv1 f(1) len assms(5,6)]
    using f(4,5) assms(7) by (simp add: Let_def new_sign_row_def)
qed

theorem revert_then_sign_again_witness:
  "fst (handle_sign sample_custody sample_signing 7 (ChainId 1) 5 sample_tx
     (snd (handle_revert 5 (snd (handle_sign sample_custody sample_signing 7 (ChainId 1) 5 sample_tx init_db))))) =
   Inr \<lparr>rlp = [2, 192], with_nonce = TxNonce 7\<rparr>"
proof -
  let ?d = "snd (handle_sign sample_custody sample_signing 7 (ChainId 1) 5 sample_tx init_db)"
  have inv: "sign_inv ?d" by (rule keepsD [OF handle_sign_keeps]) simp
  have side: "sample_custody 7 = Inr (replicate 32 1)" "u256_to_i64 (chain_u256 (ChainId 1)) = Some 1"
    "sample_signing sample_tx (replicate 32 1) = Inr \<lparr>rlp = [2, 192], with_nonce = TxNonce 7\<rparr>"
    by (simp_all add: sample_custody_def u256_to_i64_def i64_max_def sample_signing_def sample_tx_def)
  have d: "quiet ?d" "fst (handle_revert 5 ?d) = Inr ()" "int (length (sign_requests ?d)) < i64_max"
    by code_simp+
  have "handle_revert 5 ?d = (Inr (), snd (handle_revert 5 ?d))" using d(2) by (simp add: prod_eq_iff)
  from revert_then_sign_again [where custody = sample_custody and signing = sample_signing and txn = sample_tx,
    OF inv d(1) this d(3) side] show ?thesis by simp
qed

end
