(* ===== verification/Broadcast_Engine.thy ===== *)
theory Broadcast_Engine
  imports Rpc_Port
begin

text \<open>
  The broadcast actor, \<^verbatim>\<open>crate/actors/src/broadcast/engine.rs\<close>, over the table
  \<^verbatim>\<open>broadcast.broadcast_requests\<close> and the RPC port.
\<close>

section \<open>The table\<close>

definition b_indexed :: "broadcast_row \<Rightarrow> bool" where
  "b_indexed r \<longleftrightarrow> b_state r = B_Received \<or> b_state r = B_Submitted"

definition b_key :: "broadcast_row \<Rightarrow> row_key" where
  "b_key r = (b_execution_id r, b_revision r)"

datatype broadcast_change = SetSubmitted db_time tx_hash | SetRejected db_time string

fun broadcast_moment :: "broadcast_change \<Rightarrow> db_time" where
  "broadcast_moment (SetSubmitted now h) = now"
| "broadcast_moment (SetRejected now m) = now"

fun apply_broadcast_change :: "broadcast_change \<Rightarrow> broadcast_row \<Rightarrow> broadcast_row" where
  "apply_broadcast_change (SetSubmitted now h) r =
     r\<lparr>b_state := B_Submitted, b_tx_hash := Some h,
       b_updated_at := (if b_state r \<noteq> B_Submitted then now else b_updated_at r)\<rparr>"
| "apply_broadcast_change (SetRejected now m) r =
     r\<lparr>b_state := B_Rejected, b_rejection_reason := Some m,
       b_updated_at := (if b_state r \<noteq> B_Rejected then now else b_updated_at r)\<rparr>"

interpretation bc: lease_table b_execution_id b_revision apply_broadcast_change b_updated_at
  "\<lambda>r. b_state r = B_Submitted" "\<lambda>r. b_state r = B_Received" b_indexed broadcast_moment
proof
  fix c r
  show "b_execution_id (apply_broadcast_change c r) = b_execution_id r" by (cases c) simp_all
  show "b_revision (apply_broadcast_change c r) = b_revision r" by (cases c) simp_all
  show "b_updated_at (apply_broadcast_change c r) = b_updated_at r \<or>
      b_updated_at (apply_broadcast_change c r) = broadcast_moment c"
    by (cases c) simp_all
qed (auto simp: b_indexed_def)

definition new_broadcast_row :: "db_time \<Rightarrow> execution_id \<Rightarrow> int \<Rightarrow> address \<Rightarrow> int \<Rightarrow> broadcast_row" where
  "new_broadcast_row now e c a v =
     \<lparr>b_execution_id = e, b_revision = v, b_chain_id = c, b_from_address = a, b_tx_hash = None,
      b_state = B_Received, b_rejection_reason = None, b_created_at = now, b_updated_at = now\<rparr>"

definition broadcast_insert_stmt :: "execution_id \<Rightarrow> int \<Rightarrow> address \<Rightarrow> int option stmt" where
  "broadcast_insert_stmt e c a locked d =
     (case lease_insert ''broadcast_requests_pkey'' ''uniq_active_broadcast'' b_execution_id b_revision
             b_updated_at (\<lambda>r. b_state r = B_Submitted) (\<lambda>r. b_state r = B_Received) b_indexed bigint_ok
             (db_clock d) e (new_broadcast_row (db_clock d) e c a) (broadcast_requests d) of
        Inl err \<Rightarrow> Inl err
      | Inr (v, rows) \<Rightarrow> Inr (v, d\<lparr>broadcast_requests := rows\<rparr>))"

definition latest_broadcast_stmt :: "execution_id \<Rightarrow> broadcast_row stmt" where
  "latest_broadcast_stmt e locked d =
     (case latest_row b_execution_id b_revision (\<lambda>_. True) e (broadcast_requests d) of
        None \<Rightarrow> Inl RowNotFound | Some r \<Rightarrow> Inr (r, d))"

definition broadcast_settle_stmt :: "execution_id \<Rightarrow> int \<Rightarrow> (db_time \<Rightarrow> broadcast_change) \<Rightarrow> unit stmt" where
  "broadcast_settle_stmt e v ch locked d =
     (case unique_commit ''broadcast_requests_pkey'' ''uniq_active_broadcast'' b_key b_execution_id b_indexed
             (update_row b_execution_id b_revision (e, v) (apply_broadcast_change (ch (db_clock d)))
               (broadcast_requests d)) of
        Inl err \<Rightarrow> Inl err
      | Inr rows \<Rightarrow> Inr ((), d\<lparr>broadcast_requests := rows\<rparr>))"


section \<open>The handler\<close>

definition broadcast_db :: "sql_error \<Rightarrow> broadcast_error" where
  "broadcast_db e = Broadcast_DatabaseError (SqlMessage e)"

text \<open>The \<open>Display\<close> of the one error variant whose text the handler inspects.\<close>

definition show_rpc_failure :: "string \<Rightarrow> string" where
  "show_rpc_failure m = ''Rpc Failiure: '' @ m"

definition rpc_timeout :: db_time where
  "rpc_timeout = seconds 30"

definition fetch_current_nonce ::
  "'n rpc_port \<Rightarrow> chain_id \<Rightarrow> address \<Rightarrow> nat \<Rightarrow> ('n, broadcast_error, tx_nonce) wprog" where
  "fetch_current_nonce rp c a sticky =
     map_error Broadcast_RpcError (rpc_call (rpc_get_transaction_count rp c sticky a rpc_timeout))"

definition broadcast_existing :: "broadcast_row \<Rightarrow> broadcast_error + broadcast_outcome" where
  "broadcast_existing row =
     (case b_state row of
        B_Submitted \<Rightarrow>
          (case b_tx_hash row of
             None \<Rightarrow> Inl (Broadcast_Invariant ''Tx hash submitted with invalid format'')
           | Some h \<Rightarrow> Inr \<lparr>txn_hash = h\<rparr>)
      | B_Rejected \<Rightarrow>
          Inl (Broadcast_Rejected (case b_rejection_reason row of
                 None \<Rightarrow> ''rejection reason unknown to database'' | Some m \<Rightarrow> m))
      | B_Received \<Rightarrow> Inl (Broadcast_DatabaseError (TextMessage ''unknown database inclusion error'')))"

definition nonce_mismatch :: "string \<Rightarrow> bool" where
  "nonce_mismatch err_str \<longleftrightarrow> str_contains err_str ''nonce'' \<or> str_contains err_str ''known transaction''"

definition finish_broadcast ::
  "'n rpc_port \<Rightarrow> chain_id \<Rightarrow> address \<Rightarrow> execution_id \<Rightarrow> signed_transaction \<Rightarrow> nat \<Rightarrow> int \<Rightarrow> string + tx_hash \<Rightarrow>
   ('n, broadcast_error, broadcast_outcome) wprog" where
  "finish_broadcast rp c a e txn sticky v send_txn_result =
     (case send_txn_result of
        Inr h \<Rightarrow>
          andThen (on_db (sql broadcast_db (broadcast_settle_stmt e v (\<lambda>now. SetSubmitted now h))))
            (\<lambda>_. ret \<lparr>txn_hash = h\<rparr>)
      | Inl err \<Rightarrow>
          (let err_str = show_rpc_failure err in
           if nonce_mismatch err_str then
             andThen (fetch_current_nonce rp c a sticky) (\<lambda>nonce_on_chain.
             andThen (on_db (sql broadcast_db (broadcast_settle_stmt e v (\<lambda>now. SetRejected now err_str))))
               (\<lambda>_. throw (Broadcast_NonceTooLow nonce_on_chain (with_nonce txn))))
           else
             andThen (on_db (sql broadcast_db (broadcast_settle_stmt e v (\<lambda>now. SetRejected now err_str))))
               (\<lambda>_. throw (Broadcast_Rejected err_str))))"

definition handle_broadcast ::
  "'n rpc_port \<Rightarrow> chain_id \<Rightarrow> address \<Rightarrow> execution_id \<Rightarrow> signed_transaction \<Rightarrow> nat \<Rightarrow>
   ('n, broadcast_error, broadcast_outcome) wprog" where
  "handle_broadcast rp c a e txn sticky =
     (case u256_to_i64 (chain_u256 c) of
        None \<Rightarrow> throw (Broadcast_Invariant ''chain_id does not fit in i64'')
      | Some ci \<Rightarrow>
          andThen (on_db (sql broadcast_db (broadcast_insert_stmt e ci a))) (\<lambda>revision.
            case revision of
              None \<Rightarrow>
                andThen (on_db (sql broadcast_db (latest_broadcast_stmt e))) (\<lambda>row.
                  lift_result (broadcast_existing row))
            | Some v \<Rightarrow>
                andThen (attempt (rpc_call (rpc_send_raw_transaction rp c sticky (rlp txn) rpc_timeout)))
                  (finish_broadcast rp c a e txn sticky v)))"

datatype broadcast_command = Broadcast chain_id address execution_id signed_transaction nat

fun broadcast_handle ::
  "'n rpc_port \<Rightarrow> broadcast_command \<Rightarrow> db \<times> 'n \<Rightarrow> (broadcast_error + broadcast_outcome) \<times> db \<times> 'n" where
  "broadcast_handle rp (Broadcast c a e txn sticky) w = handle_broadcast rp c a e txn sticky w"

fun broadcast_run ::
  "'n rpc_port \<Rightarrow> broadcast_command list \<Rightarrow> db \<times> 'n \<Rightarrow> (broadcast_error + broadcast_outcome) list \<times> db \<times> 'n" where
  "broadcast_run rp [] w = ([], w)"
| "broadcast_run rp (cmd # cmds) w =
     (case broadcast_handle rp cmd w of (reply, w1) \<Rightarrow>
      case broadcast_run rp cmds w1 of (replies, w2) \<Rightarrow> (reply # replies, w2))"

definition BroadcastHandle_broadcast ::
  "link \<Rightarrow> 'n rpc_port \<Rightarrow> chain_id \<Rightarrow> address \<Rightarrow> execution_id \<Rightarrow> signed_transaction \<Rightarrow> nat \<Rightarrow>
   ('n, broadcast_error, broadcast_outcome) wprog" where
  "BroadcastHandle_broadcast l rp c a e txn sticky =
     actor_call l (Broadcast_Internal ''broadcast actor has shut down'')
       (Broadcast_Internal ''broadcast actor has dropped its reply channel'')
       (handle_broadcast rp c a e txn sticky)"


section \<open>The invariant\<close>

definition broadcast_inv :: "db \<Rightarrow> bool" where
  "broadcast_inv d \<longleftrightarrow>
     request_inv b_execution_id b_revision b_updated_at b_indexed (db_clock d) (broadcast_requests d) \<and>
     (\<forall>r \<in> set (broadcast_requests d). (b_state r = B_Submitted \<longrightarrow> b_tx_hash r \<noteq> None) \<and>
        (b_state r = B_Rejected \<longrightarrow> b_rejection_reason r \<noteq> None))"

lemma broadcast_inv_time_stable [invariant_intros]: "time_stable broadcast_inv"
  by (auto simp: time_stable_def broadcast_inv_def intro: request_inv_later)

lemma b_key_eta: "b_key = (\<lambda>r. (b_execution_id r, b_revision r))"
  by (rule ext) (simp add: b_key_def)

lemma new_broadcast_row_simps [simp]:
  "b_execution_id (new_broadcast_row now e c a v) = e" "b_revision (new_broadcast_row now e c a v) = v"
  "b_updated_at (new_broadcast_row now e c a v) = now" "b_state (new_broadcast_row now e c a v) = B_Received"
  "b_indexed (new_broadcast_row now e c a v)"
  by (simp_all add: new_broadcast_row_def b_indexed_def)

lemma broadcast_insert_keeps [invariant_intros]: "stmt_keeps broadcast_inv (broadcast_insert_stmt e c a)"
  unfolding stmt_keeps_def
proof (intro allI impI)
  fix locked d x d'
  assume inv: "broadcast_inv d" and run: "broadcast_insert_stmt e c a locked d = Inr (x, d')"
  then obtain rows where ins: "lease_insert ''broadcast_requests_pkey'' ''uniq_active_broadcast'' b_execution_id
      b_revision b_updated_at (\<lambda>r. b_state r = B_Submitted) (\<lambda>r. b_state r = B_Received) b_indexed bigint_ok
      (db_clock d) e (new_broadcast_row (db_clock d) e c a) (broadcast_requests d) = Inr (x, rows)"
    and d': "d' = d\<lparr>broadcast_requests := rows\<rparr>"
    by (auto simp: broadcast_insert_stmt_def split: sum.splits)
  have "request_inv b_execution_id b_revision b_updated_at b_indexed (db_clock d) rows"
    using inv by (intro bc.insert_keeps_inv [OF _ ins]) (simp_all add: broadcast_inv_def)
  moreover have "set rows \<subseteq> set (broadcast_requests d) \<union> {r. b_state r = B_Received}"
    using bc.insert_adds [OF ins] by auto
  ultimately show "broadcast_inv d'" using inv d' by (auto simp: broadcast_inv_def)
qed


text \<open>
  Rows that are submitted or rejected never change again: \<open>broadcast_from S\<close> is the invariant
  together with such rows \<open>S\<close>. Between admission and settlement the handler's own row stays received.
\<close>

definition broadcast_from :: "broadcast_row set \<Rightarrow> db \<Rightarrow> bool" where
  "broadcast_from S d \<longleftrightarrow>
     broadcast_inv d \<and> S \<subseteq> {r \<in> set (broadcast_requests d). b_state r \<noteq> B_Received}"

definition broadcast_open :: "broadcast_row set \<Rightarrow> execution_id \<Rightarrow> int \<Rightarrow> db \<Rightarrow> bool" where
  "broadcast_open S e v d \<longleftrightarrow>
     broadcast_from S d \<and> (\<exists>r \<in> set (broadcast_requests d). b_key r = (e, v) \<and> b_state r = B_Received)"

lemma broadcast_from_time_stable [invariant_intros]: "time_stable (broadcast_from S)"
  using broadcast_inv_time_stable by (auto simp: time_stable_def broadcast_from_def)

lemma broadcast_open_time_stable: "time_stable (broadcast_open S e v)"
  using broadcast_from_time_stable by (auto simp: time_stable_def broadcast_open_def)

lemma broadcast_insert_opens:
  assumes "broadcast_from S d" "broadcast_insert_stmt e c a locked d = Inr (x, d')"
  shows "broadcast_from S d'" "x = Some v \<Longrightarrow> broadcast_open S e v d'"
proof -
  have inv: "broadcast_inv d'" using assms broadcast_insert_keeps by (auto simp: stmt_keeps_def broadcast_from_def)
  have rows: "set (broadcast_requests d) \<subseteq> set (broadcast_requests d')"
    using assms(2) by (auto simp: broadcast_insert_stmt_def split: sum.splits dest!: bc.insert_adds)
  then show from': "broadcast_from S d'" using inv assms(1) by (auto simp: broadcast_from_def)
  assume "x = Some v"
  then have "\<exists>r \<in> set (broadcast_requests d'). b_key r = (e, v) \<and> b_state r = B_Received"
    using assms(2)
    by (auto simp: broadcast_insert_stmt_def b_key_def split: sum.splits dest!: bc.insert_adds)
  with from' show "broadcast_open S e v d'" by (simp add: broadcast_open_def)
qed

lemma broadcast_settle_open:
  assumes "broadcast_open S e v d"
  shows "broadcast_settle_stmt e v ch locked d = Inr ((), d\<lparr>broadcast_requests :=
      update_row b_execution_id b_revision (e, v) (apply_broadcast_change (ch (db_clock d))) (broadcast_requests d)\<rparr>)"
    and "broadcast_moment (ch (db_clock d)) = db_clock d \<Longrightarrow> broadcast_from S (d\<lparr>broadcast_requests :=
      update_row b_execution_id b_revision (e, v) (apply_broadcast_change (ch (db_clock d))) (broadcast_requests d)\<rparr>)"
proof -
  obtain r0 where r0: "r0 \<in> set (broadcast_requests d)" "b_key r0 = (e, v)" "b_state r0 = B_Received"
    and inv: "broadcast_inv d" and S: "S \<subseteq> {r \<in> set (broadcast_requests d). b_state r \<noteq> B_Received}"
    using assms by (auto simp: broadcast_open_def broadcast_from_def)
  have req: "request_inv b_execution_id b_revision b_updated_at b_indexed (db_clock d) (broadcast_requests d)"
    using inv by (simp add: broadcast_inv_def)
  have same: "r = r0" if "(b_execution_id r, b_revision r) = (e, v)" "r \<in> set (broadcast_requests d)" for r
    using req that r0(1,2) distinct_map_eq [of "\<lambda>r. (b_execution_id r, b_revision r)" "broadcast_requests d" r r0]
    by (simp add: request_inv_def b_key_def)
  have idx: "b_indexed r" if "(b_execution_id r, b_revision r) = (e, v)" "r \<in> set (broadcast_requests d)" for r
    using same [OF that] r0(3) by (simp add: b_indexed_def)
  let ?c = "ch (db_clock d)"
  let ?rows = "update_row b_execution_id b_revision (e, v) (apply_broadcast_change ?c) (broadcast_requests d)"
  have "distinct (map b_execution_id (filter b_indexed ?rows))"
    using req idx by (intro bc.filter_update_weaker) (auto simp: request_inv_def)
  moreover have "distinct (map b_key ?rows)"
    using req unfolding b_key_eta bc.update_keys by (simp add: request_inv_def)
  ultimately show "broadcast_settle_stmt e v ch locked d = Inr ((), d\<lparr>broadcast_requests := ?rows\<rparr>)"
    by (simp add: broadcast_settle_stmt_def unique_commit_def)
  assume m: "broadcast_moment ?c = db_clock d"
  have "request_inv b_execution_id b_revision b_updated_at b_indexed (db_clock d) ?rows"
    using req idx m by (intro bc.update_keeps_inv) auto
  moreover have "(b_state r = B_Submitted \<longrightarrow> b_tx_hash r \<noteq> None) \<and> (b_state r = B_Rejected \<longrightarrow> b_rejection_reason r \<noteq> None)"
    if "r \<in> set ?rows" for r
    using bc.set_update [OF that] inv by (cases ?c) (auto simp: broadcast_inv_def)
  moreover have "r \<in> set ?rows" if "r \<in> S" for r
    using that S same r0(3) by (intro bc.update_other) auto
  ultimately show "broadcast_from S (d\<lparr>broadcast_requests := ?rows\<rparr>)"
    using S by (auto simp: broadcast_from_def broadcast_inv_def)
qed

text \<open>
  The shape of the handler, for any two predicates: \<open>I\<close> holds of the store between requests, \<open>Own v\<close> while this
  handler owns revision \<open>v\<close> of its execution.
\<close>

locale broadcast_ownership =
  fixes I :: "db \<Rightarrow> bool" and e :: execution_id and Own :: "int \<Rightarrow> db \<Rightarrow> bool"
  assumes I_stable: "time_stable I"
    and Own_stable: "time_stable (Own v)"
    and Own_I: "Own v d \<Longrightarrow> I d"
    and insert_owns: "I d \<Longrightarrow> broadcast_insert_stmt e c a locked d = Inr (x, d') \<Longrightarrow>
      (case x of None \<Rightarrow> I d' | Some v \<Rightarrow> Own v d')"
    and settle_returns: "Own v d \<Longrightarrow> \<forall>now. broadcast_moment (ch now) = now \<Longrightarrow>
      broadcast_settle_stmt e v ch locked d = Inr (y, d') \<Longrightarrow> I d'"
begin

lemma hoare_insert:
  "hoare (\<lambda>w. I (fst w)) (on_db (sql f (broadcast_insert_stmt e c a)))
    (\<lambda>x w. case x of None \<Rightarrow> I (fst w) | Some v \<Rightarrow> Own v (fst w)) (\<lambda>w. I (fst w))"
  using insert_owns Own_I
  by (intro hoare_on_db [where Q = "\<lambda>x d. case x of None \<Rightarrow> I d | Some v \<Rightarrow> Own v d"] hoare_sql I_stable)
    (fastforce split: option.splits)+

lemma hoare_settle:
  assumes "\<And>now. broadcast_moment (ch now) = now"
  shows "hoare (\<lambda>w. Own v (fst w)) (on_db (sql f (broadcast_settle_stmt e v ch))) (\<lambda>_ w. I (fst w)) (\<lambda>w. I (fst w))"
  using assms settle_returns by (intro hoare_on_db hoare_sql Own_stable) (blast intro: Own_I)+

lemma hoare_settle_then:
  assumes "\<And>now. broadcast_moment (ch now) = now" "keeps (\<lambda>w. I (fst w)) m"
  shows "hoare (\<lambda>w. Own v (fst w)) (andThen (on_db (sql f (broadcast_settle_stmt e v ch))) (\<lambda>_. m))
    (\<lambda>_ w. I (fst w)) (\<lambda>w. I (fst w))"
  by (rule hoare_andThen [OF hoare_settle [OF assms(1)]]) (simp add: hoare_keeps_iff assms(2))

lemma hoare_call: "hoare (\<lambda>w. Own v (fst w)) (rpc_call f) (\<lambda>_ w. Own v (fst w)) (\<lambda>w. Own v (fst w))"
  using hoare_rpc_call [OF Own_stable] by blast

lemma hoare_fetch:
  "hoare (\<lambda>w. Own v (fst w)) (fetch_current_nonce rp c a sticky) (\<lambda>_ w. Own v (fst w)) (\<lambda>w. I (fst w))"
  unfolding fetch_current_nonce_def
  using hoare_call Own_I by (intro hoare_map_error) (fastforce simp: hoare_def split: prod.splits sum.splits)

lemma hoare_send:
  "hoare (\<lambda>w. Own v (fst w)) (attempt (rpc_call f)) (\<lambda>_ w. Own v (fst w)) (\<lambda>w. I (fst w))"
  using hoare_attempt [OF hoare_call [of v f]] Own_I by (fastforce simp: hoare_def split: prod.splits sum.splits)

lemma handle_broadcast_owned: "keeps (\<lambda>w. I (fst w)) (handle_broadcast rp c a e txn sticky)"
proof (cases "u256_to_i64 (chain_u256 c)")
  case None
  then show ?thesis by (simp add: handle_broadcast_def keeps_throw)
next
  case (Some ci)
  have "keeps (\<lambda>w. I (fst w))
      (andThen (on_db (sql broadcast_db (latest_broadcast_stmt e))) (\<lambda>row. lift_result (broadcast_existing row)))"
    by (intro invariant_intros I_stable) (auto simp: stmt_keeps_def latest_broadcast_stmt_def split: option.splits)
  then have "hoare (\<lambda>w. I (fst w)) (handle_broadcast rp c a e txn sticky) (\<lambda>_ w. I (fst w)) (\<lambda>w. I (fst w))"
    unfolding handle_broadcast_def finish_broadcast_def Some option.case Let_def
    by (intro hoare_andThen [OF hoare_insert])
       (auto split: option.split sum.split intro!: hoare_andThen [OF hoare_send] hoare_andThen [OF hoare_fetch]
          hoare_settle_then keeps_ret keeps_throw simp: hoare_keeps_iff)
  then show ?thesis by (simp add: hoare_keeps_iff)
qed

end

interpretation open_row: broadcast_ownership "broadcast_from S" e "broadcast_open S e"
  for S e
proof
  show "time_stable (broadcast_from S)" by (rule broadcast_from_time_stable)
  show "time_stable (broadcast_open S e v)" for v by (rule broadcast_open_time_stable)
  show "broadcast_from S d" if "broadcast_open S e v d" for v d
    using that by (simp add: broadcast_open_def)
  show "case x of None \<Rightarrow> broadcast_from S d' | Some v \<Rightarrow> broadcast_open S e v d'"
    if "broadcast_from S d" "broadcast_insert_stmt e c a locked d = Inr (x, d')" for c a locked d x d'
    using broadcast_insert_opens [OF that] by (simp split: option.split)
  show "broadcast_from S d'"
    if op: "broadcast_open S e v d" and m: "\<forall>now. broadcast_moment (ch now) = now"
      and run: "broadcast_settle_stmt e v ch locked d = Inr (y, d')" for v d ch locked y d'
    using broadcast_settle_open(2) [OF op, of ch] m broadcast_settle_open(1) [OF op, of ch locked] run by simp
qed

lemma handle_broadcast_keeps:
  "keeps (\<lambda>w. broadcast_from S (fst w)) (handle_broadcast rp c a e txn sticky)"
  by (rule open_row.handle_broadcast_owned)

lemma broadcast_run_from: "broadcast_from S (fst w) \<Longrightarrow> broadcast_from S (fst (snd (broadcast_run rp cmds w)))"
proof (induction cmds arbitrary: w)
  case Nil
  then show ?case by simp
next
  case (Cons cmd cmds)
  have "broadcast_from S (fst (snd (broadcast_handle rp cmd w)))"
    using keepsD [OF handle_broadcast_keeps, of S w] Cons.prems by (cases cmd) (simp only: broadcast_handle.simps)
  from Cons.IH [OF this] show ?case by (simp add: case_prod_beta)
qed


section \<open>What a broadcast request does\<close>

definition broadcast_held :: "db_time \<Rightarrow> execution_id \<Rightarrow> broadcast_row list \<Rightarrow> bool" where
  "broadcast_held now e rows \<longleftrightarrow> (\<exists>r \<in> set rows. b_execution_id r = e \<and>
     (b_state r = B_Submitted \<or> b_state r = B_Received \<and> now - minutes 2 < b_updated_at r))"

definition broadcast_stuck :: "execution_id \<Rightarrow> broadcast_row list \<Rightarrow> bool" where
  "broadcast_stuck e rows \<longleftrightarrow> (\<exists>r \<in> set rows. b_execution_id r = e \<and> b_state r = B_Received)"

definition broadcast_revision :: "execution_id \<Rightarrow> broadcast_row list \<Rightarrow> int" where
  "broadcast_revision e rows = next_revision b_execution_id b_revision e rows"

lemma broadcast_insert_outcome:
  assumes "broadcast_inv d" "int (length (broadcast_requests d)) < i64_max"
  shows "broadcast_insert_stmt e c a locked d =
    (if broadcast_held (db_clock d) e (broadcast_requests d) then Inr (None, d)
     else if broadcast_stuck e (broadcast_requests d) then Inl (UniqueViolation ''uniq_active_broadcast'')
     else Inr (Some (broadcast_revision e (broadcast_requests d)), d\<lparr>broadcast_requests := broadcast_requests d @
       [new_broadcast_row (db_clock d) e c a (broadcast_revision e (broadcast_requests d))]\<rparr>))"
proof -
  have inv: "request_inv b_execution_id b_revision b_updated_at b_indexed (db_clock d) (broadcast_requests d)"
    using assms(1) by (simp add: broadcast_inv_def)
  note out = bc.insert_outcome [of "db_clock d" "broadcast_requests d" bigint_ok e "new_broadcast_row (db_clock d) e c a",
      OF inv request_revision_fits [OF inv assms(2)], folded broadcast_held_def broadcast_stuck_def broadcast_revision_def]
  show ?thesis by (simp add: broadcast_insert_stmt_def out)
qed

lemma broadcast_settle_new:
  fixes c :: int and a :: address and k :: nat
  assumes "broadcast_inv d" "int (length (broadcast_requests d)) < i64_max"
    and "\<not> broadcast_held (db_clock d) e (broadcast_requests d)" "\<not> broadcast_stuck e (broadcast_requests d)"
  defines "v \<equiv> broadcast_revision e (broadcast_requests d)"
  defines "row \<equiv> new_broadcast_row (db_clock d) e c a v"
  defines "d1 \<equiv> elapse k [] (d\<lparr>broadcast_requests := broadcast_requests d @ [row]\<rparr>)"
  shows "broadcast_settle_stmt e v ch locked d1 = Inr ((), d1\<lparr>broadcast_requests :=
    broadcast_requests d @ [apply_broadcast_change (ch (db_clock d1)) row]\<rparr>)"
proof -
  have "broadcast_insert_stmt e c a [] d = Inr (Some v, d\<lparr>broadcast_requests := broadcast_requests d @ [row]\<rparr>)"
    using broadcast_insert_outcome [OF assms(1,2)] assms(3,4) by (simp add: v_def row_def)
  from broadcast_insert_opens(2) [OF _ this refl, of "{}"] assms(1)
  have "broadcast_open {} e v (d\<lparr>broadcast_requests := broadcast_requests d @ [row]\<rparr>)" by (simp add: broadcast_from_def)
  then have op: "broadcast_open {} e v d1"
    using broadcast_open_time_stable [of "{}" e v] by (simp add: time_stable_def d1_def)
  have "update_row b_execution_id b_revision (e, v) f (broadcast_requests d @ [row]) = broadcast_requests d @ [f row]" for f
    using update_row_append [of b_revision row b_execution_id "broadcast_requests d" f]
    by (simp add: row_def v_def broadcast_revision_def)
  then show ?thesis using broadcast_settle_open(1) [OF op, of ch] by (simp add: d1_def)
qed


lemma broadcast_held_row:
  assumes "broadcast_inv d" "broadcast_held now e (broadcast_requests d)"
  obtains r where "latest_row b_execution_id b_revision (\<lambda>_. True) e (broadcast_requests d) = Some r"
    "r \<in> set (broadcast_requests d)" "b_execution_id r = e"
    "b_state r = B_Submitted \<and> b_tx_hash r \<noteq> None \<or> b_state r = B_Received"
proof -
  obtain r where r: "r \<in> set (broadcast_requests d)" "b_execution_id r = e" "b_state r = B_Submitted \<or> b_state r = B_Received"
    using assms(2) by (auto simp: broadcast_held_def)
  then have "latest_row b_execution_id b_revision (\<lambda>_. True) e (broadcast_requests d) = Some r"
    using assms(1) bc.latest_is_indexed [of "db_clock d" "broadcast_requests d" r]
    by (auto simp: broadcast_inv_def b_indexed_def)
  with r assms(1) that show ?thesis by (auto simp: broadcast_inv_def)
qed

lemma handle_broadcast_not_admitted:
  assumes "broadcast_inv d" "quiet d" "int (length (broadcast_requests d)) < i64_max"
    and "u256_to_i64 (chain_u256 c) = Some ci"
    and "broadcast_held (db_clock d) e (broadcast_requests d) \<or> broadcast_stuck e (broadcast_requests d)"
  shows "handle_broadcast rp c a e txn sticky (d, n) =
    (if broadcast_held (db_clock d) e (broadcast_requests d)
     then (broadcast_existing (the (latest_row b_execution_id b_revision (\<lambda>_. True) e (broadcast_requests d))), (d, n))
     else (Inl (broadcast_db (UniqueViolation ''uniq_active_broadcast'')), (d, n)))"
proof (cases "broadcast_held (db_clock d) e (broadcast_requests d)")
  case True
  then obtain r where "latest_row b_execution_id b_revision (\<lambda>_. True) e (broadcast_requests d) = Some r"
    using broadcast_held_row [OF assms(1)] by blast
  with True show ?thesis
    using assms(2,4) broadcast_insert_outcome [OF assms(1,3), of e ci a]
    by (simp add: handle_broadcast_def engine_simps latest_broadcast_stmt_def)
next
  case False
  with assms(5) show ?thesis
    using assms(2,4) broadcast_insert_outcome [OF assms(1,3), of e ci a]
    by (simp add: handle_broadcast_def engine_simps)
qed

lemma elapse_elapse: "elapse k2 evs (elapse k evs0 d) = elapse (k + k2) evs d"
  by (simp add: elapse_def)

lemma handle_broadcast_admitted:
  assumes "broadcast_inv d" "quiet d" "int (length (broadcast_requests d)) < i64_max"
    and "u256_to_i64 (chain_u256 c) = Some ci"
    and "\<not> broadcast_held (db_clock d) e (broadcast_requests d)" "\<not> broadcast_stuck e (broadcast_requests d)"
  shows "handle_broadcast rp c a e txn sticky (d, n) =
    (let row = new_broadcast_row (db_clock d) e ci a (broadcast_revision e (broadcast_requests d));
         after = (\<lambda>k row'. (elapse k [] d)\<lparr>broadcast_requests := broadcast_requests d @ [row']\<rparr>)
     in case rpc_send_raw_transaction rp c sticky (rlp txn) rpc_timeout n of
       (Inr h, k, n1) \<Rightarrow>
         (Inr \<lparr>txn_hash = h\<rparr>, after k (apply_broadcast_change (SetSubmitted (db_clock d + int k) h) row), n1)
     | (Inl err, k, n1) \<Rightarrow>
         if nonce_mismatch (show_rpc_failure err) then
           (case rpc_get_transaction_count rp c sticky a rpc_timeout n1 of
              (Inr m, k2, n2) \<Rightarrow>
                (Inl (Broadcast_NonceTooLow m (with_nonce txn)),
                 after (k + k2) (apply_broadcast_change (SetRejected (db_clock d + int (k + k2)) (show_rpc_failure err)) row), n2)
            | (Inl err2, k2, n2) \<Rightarrow> (Inl (Broadcast_RpcError err2), after (k + k2) row, n2))
         else
           (Inl (Broadcast_Rejected (show_rpc_failure err)),
            after k (apply_broadcast_change (SetRejected (db_clock d + int k) (show_rpc_failure err)) row), n1))"
proof -
  let ?row = "new_broadcast_row (db_clock d) e ci a (broadcast_revision e (broadcast_requests d))"
  let ?d1 = "d\<lparr>broadcast_requests := broadcast_requests d @ [?row]\<rparr>"
  have ins: "broadcast_insert_stmt e ci a [] d = Inr (Some (broadcast_revision e (broadcast_requests d)), ?d1)"
    using broadcast_insert_outcome [OF assms(1,3)] assms(5,6) by simp
  have script: "db_script d = []" using assms(2) by (simp add: quiet_def)
  have q: "quiet (elapse k [] d')" for k d' by (simp add: quiet_def)
  have el: "(elapse k [] ?d1)\<lparr>broadcast_requests := rows\<rparr> = (elapse k [] d)\<lparr>broadcast_requests := rows\<rparr>" for k rows
    by (simp add: elapse_def)
  note settle = broadcast_settle_new [where c = ci and a = a, OF assms(1,3,5,6)]
  show ?thesis
    using assms(2,4)
    by (auto simp: handle_broadcast_def finish_broadcast_def fetch_current_nonce_def engine_simps ins script q settle Let_def
        elapse_elapse el simp del: apply_broadcast_change.simps split: prod.splits sum.splits)
qed


section \<open>Properties\<close>

text \<open>
  C13. An execution whose transaction has been submitted is never sent again: a repeated request, at
  any later time on an undisturbed store, answers with the recorded hash, and neither the store nor
  the network changes. The chain identifier fits its column, as in every request that got so far.
\<close>

theorem submitted_never_resent:
  assumes "broadcast_inv d" "quiet d" "int (length (broadcast_requests d)) < i64_max"
    and "u256_to_i64 (chain_u256 c) = Some ci"
    and "r \<in> set (broadcast_requests d)" "b_execution_id r = e" "b_state r = B_Submitted"
  shows "\<exists>h. b_tx_hash r = Some h \<and>
    handle_broadcast rp c a e txn sticky (d, n) = (Inr \<lparr>txn_hash = h\<rparr>, (d, n))"
proof -
  have held: "broadcast_held (db_clock d) e (broadcast_requests d)"
    using assms(5-7) by (auto simp: broadcast_held_def)
  have "latest_row b_execution_id b_revision (\<lambda>_. True) e (broadcast_requests d) = Some r"
    using assms(1,5-7) bc.latest_is_indexed [of "db_clock d" "broadcast_requests d" r]
    by (auto simp: broadcast_inv_def b_indexed_def)
  moreover have "b_tx_hash r \<noteq> None" using assms(1,5,7) by (simp add: broadcast_inv_def)
  ultimately show ?thesis
    using handle_broadcast_not_admitted [OF assms(1-4), of e rp a txn sticky n] held assms(7)
    by (auto simp: broadcast_existing_def)
qed

text \<open>
  A network that acknowledges every transaction with the same hash and counts the calls, and one
  that refuses with a text naming the nonce and cannot tell the current one either.
\<close>

definition sample_port :: "nat rpc_port" where
  "sample_port = \<lparr>rpc_send_raw_transaction = (\<lambda>c i bs t n. (Inr 99, 5, n + 1)),
     rpc_get_transaction_count = (\<lambda>c i a t n. (Inr (TxNonce 4), 1, n + 1)),
     rpc_get_transaction_receipt = (\<lambda>c i h t n. (Inr None, 1, n + 1)),
     rpc_get_block_number = (\<lambda>c i t n. (Inr 1, 1, n + 1))\<rparr>"

definition refusing_port :: "nat rpc_port" where
  "refusing_port = sample_port\<lparr>rpc_send_raw_transaction := (\<lambda>c i bs t n. (Inl ''nonce too low'', 1, n + 1)),
     rpc_get_transaction_count := (\<lambda>c i a t n. (Inl ''NonceFetchError'', 1, n + 1))\<rparr>"

definition sample_signed :: signed_transaction where
  "sample_signed = \<lparr>rlp = [2, 192], with_nonce = TxNonce 3\<rparr>"

definition submitted_db :: db where
  "submitted_db = fst (snd (handle_broadcast sample_port (ChainId 1) 7 5 sample_signed 0 (init_db, 0)))"

lemma broadcast_inv_init: "broadcast_inv init_db" "quiet init_db" "broadcast_requests init_db = []"
  by (simp_all add: broadcast_inv_def init_db_def quiet_def)

lemma broadcast_inv_after:
  "broadcast_inv (fst w) \<Longrightarrow> broadcast_inv (fst (snd (handle_broadcast rp c a e txn sticky w)))"
  using keepsD [OF handle_broadcast_keeps [of "{}"], of w] by (simp add: broadcast_from_def)

lemma submitted_db_rows: "quiet submitted_db" "map b_state (broadcast_requests submitted_db) = [B_Submitted]"
  "map b_execution_id (broadcast_requests submitted_db) = [5]" "int (length (broadcast_requests submitted_db)) < i64_max"
  by code_simp+

theorem submitted_never_resent_witness:
  "handle_broadcast sample_port (ChainId 1) 7 5 sample_signed 0 (submitted_db, 1) =
     (Inr \<lparr>txn_hash = 99\<rparr>, (submitted_db, 1))"
proof -
  have inv: "broadcast_inv submitted_db"
    unfolding submitted_db_def using broadcast_inv_after [of "(init_db, 0)"] broadcast_inv_init(1) by simp
  obtain r where r: "broadcast_requests submitted_db = [r]" "b_state r = B_Submitted" "b_execution_id r = 5"
    using submitted_db_rows(2,3) by (auto simp: map_eq_Cons_conv)
  have "map b_tx_hash (broadcast_requests submitted_db) = [Some 99]" by code_simp
  then have h: "b_tx_hash r = Some 99" using r(1) by simp
  have c: "u256_to_i64 (chain_u256 (ChainId 1)) = Some 1" by code_simp
  from submitted_never_resent [OF inv submitted_db_rows(1,4) c, of r 5 sample_port 7 sample_signed 0 1] r h
  show ?thesis by auto
qed

text \<open>
  C14. On an undisturbed store a request that is admitted (its chain identifier fits, its execution is
  neither submitted nor received) sends the payload exactly once. Success is recorded with the hash of
  the provider; a refusal that mentions the nonce is answered with the nonce of the chain and
  recorded as rejected; any other refusal is recorded as rejected and returned. When the chain's
  nonce cannot be fetched the error is returned and the row stays received.
\<close>

theorem broadcast_outcome:
  assumes "broadcast_inv d" "quiet d" "int (length (broadcast_requests d)) < i64_max"
    and "u256_to_i64 (chain_u256 c) = Some ci"
    and "\<not> broadcast_held (db_clock d) e (broadcast_requests d)" "\<not> broadcast_stuck e (broadcast_requests d)"
  shows "handle_broadcast rp c a e txn sticky (d, n) =
    (let row = new_broadcast_row (db_clock d) e ci a (broadcast_revision e (broadcast_requests d));
         after = (\<lambda>k row'. (elapse k [] d)\<lparr>broadcast_requests := broadcast_requests d @ [row']\<rparr>)
     in case rpc_send_raw_transaction rp c sticky (rlp txn) rpc_timeout n of
       (Inr h, k, n1) \<Rightarrow>
         (Inr \<lparr>txn_hash = h\<rparr>, after k (apply_broadcast_change (SetSubmitted (db_clock d + int k) h) row), n1)
     | (Inl err, k, n1) \<Rightarrow>
         if nonce_mismatch (show_rpc_failure err) then
           (case rpc_get_transaction_count rp c sticky a rpc_timeout n1 of
              (Inr m, k2, n2) \<Rightarrow>
                (Inl (Broadcast_NonceTooLow m (with_nonce txn)),
                 after (k + k2) (apply_broadcast_change (SetRejected (db_clock d + int (k + k2)) (show_rpc_failure err)) row), n2)
            | (Inl err2, k2, n2) \<Rightarrow> (Inl (Broadcast_RpcError err2), after (k + k2) row, n2))
         else
           (Inl (Broadcast_Rejected (show_rpc_failure err)),
            after k (apply_broadcast_change (SetRejected (db_clock d + int k) (show_rpc_failure err)) row), n1))"
  using assms by (rule handle_broadcast_admitted)

theorem broadcast_outcome_witness:
  "fst (handle_broadcast sample_port (ChainId 1) 7 5 sample_signed 0 (init_db, 0)) = Inr \<lparr>txn_hash = 99\<rparr> \<and>
   fst (handle_broadcast refusing_port (ChainId 1) 7 5 sample_signed 0 (init_db, 0)) =
     Inl (Broadcast_RpcError ''NonceFetchError'')"
proof -
  have side: "u256_to_i64 (chain_u256 (ChainId 1)) = Some 1" "int (length (broadcast_requests init_db)) < i64_max"
    "\<not> broadcast_held (db_clock init_db) 5 (broadcast_requests init_db)" "\<not> broadcast_stuck 5 (broadcast_requests init_db)"
    "nonce_mismatch (show_rpc_failure ''nonce too low'')"
    by code_simp+
  note o = broadcast_outcome [OF broadcast_inv_init(1,2) side(2,1,3,4)]
  from o [of sample_port 7 sample_signed 0 0] o [of refusing_port 7 sample_signed 0 0] side(5) show ?thesis
    by (simp add: sample_port_def refusing_port_def Let_def)
qed

text \<open>
  C15. A row left received, as when the chain's nonce could not be fetched, blocks its execution for
  good: on an undisturbed store, while the lease is alive, and after it as well, every later request fails without a call to
  the network and without changing the store.
\<close>

theorem received_row_blocks_forever:
  assumes "broadcast_inv d" "quiet d" "int (length (broadcast_requests d)) < i64_max"
    and "u256_to_i64 (chain_u256 c) = Some ci" "broadcast_stuck e (broadcast_requests d)"
  shows "\<exists>m. handle_broadcast rp c a e txn sticky (elapse k [] d, n) =
    (Inl (Broadcast_DatabaseError m), (elapse k [] d, n))"
proof -
  let ?d = "elapse k [] d"
  have inv: "broadcast_inv ?d" using assms(1) broadcast_inv_time_stable by (simp add: time_stable_def)
  have q: "quiet ?d" by (simp add: quiet_def)
  obtain r where r: "r \<in> set (broadcast_requests d)" "b_execution_id r = e" "b_state r = B_Received"
    using assms(5) by (auto simp: broadcast_stuck_def)
  have "latest_row b_execution_id b_revision (\<lambda>_. True) e (broadcast_requests d) = Some r"
    using assms(1) r bc.latest_is_indexed [of "db_clock d" "broadcast_requests d" r]
    by (auto simp: broadcast_inv_def b_indexed_def)
  then show ?thesis
    using handle_broadcast_not_admitted [OF inv q _ assms(4), of e rp a txn sticky n] assms(3,5) r(3)
    by (auto simp: broadcast_existing_def broadcast_db_def)
qed

definition blocked_broadcast_db :: db where
  "blocked_broadcast_db = fst (snd (handle_broadcast refusing_port (ChainId 1) 7 5 sample_signed 0 (init_db, 0)))"

theorem received_row_blocks_forever_witness:
  "\<exists>m. handle_broadcast sample_port (ChainId 1) 7 5 sample_signed 0 (elapse 300000000 [] blocked_broadcast_db, 0) =
     (Inl (Broadcast_DatabaseError m), (elapse 300000000 [] blocked_broadcast_db, 0))"
proof -
  have inv: "broadcast_inv blocked_broadcast_db"
    unfolding blocked_broadcast_db_def using broadcast_inv_after [of "(init_db, 0)"] broadcast_inv_init(1) by simp
  have side: "quiet blocked_broadcast_db" "int (length (broadcast_requests blocked_broadcast_db)) < i64_max"
    "u256_to_i64 (chain_u256 (ChainId 1)) = Some 1" "broadcast_stuck 5 (broadcast_requests blocked_broadcast_db)"
    by code_simp+
  show ?thesis by (rule received_row_blocks_forever [OF inv side])
qed

text \<open>
  Whatever requests arrive and whatever the store and the network do, the table keeps its
  invariant and every submitted or rejected row stays in it unchanged.
\<close>

theorem broadcast_history_immutable:
  assumes "broadcast_inv (fst w)" "r \<in> set (broadcast_requests (fst w))" "b_state r \<noteq> B_Received"
  shows "broadcast_inv (fst (snd (broadcast_run rp cmds w))) \<and>
    r \<in> set (broadcast_requests (fst (snd (broadcast_run rp cmds w))))"
  using broadcast_run_from [of "{r}" w rp cmds] assms by (simp add: broadcast_from_def)

theorem broadcast_history_immutable_witness:
  "\<exists>r. b_tx_hash r = Some 99 \<and>
     r \<in> set (broadcast_requests (fst (snd (broadcast_run refusing_port
       [Broadcast (ChainId 1) 7 5 sample_signed 0, Broadcast (ChainId 1) 7 6 sample_signed 0] (submitted_db, 1)))))"
proof -
  have inv: "broadcast_inv (fst (submitted_db, 1 :: nat))"
    unfolding submitted_db_def using broadcast_inv_after [of "(init_db, 0)"] broadcast_inv_init(1) by simp
  obtain r where r: "broadcast_requests submitted_db = [r]" "b_state r = B_Submitted"
    using submitted_db_rows(2) by (auto simp: map_eq_Cons_conv)
  have "map b_tx_hash (broadcast_requests submitted_db) = [Some 99]" by code_simp
  then have h: "b_tx_hash r = Some 99" using r(1) by simp
  from broadcast_history_immutable [OF inv, of r] r
  have "r \<in> set (broadcast_requests (fst (snd (broadcast_run rp cmds (submitted_db, 1 :: nat)))))" for rp cmds by simp
  with h show ?thesis by blast
qed

end
