(* ===== verification/Validator_Engine.thy ===== *)
theory Validator_Engine
  imports Rpc_Port
begin

text \<open>
  The validator actor, \<^verbatim>\<open>crate/actors/src/validator\<close>, over the table
  \<^verbatim>\<open>validator.validation_requests\<close> and the RPC port. The polling loop runs with fuel: \<open>None\<close> is a loop
  that has not returned yet, and the loop is proved to return when the poll interval is positive.
\<close>

section \<open>Configuration\<close>

record validator_config =
  poll_interval :: nat
  validator_timeout :: nat
  required_confirmations :: u64

definition default_validator_config :: validator_config where
  "default_validator_config =
     \<lparr>poll_interval = 2000000, validator_timeout = 300000000, required_confirmations = 0\<rparr>"


section \<open>The table\<close>

definition v_pending :: "validation_row \<Rightarrow> bool" where
  "v_pending r \<longleftrightarrow> v_state r = V_Pending"

definition v_settled :: "validation_row \<Rightarrow> bool" where
  "v_settled r \<longleftrightarrow> v_state r = V_Included \<or> v_state r = V_NotIncluded"

text \<open>\<open>SET state\<close> under the trigger that stamps every update.\<close>

definition set_validation_state :: "db_time \<times> validation_state \<Rightarrow> validation_row \<Rightarrow> validation_row" where
  "set_validation_state c r = r\<lparr>v_state := snd c, v_updated_at := fst c\<rparr>"

interpretation vl: lease_table v_execution_id v_revision set_validation_state v_updated_at
  v_settled v_pending v_pending fst
  by unfold_locales (auto simp: set_validation_state_def)

definition int4_ok :: "int \<Rightarrow> bool" where
  "int4_ok i \<longleftrightarrow> - (2 ^ 31) \<le> i \<and> i < 2 ^ 31"

definition new_validation_row :: "db_time \<Rightarrow> execution_id \<Rightarrow> int \<Rightarrow> tx_hash \<Rightarrow> int \<Rightarrow> validation_row" where
  "new_validation_row now e c h v =
     \<lparr>v_execution_id = e, v_revision = v, v_chain_id = c, v_tx_hash = h, v_state = V_Pending,
      v_created_at = now, v_updated_at = now\<rparr>"

definition validation_insert_stmt :: "execution_id \<Rightarrow> int \<Rightarrow> tx_hash \<Rightarrow> int option stmt" where
  "validation_insert_stmt e c h locked d =
     (case lease_insert ''validation_requests_pkey'' ''idx_validation_no_concurrent'' v_execution_id v_revision
             v_updated_at v_settled v_pending v_pending int4_ok (db_clock d) e
             (new_validation_row (db_clock d) e c h) (validation_requests d) of
        Inl err \<Rightarrow> Inl err
      | Inr (v, rows) \<Rightarrow> Inr (v, d\<lparr>validation_requests := rows\<rparr>))"

definition latest_validation_stmt :: "execution_id \<Rightarrow> validation_row option stmt" where
  "latest_validation_stmt e locked d =
     Inr (latest_row v_execution_id v_revision (\<lambda>_. True) e (validation_requests d), d)"

definition outcome_state :: "validator_outcome \<Rightarrow> validation_state" where
  "outcome_state outcome =
     (case outcome of Included b k \<Rightarrow> V_Included | NotIncluded \<Rightarrow> V_NotIncluded | Timeout \<Rightarrow> V_TimedOut)"

definition show_validation_state :: "validation_state \<Rightarrow> string" where
  "show_validation_state s =
     (case s of V_Pending \<Rightarrow> ''pending'' | V_Included \<Rightarrow> ''included'' | V_NotIncluded \<Rightarrow> ''not_included''
      | V_TimedOut \<Rightarrow> ''timed_out'')"

definition validation_update_stmt :: "execution_id \<Rightarrow> validation_state \<Rightarrow> nat stmt" where
  "validation_update_stmt e s locked d =
     (case latest_row v_execution_id v_revision
             (\<lambda>r. v_pending r \<and> (v_execution_id r, v_revision r) \<notin> set locked) e (validation_requests d) of
        None \<Rightarrow> Inr (0, d)
      | Some t \<Rightarrow>
          Inr (1, d\<lparr>validation_requests := update_row v_execution_id v_revision (v_execution_id t, v_revision t)
                      (set_validation_state (db_clock d, s)) (validation_requests d)\<rparr>))"


section \<open>The handler\<close>

definition check_cached_result :: "execution_id \<Rightarrow> (validator_error, validator_outcome option) prog" where
  "check_cached_result e =
     andThen (sql Validator_Database (latest_validation_stmt e)) (\<lambda>row.
       ret (case row of None \<Rightarrow> None
            | Some r \<Rightarrow>
                (case v_state r of V_Included \<Rightarrow> Some (Included 0 0) | V_NotIncluded \<Rightarrow> Some NotIncluded
                 | _ \<Rightarrow> None)))"

definition record_validation_request ::
  "chain_id \<Rightarrow> execution_id \<Rightarrow> tx_hash \<Rightarrow> (validator_error, unit) prog" where
  "record_validation_request c e h =
     (case u256_to_i64 (chain_u256 c) of
        None \<Rightarrow> throw (Validator_Internal ''chain_id does not fit in i64'')
      | Some ci \<Rightarrow> andThen (sql Validator_Database (validation_insert_stmt e ci h)) (\<lambda>_. ret ()))"

definition record_outcome :: "execution_id \<Rightarrow> validator_outcome \<Rightarrow> (validator_error, unit) prog" where
  "record_outcome e outcome =
     andThen (sql Validator_Database (validation_update_stmt e (outcome_state outcome))) (\<lambda>rows_affected.
       if rows_affected > 0 then ret ()
       else
         andThen (sql Validator_Database (latest_validation_stmt e)) (\<lambda>existing.
           case existing of
             Some row \<Rightarrow>
               (if v_state row \<noteq> V_Pending
                then throw (Validator_Internal (''validation already completed with state '' @ [CHR 0x27] @
                       show_validation_state (v_state row) @ [CHR 0x27] @ '', cannot update to '' @ [CHR 0x27] @
                       show_validation_state (outcome_state outcome) @ [CHR 0x27]))
                else throw (Validator_Internal ''validation should have been pending, update failed''))
           | None \<Rightarrow> throw (Validator_Internal ''invalid execution_id, no validation request found'')))"

definition u64_saturating_sub :: "u64 \<Rightarrow> u64 \<Rightarrow> u64" where
  "u64_saturating_sub a b = (if b \<le> a then a - b else 0)"

definition receipt_timeout :: db_time where
  "receipt_timeout = seconds 30"

text \<open>One turn of the loop: an outcome to return, or none to go on after the sleep.\<close>

definition validate_poll ::
  "'n rpc_port \<Rightarrow> validator_config \<Rightarrow> chain_id \<Rightarrow> execution_id \<Rightarrow> tx_hash \<Rightarrow> nat \<Rightarrow> db_time \<Rightarrow>
   ('n, validator_error, validator_outcome option) wprog" where
  "validate_poll rp cfg c e h sticky start =
     andThen instant_now (\<lambda>now.
       if now - start > int (validator_timeout cfg) then
         andThen (on_db (record_outcome e Timeout)) (\<lambda>_. ret (Some Timeout))
       else
         andThen (attempt (rpc_call (rpc_get_transaction_receipt rp c sticky h receipt_timeout))) (\<lambda>r.
           case r of
             Inr (Some receipt) \<Rightarrow>
               (if \<not> rcpt_status receipt then
                  andThen (on_db (record_outcome e NotIncluded)) (\<lambda>_. throw (Validator_Reverted h))
                else
                  andThen (map_error Validator_RpcError (rpc_call (rpc_get_block_number rp c sticky receipt_timeout)))
                    (\<lambda>current_block.
                      let tx_block = (case rcpt_block_number receipt of None \<Rightarrow> 0 | Some b \<Rightarrow> b);
                          confirmations = u64_saturating_sub current_block tx_block
                      in if confirmations \<ge> required_confirmations cfg then
                           andThen (on_db (record_outcome e (Included tx_block confirmations)))
                             (\<lambda>_. ret (Some (Included tx_block confirmations)))
                         else andThen (sleep (poll_interval cfg)) (\<lambda>_. ret None)))
           | Inr None \<Rightarrow> andThen (sleep (poll_interval cfg)) (\<lambda>_. ret None)
           | Inl err \<Rightarrow>
               andThen (on_db (record_outcome e NotIncluded)) (\<lambda>_. throw (Validator_RpcError err))))"

fun validate_loop ::
  "nat \<Rightarrow> 'n rpc_port \<Rightarrow> validator_config \<Rightarrow> chain_id \<Rightarrow> execution_id \<Rightarrow> tx_hash \<Rightarrow> nat \<Rightarrow> db_time \<Rightarrow>
   db \<times> 'n \<Rightarrow> ((validator_error + validator_outcome) \<times> db \<times> 'n) option" where
  "validate_loop 0 rp cfg c e h sticky start w = None"
| "validate_loop (Suc fuel) rp cfg c e h sticky start w =
     (case validate_poll rp cfg c e h sticky start w of
        (Inl err, w') \<Rightarrow> Some (Inl err, w')
      | (Inr (Some outcome), w') \<Rightarrow> Some (Inr outcome, w')
      | (Inr None, w') \<Rightarrow> validate_loop fuel rp cfg c e h sticky start w')"

definition handle_validation ::
  "nat \<Rightarrow> 'n rpc_port \<Rightarrow> validator_config \<Rightarrow> chain_id \<Rightarrow> execution_id \<Rightarrow> tx_hash \<Rightarrow> nat \<Rightarrow>
   db \<times> 'n \<Rightarrow> ((validator_error + validator_outcome) \<times> db \<times> 'n) option" where
  "handle_validation fuel rp cfg c e h sticky w =
     (case on_db (check_cached_result e) w of
        (Inl err, w1) \<Rightarrow> Some (Inl err, w1)
      | (Inr (Some cache), w1) \<Rightarrow> Some (Inr cache, w1)
      | (Inr None, w1) \<Rightarrow>
         (case on_db (record_validation_request c e h) w1 of
            (Inl err, w2) \<Rightarrow> Some (Inl err, w2)
          | (Inr _, w2) \<Rightarrow> validate_loop fuel rp cfg c e h sticky (db_clock (fst w2)) w2))"

text \<open>The number of turns that is always enough, and the handle's call with that fuel.\<close>

definition loop_bound :: "validator_config \<Rightarrow> nat" where
  "loop_bound cfg = validator_timeout cfg div poll_interval cfg + 2"

datatype validator_command = Validate chain_id execution_id tx_hash nat

fun validator_handle ::
  "'n rpc_port \<Rightarrow> validator_config \<Rightarrow> validator_command \<Rightarrow> db \<times> 'n \<Rightarrow>
   ((validator_error + validator_outcome) \<times> db \<times> 'n) option" where
  "validator_handle rp cfg (Validate c e h sticky) w = handle_validation (loop_bound cfg) rp cfg c e h sticky w"

fun validator_run ::
  "'n rpc_port \<Rightarrow> validator_config \<Rightarrow> validator_command list \<Rightarrow> db \<times> 'n \<Rightarrow>
   ((validator_error + validator_outcome) list \<times> db \<times> 'n) option" where
  "validator_run rp cfg [] w = Some ([], w)"
| "validator_run rp cfg (cmd # cmds) w =
     (case validator_handle rp cfg cmd w of None \<Rightarrow> None
      | Some (reply, w1) \<Rightarrow>
          (case validator_run rp cfg cmds w1 of None \<Rightarrow> None | Some (replies, w2) \<Rightarrow> Some (reply # replies, w2)))"

definition handle_validation_prog ::
  "'n rpc_port \<Rightarrow> validator_config \<Rightarrow> chain_id \<Rightarrow> execution_id \<Rightarrow> tx_hash \<Rightarrow> nat \<Rightarrow>
   ('n, validator_error, validator_outcome) wprog" where
  "handle_validation_prog rp cfg c e h sticky w = the (handle_validation (loop_bound cfg) rp cfg c e h sticky w)"

definition ValidatorHandle_validate ::
  "link \<Rightarrow> 'n rpc_port \<Rightarrow> validator_config \<Rightarrow> chain_id \<Rightarrow> execution_id \<Rightarrow> tx_hash \<Rightarrow> nat \<Rightarrow>
   ('n, validator_error, validator_outcome) wprog" where
  "ValidatorHandle_validate l rp cfg c e h sticky =
     actor_call l (Validator_Internal ''validator actor shutdown'')
       (Validator_Internal ''validator actor has droped the reply channel'')
       (handle_validation_prog rp cfg c e h sticky)"


section \<open>The loop returns\<close>

lemma poll_continues:
  assumes "validate_poll rp cfg c e h sticky start w = (Inr None, w')"
  shows "db_clock (fst w) - start \<le> int (validator_timeout cfg)"
    "db_clock (fst w) + int (poll_interval cfg) \<le> db_clock (fst w')"
  using assms
  by (auto simp: validate_poll_def andThen_def instant_now_def attempt_def rpc_call_def map_error_def sleep_def
      ret_def throw_def on_db_def Let_def split: prod.splits sum.splits option.splits if_splits)

lemma validate_loop_returns:
  assumes "0 < poll_interval cfg" "start + int (i * poll_interval cfg) \<le> db_clock (fst w)"
    and "i \<le> validator_timeout cfg div poll_interval cfg + 1" "loop_bound cfg \<le> fuel + i"
  shows "\<exists>r. validate_loop fuel rp cfg c e h sticky start w = Some r"
  using assms(2-4)
proof (induction fuel arbitrary: i w)
  case 0
  then show ?case by (simp add: loop_bound_def)
next
  case (Suc fuel)
  obtain r w' where poll: "validate_poll rp cfg c e h sticky start w = (r, w')"
    by (cases "validate_poll rp cfg c e h sticky start w")
  show ?case
  proof (cases "r = Inr None")
    case True
    note cont = poll_continues [OF poll [unfolded True]]
    have "int (i * poll_interval cfg) \<le> int (validator_timeout cfg)" using Suc.prems(1) cont(1) by linarith
    then have "i \<le> validator_timeout cfg div poll_interval cfg"
      using assms(1) by (simp only: of_nat_le_iff less_eq_div_iff_mult_less_eq)
    then have "\<exists>r. validate_loop fuel rp cfg c e h sticky start w' = Some r"
      using Suc.prems(1,3) cont(2) by (intro Suc.IH [of "Suc i"]) (auto simp: algebra_simps)
    with poll True show ?thesis by simp
  next
    case False
    with poll show ?thesis by (auto split: sum.splits option.splits)
  qed
qed

lemma handle_validation_returns:
  assumes "0 < poll_interval cfg" "loop_bound cfg \<le> fuel"
  shows "\<exists>r. handle_validation fuel rp cfg c e h sticky w = Some r"
proof -
  have "\<exists>r. validate_loop fuel rp cfg c e h sticky (db_clock (fst w2)) w2 = Some r" for w2
    using validate_loop_returns [OF assms(1), of _ 0 w2 fuel] assms(2) by simp
  then show ?thesis
    by (auto simp add: handle_validation_def simp del: split_paired_Ex split: prod.splits sum.splits option.splits)
qed

lemma validate_loop_more_fuel:
  "validate_loop fuel rp cfg c e h sticky start w = Some r \<Longrightarrow>
   validate_loop (fuel + k) rp cfg c e h sticky start w = Some r"
  by (induction fuel arbitrary: w) (auto split: prod.splits sum.splits option.splits)

lemma handle_validation_more_fuel:
  "handle_validation fuel rp cfg c e h sticky w = Some r \<Longrightarrow>
   handle_validation (fuel + k) rp cfg c e h sticky w = Some r"
  by (auto simp: handle_validation_def validate_loop_more_fuel split: prod.splits sum.splits option.splits)


section \<open>The invariant\<close>

definition validator_inv :: "db \<Rightarrow> bool" where
  "validator_inv d \<longleftrightarrow>
     request_inv v_execution_id v_revision v_updated_at v_pending (db_clock d) (validation_requests d)"

lemma validator_inv_time_stable [invariant_intros]: "time_stable validator_inv"
  by (auto simp: time_stable_def validator_inv_def intro: request_inv_later)

lemma new_validation_row_simps [simp]:
  "v_execution_id (new_validation_row now e c h v) = e" "v_revision (new_validation_row now e c h v) = v"
  "v_updated_at (new_validation_row now e c h v) = now" "v_state (new_validation_row now e c h v) = V_Pending"
  "v_pending (new_validation_row now e c h v)"
  by (simp_all add: new_validation_row_def v_pending_def)

lemma validation_insert_keeps [invariant_intros]: "stmt_keeps validator_inv (validation_insert_stmt e c h)"
  by (auto simp: stmt_keeps_def validation_insert_stmt_def validator_inv_def split: sum.splits
      dest!: vl.insert_keeps_inv [rotated])

lemma validation_update_keeps [invariant_intros]:
  assumes "s \<noteq> V_Pending"
  shows "stmt_keeps validator_inv (validation_update_stmt e s)"
  using assms vl.update_keeps_inv [of "db_clock d" "validation_requests d" "(db_clock d, s)" for d]
  by (auto simp: stmt_keeps_def validation_update_stmt_def validator_inv_def v_pending_def set_validation_state_def
      split: option.splits)

lemma latest_validation_keeps [invariant_intros]: "stmt_keeps P (latest_validation_stmt e)"
  by (auto simp: stmt_keeps_def latest_validation_stmt_def)

lemma check_cached_result_keeps [invariant_intros]: "time_stable P \<Longrightarrow> keeps P (check_cached_result e)"
  unfolding check_cached_result_def by (intro invariant_intros)

lemma record_validation_request_keeps [invariant_intros]:
  "keeps validator_inv (record_validation_request c e h)"
  unfolding record_validation_request_def by (intro invariant_intros)

lemma record_outcome_keeps [invariant_intros]: "keeps validator_inv (record_outcome e outcome)"
  unfolding record_outcome_def
  by (intro invariant_intros) (auto simp: outcome_state_def split: validator_outcome.splits)

text \<open>A predicate of the store that both bookkeeping statements keep is kept by a whole validation.\<close>

definition bookkeeping_keeps :: "(db \<Rightarrow> bool) \<Rightarrow> bool" where
  "bookkeeping_keeps P \<longleftrightarrow> time_stable P \<and> (\<forall>e outcome. keeps P (record_outcome e outcome)) \<and>
     (\<forall>c e h. keeps P (record_validation_request c e h))"

lemma bookkeepingD:
  assumes "bookkeeping_keeps P"
  shows "time_stable P" "keeps P (record_outcome e outcome)" "keeps P (record_validation_request c e h)"
  using assms by (simp_all add: bookkeeping_keeps_def)

lemma bookkeeping_validator_inv: "bookkeeping_keeps validator_inv"
  by (simp add: bookkeeping_keeps_def validator_inv_time_stable record_outcome_keeps record_validation_request_keeps)

lemma validate_poll_keeps:
  "bookkeeping_keeps P \<Longrightarrow> keeps (\<lambda>w. P (fst w)) (validate_poll rp cfg c e h sticky start)"
  unfolding validate_poll_def Let_def by (intro invariant_intros bookkeepingD)

lemma validate_loop_keeps:
  assumes "bookkeeping_keeps P"
  shows "P (fst w) \<Longrightarrow> validate_loop fuel rp cfg c e h sticky start w = Some (r, w') \<Longrightarrow> P (fst w')"
proof (induction fuel arbitrary: w)
  case 0
  then show ?case by simp
next
  case (Suc fuel)
  have "P (fst (snd (validate_poll rp cfg c e h sticky start w)))"
    using keepsD [OF validate_poll_keeps [OF assms], of w] Suc.prems(1) by simp
  with Suc show ?case by (auto split: prod.splits sum.splits option.splits)
qed

lemma handle_validation_keeps:
  assumes "bookkeeping_keeps P" "P (fst w)" "handle_validation fuel rp cfg c e h sticky w = Some (r, w')"
  shows "P (fst w')"
proof -
  have 1: "P (fst (snd (on_db (check_cached_result e) w)))"
    using keepsD [OF keeps_on_db [OF check_cached_result_keeps [OF bookkeepingD(1) [OF assms(1)]]], of w] assms(2) by simp
  have 2: "P (fst (snd (on_db (record_validation_request c e h) w1)))" if "P (fst w1)" for w1 :: "db \<times> 'a"
    using keepsD [OF keeps_on_db [OF bookkeepingD(3) [OF assms(1)]], of w1] that by simp
  from assms(3) 1 2 show ?thesis
    by (auto simp: handle_validation_def split: prod.splits sum.splits option.splits)
       (metis assms(1) fst_conv snd_conv validate_loop_keeps)+
qed

lemma handle_validation_prog_keeps:
  fixes rp :: "'n rpc_port"
  assumes "0 < poll_interval cfg" "bookkeeping_keeps P"
  shows "keeps (\<lambda>w. P (fst w)) (handle_validation_prog rp cfg c e h sticky)"
  unfolding keeps_def
proof (intro allI impI)
  fix w :: "db \<times> 'n" assume P: "P (fst w)"
  obtain r w' where run: "handle_validation (loop_bound cfg) rp cfg c e h sticky w = Some (r, w')"
    using handle_validation_returns [OF assms(1) order_refl] by (metis prod.collapse)
  then show "P (fst (snd (handle_validation_prog rp cfg c e h sticky w)))"
    using handle_validation_keeps [OF assms(2) P run] by (simp add: handle_validation_prog_def)
qed


section \<open>What the outcomes mean\<close>

lemma sql_Inr:
  assumes "sql f q d = (Inr r, d')"
  obtains locked d0 where "q locked d0 = Inr (r, d')" "nonce_assignments d0 = nonce_assignments d"
    "sign_requests d0 = sign_requests d" "broadcast_requests d0 = broadcast_requests d"
    "validation_requests d0 = validation_requests d" "transaction_intents d0 = transaction_intents d"
    "db_clock d \<le> db_clock d0"
  using assms
  by (auto simp: sql_def run_stmt_def Let_def split: prod.splits sum.splits db_fault.splits)

lemma record_outcome_Inr:
  assumes "record_outcome e outcome d = (Inr (), d')"
  shows "\<exists>r \<in> set (validation_requests d'). v_execution_id r = e \<and> v_state r = outcome_state outcome"
proof -
  obtain k d1 where upd: "sql Validator_Database (validation_update_stmt e (outcome_state outcome)) d = (Inr k, d1)"
    and k: "0 < k" and d': "d' = d1"
    using assms
    by (auto simp: record_outcome_def andThen_def ret_def throw_def split: prod.splits sum.splits if_splits option.splits)
  from upd obtain locked d0 where q: "validation_update_stmt e (outcome_state outcome) locked d0 = Inr (k, d1)"
    by (rule sql_Inr)
  then obtain t where t: "latest_row v_execution_id v_revision
      (\<lambda>r. v_pending r \<and> (v_execution_id r, v_revision r) \<notin> set locked) e (validation_requests d0) = Some t"
    and d1: "validation_requests d1 = update_row v_execution_id v_revision (v_execution_id t, v_revision t)
        (set_validation_state (db_clock d0, outcome_state outcome)) (validation_requests d0)"
    using k by (auto simp: validation_update_stmt_def split: option.splits)
  have "set_validation_state (db_clock d0, outcome_state outcome) t \<in> set (validation_requests d1)"
    using latest_row_Some(1) [OF t] by (auto simp: d1 vl.set_update_iff)
  then show ?thesis
    using latest_row_Some(2) [OF t] d' by (intro bexI) (auto simp: set_validation_state_def)
qed

text \<open>The evidence for an inclusion: a successful receipt and a block number read right after it.\<close>

definition inclusion_seen ::
  "'n rpc_port \<Rightarrow> validator_config \<Rightarrow> chain_id \<Rightarrow> tx_hash \<Rightarrow> nat \<Rightarrow> u64 \<Rightarrow> u64 \<Rightarrow> bool" where
  "inclusion_seen rp cfg c h sticky b k \<longleftrightarrow>
     (\<exists>n receipt t1 n1 current t2 n2.
        rpc_get_transaction_receipt rp c sticky h receipt_timeout n = (Inr (Some receipt), t1, n1) \<and>
        rcpt_status receipt \<and>
        rpc_get_block_number rp c sticky receipt_timeout n1 = (Inr current, t2, n2) \<and>
        b = (case rcpt_block_number receipt of None \<Rightarrow> 0 | Some b \<Rightarrow> b) \<and>
        k = u64_saturating_sub current b \<and> required_confirmations cfg \<le> k)"

lemma validate_poll_outcome:
  assumes "validate_poll rp cfg c e h sticky start w = (Inr (Some outcome), w')"
  shows "(\<exists>r \<in> set (validation_requests (fst w')). v_execution_id r = e \<and> v_state r = outcome_state outcome)"
    "outcome \<noteq> NotIncluded" "outcome = Included b k \<Longrightarrow> inclusion_seen rp cfg c h sticky b k"
    "outcome = Timeout \<Longrightarrow> int (validator_timeout cfg) < db_clock (fst w) - start"
proof -
  show "\<exists>r \<in> set (validation_requests (fst w')). v_execution_id r = e \<and> v_state r = outcome_state outcome"
    using assms record_outcome_Inr [of e outcome]
    by (fastforce simp: validate_poll_def andThen_def instant_now_def attempt_def rpc_call_def map_error_def sleep_def
        ret_def throw_def on_db_def Let_def split: prod.splits sum.splits option.splits if_splits)
  show "outcome \<noteq> NotIncluded"
    using assms
    by (auto simp: validate_poll_def andThen_def instant_now_def attempt_def rpc_call_def map_error_def sleep_def
        ret_def throw_def on_db_def Let_def split: prod.splits sum.splits option.splits if_splits)
  show "inclusion_seen rp cfg c h sticky b k" if "outcome = Included b k"
    using assms that unfolding inclusion_seen_def
    by (fastforce simp: validate_poll_def andThen_def instant_now_def attempt_def rpc_call_def map_error_def sleep_def
        ret_def throw_def on_db_def Let_def split: prod.splits sum.splits option.splits if_splits)
  show "int (validator_timeout cfg) < db_clock (fst w) - start" if "outcome = Timeout"
    using assms that
    by (auto simp: validate_poll_def andThen_def instant_now_def attempt_def rpc_call_def map_error_def sleep_def
        ret_def throw_def on_db_def Let_def split: prod.splits sum.splits option.splits if_splits)
qed


lemma validate_loop_outcome:
  assumes "validate_loop fuel rp cfg c e h sticky start w = Some (Inr outcome, w')"
  shows "(\<exists>r \<in> set (validation_requests (fst w')). v_execution_id r = e \<and> v_state r = outcome_state outcome) \<and>
    (outcome = Timeout \<or> (\<exists>b k. outcome = Included b k \<and> inclusion_seen rp cfg c h sticky b k))"
  using assms
proof (induction fuel arbitrary: w)
  case 0
  then show ?case by simp
next
  case (Suc fuel)
  obtain r w1 where poll: "validate_poll rp cfg c e h sticky start w = (r, w1)"
    by (cases "validate_poll rp cfg c e h sticky start w")
  consider (stop) "r = Inr (Some outcome)" "w1 = w'"
    | (go) "validate_loop fuel rp cfg c e h sticky start w1 = Some (Inr outcome, w')"
    using Suc.prems poll by (auto split: sum.splits option.splits)
  then show ?case
  proof cases
    case stop
    with validate_poll_outcome [of rp cfg c e h sticky start w outcome w'] poll show ?thesis
      by (cases outcome) auto
  next
    case go
    then show ?thesis by (rule Suc.IH)
  qed
qed

definition cached_outcome :: "execution_id \<Rightarrow> validation_row list \<Rightarrow> validator_outcome option" where
  "cached_outcome e rows =
     (case latest_row v_execution_id v_revision (\<lambda>_. True) e rows of
        None \<Rightarrow> None
      | Some r \<Rightarrow> (case v_state r of V_Included \<Rightarrow> Some (Included 0 0) | V_NotIncluded \<Rightarrow> Some NotIncluded | _ \<Rightarrow> None))"

lemma check_cached_result_Inr:
  assumes "check_cached_result e d = (Inr x, d')"
  shows "x = cached_outcome e (validation_requests d)"
proof -
  obtain row d1 where "sql Validator_Database (latest_validation_stmt e) d = (Inr row, d1)"
    and x: "x = (case row of None \<Rightarrow> None | Some r \<Rightarrow> (case v_state r of V_Included \<Rightarrow> Some (Included 0 0)
      | V_NotIncluded \<Rightarrow> Some NotIncluded | _ \<Rightarrow> None))"
    using assms by (auto simp: check_cached_result_def andThen_def ret_def split: prod.splits sum.splits)
  then obtain locked d0 where "latest_validation_stmt e locked d0 = Inr (row, d1)"
    "validation_requests d0 = validation_requests d"
    by (metis sql_Inr)
  then have "row = latest_row v_execution_id v_revision (\<lambda>_. True) e (validation_requests d)"
    by (auto simp: latest_validation_stmt_def)
  with x show ?thesis by (simp add: cached_outcome_def)
qed


section \<open>Properties\<close>

text \<open>
  Validation always comes to an end: with a positive poll interval the loop returns within
  \<open>timeout / interval + 2\<close> turns whatever the network answers, and more turns change nothing.
\<close>

theorem validation_returns:
  assumes "0 < poll_interval cfg"
  shows "\<exists>r. \<forall>fuel. loop_bound cfg \<le> fuel \<longrightarrow> handle_validation fuel rp cfg c e h sticky w = Some r"
proof -
  obtain r where r: "handle_validation (loop_bound cfg) rp cfg c e h sticky w = Some r"
    using handle_validation_returns [OF assms] by blast
  have "handle_validation fuel rp cfg c e h sticky w = Some r" if "loop_bound cfg \<le> fuel" for fuel
    using handle_validation_more_fuel [OF r, of "fuel - loop_bound cfg"] that by simp
  then show ?thesis by blast
qed

definition silent_port :: "nat rpc_port" where
  "silent_port = \<lparr>rpc_send_raw_transaction = (\<lambda>c i bs t n. (Inr 99, 5, n + 1)),
     rpc_get_transaction_count = (\<lambda>c i a t n. (Inr (TxNonce 4), 1, n + 1)),
     rpc_get_transaction_receipt = (\<lambda>c i h t n. (Inr None, 0, n + 1)),
     rpc_get_block_number = (\<lambda>c i t n. (Inr 12, 0, n + 1))\<rparr>"

definition mined_port :: "nat rpc_port" where
  "mined_port = silent_port\<lparr>rpc_get_transaction_receipt := (\<lambda>c i h t n.
     (Inr (Some \<lparr>rcpt_status = True, rcpt_block_number = Some 10\<rparr>), 0, n + 1))\<rparr>"

theorem validation_returns_witness:
  "\<exists>r. handle_validation 152 silent_port default_validator_config (ChainId 1) 5 99 0 (init_db, 0) = Some r"
  using validation_returns [of default_validator_config silent_port "ChainId 1" 5 99 0 "(init_db, 0)"]
  by (auto simp: default_validator_config_def loop_bound_def)

text \<open>
  C35. A result of the validator means what it says. Either it is the recorded result of an earlier
  validation, or a row of the execution now records it and it is a timeout, reached only after the
  configured time, or an inclusion backed by a receipt with status one whose block has the
  required number of confirmations.
\<close>

theorem validation_outcome_justified:
  assumes "handle_validation fuel rp cfg c e h sticky (d, n) = Some (Inr outcome, (d', n'))"
  shows "cached_outcome e (validation_requests d) = Some outcome \<or>
    (\<exists>r \<in> set (validation_requests d'). v_execution_id r = e \<and> v_state r = outcome_state outcome) \<and>
    (outcome = Timeout \<or> (\<exists>b k. outcome = Included b k \<and> inclusion_seen rp cfg c h sticky b k))"
proof -
  obtain x d1 where check: "check_cached_result e d = (x, d1)" by (cases "check_cached_result e d")
  show ?thesis
  proof (cases x)
    case (Inl err)
    with assms check show ?thesis by (simp add: handle_validation_def on_db_def)
  next
    case (Inr cache)
    show ?thesis
    proof (cases cache)
      case (Some o')
      with assms check Inr check_cached_result_Inr [of e d cache d1] show ?thesis
        by (simp add: handle_validation_def on_db_def)
    next
      case None
      with assms check Inr obtain start w2 where
        "validate_loop fuel rp cfg c e h sticky start w2 = Some (Inr outcome, (d', n'))"
        by (auto simp: handle_validation_def on_db_def split: prod.splits sum.splits)
      from validate_loop_outcome [OF this] show ?thesis by simp
    qed
  qed
qed

definition quick_config :: validator_config where
  "quick_config = \<lparr>poll_interval = 1, validator_timeout = 3, required_confirmations = 1\<rparr>"

theorem validation_outcome_justified_witness:
  "\<exists>d' n'. handle_validation 5 mined_port quick_config (ChainId 1) 5 99 0 (init_db, 0) =
      Some (Inr (Included 10 2), (d', n')) \<and> (\<exists>r \<in> set (validation_requests d'). v_execution_id r = 5 \<and> v_state r = V_Included)"
proof -
  have run: "fst (the (handle_validation 5 mined_port quick_config (ChainId 1) 5 99 0 (init_db, 0))) = Inr (Included 10 2)"
    "handle_validation 5 mined_port quick_config (ChainId 1) 5 99 0 (init_db, 0) \<noteq> None"
    by code_simp+
  then obtain d' n' where some: "handle_validation 5 mined_port quick_config (ChainId 1) 5 99 0 (init_db, 0) =
      Some (Inr (Included 10 2), (d', n'))"
    by auto
  have "cached_outcome 5 (validation_requests init_db) = None" by code_simp
  with validation_outcome_justified [OF some] some show ?thesis by (auto simp: outcome_state_def)
qed

text \<open>
  In every store the validator leaves behind, an execution has at most one pending validation and
  its revisions count up from one.
\<close>

theorem validator_table_invariant:
  assumes "validator_run rp cfg cmds (init_db\<lparr>db_script := events\<rparr>, n) = Some (replies, (d', n'))"
  shows "validator_inv d'"
proof -
  have "validator_inv (fst w) \<Longrightarrow> validator_run rp cfg cmds w = Some (replies, w') \<Longrightarrow> validator_inv (fst w')" for w w'
  proof (induction cmds arbitrary: w replies)
    case Nil
    then show ?case by simp
  next
    case (Cons cmd cmds)
    then obtain reply w1 replies1 where "validator_handle rp cfg cmd w = Some (reply, w1)"
      "validator_run rp cfg cmds w1 = Some (replies1, w')"
      by (auto split: option.splits prod.splits)
    moreover from this(1) have "validator_inv (fst w1)"
      using handle_validation_keeps [OF bookkeeping_validator_inv Cons.prems(1)] by (cases cmd) auto
    ultimately show ?case using Cons.IH by blast
  qed
  from this [of "(init_db\<lparr>db_script := events\<rparr>, n)" "(d', n')"] assms show ?thesis
    by (simp add: validator_inv_def init_db_def)
qed

theorem validator_table_invariant_witness:
  "\<exists>replies w'. validator_run mined_port quick_config [Validate (ChainId 1) 5 99 0] (init_db\<lparr>db_script := []\<rparr>, 0) =
     Some (replies, w') \<and> validator_inv (fst w')"
proof -
  have "validator_run mined_port quick_config [Validate (ChainId 1) 5 99 0] (init_db\<lparr>db_script := []\<rparr>, 0) \<noteq> None"
    by code_simp
  then obtain replies d' n' where
    "validator_run mined_port quick_config [Validate (ChainId 1) 5 99 0] (init_db\<lparr>db_script := []\<rparr>, 0) = Some (replies, (d', n'))"
    by auto
  from validator_table_invariant [OF this] this show ?thesis by auto
qed

end
