(* ===== verification/Relayhost_Engine.thy ===== *)
theory Relayhost_Engine
  imports Database Eip1559
begin

text \<open>
  The relay host actor, \<^verbatim>\<open>crate/actors/src/relayhost/engine.rs\<close>: an intent is linted and written
  once to \<^verbatim>\<open>relay_host.transaction_intents\<close>. The decimal columns hold the 256-bit amounts exactly,
  and the conversions to them and to JSON cannot fail on the values the program has.
\<close>

section \<open>The table\<close>

definition intent_exists_stmt :: "execution_id \<Rightarrow> bool stmt" where
  "intent_exists_stmt e locked d = Inr (list_ex (\<lambda>r. i_execution_id r = e) (transaction_intents d), d)"

definition intent_row_of ::
  "db_time \<Rightarrow> execution_id \<Rightarrow> int \<Rightarrow> eip1559_transaction \<Rightarrow> client_config \<Rightarrow> intent_row" where
  "intent_row_of now e c txn cfg =
     \<lparr>i_execution_id = e, i_client_id = client_id cfg, i_chain_id = c, i_from_address = from_address cfg,
      i_to_address = to_addr txn, i_value = uint (tx_value txn), i_data = tx_data txn,
      i_gas_limit = uint (gas_limit txn), i_max_fee_per_gas = uint (max_fee_per_gas txn),
      i_max_priority_fee_per_gas = uint (max_priority_fee_per_gas txn), i_access_list = access_list txn,
      i_created_at = now\<rparr>"

text \<open>The two \<open>CHECK\<close> constraints and the primary key.\<close>

definition intent_insert_stmt ::
  "execution_id \<Rightarrow> int \<Rightarrow> eip1559_transaction \<Rightarrow> client_config \<Rightarrow> unit stmt" where
  "intent_insert_stmt e c txn cfg locked d =
     (let row = intent_row_of (db_clock d) e c txn cfg in
      if \<not> 0 < i_gas_limit row then Inl (CheckViolation ''chk_gas_limit_positive'')
      else if \<not> 0 < i_max_fee_per_gas row then Inl (CheckViolation ''chk_max_fee_positive'')
      else if e \<in> set (map i_execution_id (transaction_intents d))
      then Inl (UniqueViolation ''transaction_intents_pkey'')
      else Inr ((), d\<lparr>transaction_intents := transaction_intents d @ [row]\<rparr>))"


section \<open>The handler\<close>

definition handle_submit_transaction ::
  "execution_id \<Rightarrow> eip1559_transaction \<Rightarrow> client_config \<Rightarrow> (relay_host_error, unit) prog" where
  "handle_submit_transaction e txn cfg =
     andThen (sql Relay_DatabaseError (intent_exists_stmt e)) (\<lambda>exists_already.
       if exists_already then ret ()
       else
         andThen (lift_result (transaction_lint txn)) (\<lambda>_.
           case u256_to_i64 (chain_u256 (chain_id txn)) of
             None \<Rightarrow> throw (Relay_ValidationFailed ''invalid chain_id format'')
           | Some ci \<Rightarrow> sql Relay_DatabaseError (intent_insert_stmt e ci txn cfg)))"

datatype relay_command = SubmitTransaction execution_id eip1559_transaction client_config

fun relay_handle :: "relay_command \<Rightarrow> db \<Rightarrow> (relay_host_error + unit) \<times> db" where
  "relay_handle (SubmitTransaction e txn cfg) d = handle_submit_transaction e txn cfg d"

fun relay_run :: "relay_command list \<Rightarrow> db \<Rightarrow> (relay_host_error + unit) list \<times> db" where
  "relay_run [] d = ([], d)"
| "relay_run (cmd # cmds) d =
     (case relay_handle cmd d of (reply, d1) \<Rightarrow>
      case relay_run cmds d1 of (replies, d2) \<Rightarrow> (reply # replies, d2))"

definition RelayHostHandle_register_transaction ::
  "link \<Rightarrow> execution_id \<Rightarrow> eip1559_transaction \<Rightarrow> client_config \<Rightarrow> (relay_host_error, unit) prog" where
  "RelayHostHandle_register_transaction l e txn cfg =
     actor_call l (Relay_Internal ''relayhost actor shutdown'')
       (Relay_Internal ''relayhost actor has dropped the reply channel'') (handle_submit_transaction e txn cfg)"


section \<open>The invariant\<close>

text \<open>What a persisted intent satisfies: the lint rules, read off the columns.\<close>

definition intent_ok :: "intent_row \<Rightarrow> bool" where
  "intent_ok r \<longleftrightarrow>
     0 < i_gas_limit r \<and> i_gas_limit r \<le> 30000000 \<and> 0 < i_max_fee_per_gas r \<and>
     0 \<le> i_max_priority_fee_per_gas r \<and> i_max_priority_fee_per_gas r < i_max_fee_per_gas r \<and>
     0 \<le> i_value r \<and> i_chain_id r \<in> {1, 5, 137, 42161, 560048}"

definition relay_inv :: "db \<Rightarrow> bool" where
  "relay_inv d \<longleftrightarrow>
     distinct (map i_execution_id (transaction_intents d)) \<and> list_all intent_ok (transaction_intents d)"

text \<open>The invariant together with the rows written before: they stay, in their place.\<close>

definition relay_from :: "intent_row list \<Rightarrow> db \<Rightarrow> bool" where
  "relay_from rows0 d \<longleftrightarrow> relay_inv d \<and> take (length rows0) (transaction_intents d) = rows0"

lemma relay_from_time_stable [invariant_intros]: "time_stable (relay_from rows0)"
  by (simp add: time_stable_def relay_from_def relay_inv_def)

lemma lint_intent_ok:
  assumes "transaction_lint txn = Inr ()" "u256_to_i64 (chain_u256 (chain_id txn)) = Some ci"
  shows "intent_ok (intent_row_of now e ci txn cfg)"
proof -
  have "uint (gas_limit txn) \<le> 30000000" "0 < uint (gas_limit txn)" "0 < uint (max_fee_per_gas txn)"
    "uint (max_priority_fee_per_gas txn) < uint (max_fee_per_gas txn)"
    using assms(1) unfolding transaction_lint_Inr_iff
    by (auto simp: word_le_def word_less_def)
  then show ?thesis
    using assms(1,2) unfolding transaction_lint_Inr_iff
    by (auto simp: intent_ok_def intent_row_of_def u256_to_i64_Some_iff)
qed

lemma take_snoc_prefix: "take n xs = ys \<Longrightarrow> length ys = n \<Longrightarrow> take n (xs @ [x]) = ys"
  by auto

lemma intent_insert_keeps:
  assumes "transaction_lint txn = Inr ()" "u256_to_i64 (chain_u256 (chain_id txn)) = Some ci"
  shows "stmt_keeps (relay_from rows0) (intent_insert_stmt e ci txn cfg)"
  using lint_intent_ok [OF assms]
  by (auto simp: stmt_keeps_def intent_insert_stmt_def Let_def relay_from_def relay_inv_def intent_row_of_def
      split: if_splits intro!: take_snoc_prefix)

lemma handle_submit_rule:
  assumes "time_stable P"
    and "\<And>ci. transaction_lint txn = Inr () \<Longrightarrow> u256_to_i64 (chain_u256 (chain_id txn)) = Some ci \<Longrightarrow>
      stmt_keeps P (intent_insert_stmt e ci txn cfg)"
  shows "keeps P (handle_submit_transaction e txn cfg)"
proof (cases "transaction_lint txn")
  case (Inl err)
  then have "handle_submit_transaction e txn cfg =
      andThen (sql Relay_DatabaseError (intent_exists_stmt e)) (\<lambda>b. if b then ret () else throw err)"
    by (auto simp: handle_submit_transaction_def andThen_def lift_result_def throw_def fun_eq_iff
        split: prod.splits sum.splits)
  moreover have "keeps P \<dots>"
    by (intro invariant_intros assms(1)) (auto simp: stmt_keeps_def intent_exists_stmt_def)
  ultimately show ?thesis by simp
next
  case (Inr u)
  then have "transaction_lint txn = Inr ()" by simp
  with Inr show ?thesis
    unfolding handle_submit_transaction_def
    by (intro invariant_intros assms) (auto simp: stmt_keeps_def intent_exists_stmt_def)
qed

lemma handle_submit_keeps: "keeps (relay_from rows0) (handle_submit_transaction e txn cfg)"
  by (rule handle_submit_rule [OF relay_from_time_stable intent_insert_keeps])

lemma relay_run_from: "relay_from rows0 d \<Longrightarrow> relay_from rows0 (snd (relay_run cmds d))"
proof (induction cmds arbitrary: d)
  case Nil
  then show ?case by simp
next
  case (Cons cmd cmds)
  have "relay_from rows0 (snd (relay_handle cmd d))"
    using keepsD [OF handle_submit_keeps Cons.prems] by (cases cmd) simp
  from Cons.IH [OF this] show ?case by (simp add: case_prod_beta)
qed


section \<open>Properties\<close>

text \<open>
  Only transactions that satisfy the lint rules are ever persisted, one per execution, and what is
  persisted is never changed or removed, whatever is submitted afterwards.
\<close>

theorem intents_valid_and_write_once:
  assumes "relay_inv d"
  shows "relay_inv (snd (relay_run cmds d)) \<and>
    take (length (transaction_intents d)) (transaction_intents (snd (relay_run cmds d))) = transaction_intents d"
  using relay_run_from [of "transaction_intents d" d cmds] assms by (simp add: relay_from_def)

definition sample_client :: client_config where
  "sample_client = \<lparr>client_id = 3, from_address = 7\<rparr>"

theorem intents_valid_and_write_once_witness:
  "relay_inv (snd (relay_run [SubmitTransaction 5 sample_tx sample_client,
     SubmitTransaction 5 (sample_tx\<lparr>tx_value := 9\<rparr>) sample_client, SubmitTransaction 6 (sample_tx\<lparr>gas_limit := 0\<rparr>) sample_client] init_db))"
proof -
  have "relay_inv init_db" by (simp add: relay_inv_def init_db_def)
  from intents_valid_and_write_once [OF this] show ?thesis by (rule conjunct1)
qed

text \<open>
  Submitting an intent answers: success without a change when the execution is known, the lint
  error with nothing written when a rule is violated, and otherwise exactly one row with the
  transaction's fields and the authenticated client's identifier and address is added.
\<close>

theorem submit_outcome:
  assumes "relay_inv d" "quiet d"
  shows "handle_submit_transaction e txn cfg d =
    (if e \<in> set (map i_execution_id (transaction_intents d)) then (Inr (), d)
     else case transaction_lint txn of
       Inl err \<Rightarrow> (Inl err, d)
     | Inr _ \<Rightarrow> (Inr (), d\<lparr>transaction_intents := transaction_intents d @
         [intent_row_of (db_clock d) e (uint (chain_u256 (chain_id txn))) txn cfg]\<rparr>))"
proof (cases "transaction_lint txn")
  case (Inl err)
  then show ?thesis
    using assms(2) by (auto simp: handle_submit_transaction_def engine_simps intent_exists_stmt_def list_ex_iff)
next
  case (Inr u)
  then have lint: "transaction_lint txn = Inr ()" by simp
  have c: "u256_to_i64 (chain_u256 (chain_id txn)) = Some (uint (chain_u256 (chain_id txn)))"
    using lint unfolding transaction_lint_Inr_iff by (auto simp: u256_to_i64_def i64_max_def)
  have "intent_ok (intent_row_of (db_clock d) e (uint (chain_u256 (chain_id txn))) txn cfg)"
    by (rule lint_intent_ok [OF lint c])
  then show ?thesis
    using assms(2) lint c
    by (auto simp: handle_submit_transaction_def engine_simps intent_exists_stmt_def intent_insert_stmt_def
        list_ex_iff Let_def intent_ok_def)
qed

theorem submit_outcome_witness:
  "map i_gas_limit (transaction_intents (snd (handle_submit_transaction 5 sample_tx sample_client init_db))) = [21000]"
proof -
  have "transaction_lint sample_tx = Inr ()" by (simp add: transaction_lint_Inr_iff sample_tx_def)
  with submit_outcome [of init_db 5 sample_tx sample_client] show ?thesis
    by (simp add: relay_inv_def init_db_def quiet_def intent_row_of_def sample_tx_def)
qed

end
