(* ===== verification/Store_Frames.thy ===== *)
theory Store_Frames
  imports Sweeper Sign_Engine Broadcast_Engine Validator_Engine Relayhost_Engine
begin

text \<open>
  The five actors share one store, and each writes one table only. For each table, a predicate that does
  not read it, and that the passing of time keeps, is kept by the actor that owns it. Together with what
  each actor keeps of its own table this gives one invariant of the whole store.
\<close>

section \<open>Predicates that do not read a table\<close>

definition free_of_nonces :: "(db \<Rightarrow> bool) \<Rightarrow> bool" where
  "free_of_nonces P \<longleftrightarrow> time_stable P \<and> (\<forall>d rows. P d \<longrightarrow> P (d\<lparr>nonce_assignments := rows\<rparr>))"

definition free_of_signs :: "(db \<Rightarrow> bool) \<Rightarrow> bool" where
  "free_of_signs P \<longleftrightarrow> time_stable P \<and> (\<forall>d rows. P d \<longrightarrow> P (d\<lparr>sign_requests := rows\<rparr>))"

definition free_of_broadcasts :: "(db \<Rightarrow> bool) \<Rightarrow> bool" where
  "free_of_broadcasts P \<longleftrightarrow> time_stable P \<and> (\<forall>d rows. P d \<longrightarrow> P (d\<lparr>broadcast_requests := rows\<rparr>))"

definition free_of_validations :: "(db \<Rightarrow> bool) \<Rightarrow> bool" where
  "free_of_validations P \<longleftrightarrow> time_stable P \<and> (\<forall>d rows. P d \<longrightarrow> P (d\<lparr>validation_requests := rows\<rparr>))"

definition free_of_intents :: "(db \<Rightarrow> bool) \<Rightarrow> bool" where
  "free_of_intents P \<longleftrightarrow> time_stable P \<and> (\<forall>d rows. P d \<longrightarrow> P (d\<lparr>transaction_intents := rows\<rparr>))"

lemmas free_defs = free_of_nonces_def free_of_signs_def free_of_broadcasts_def free_of_validations_def free_of_intents_def

lemma free_time_stable:
  "free_of_nonces P \<Longrightarrow> time_stable P" "free_of_signs P \<Longrightarrow> time_stable P" "free_of_broadcasts P \<Longrightarrow> time_stable P"
  "free_of_validations P \<Longrightarrow> time_stable P" "free_of_intents P \<Longrightarrow> time_stable P"
  by (simp_all add: free_defs)


section \<open>Each actor writes its own table\<close>

lemma nonce_stmts_frame:
  assumes "free_of_nonces P"
  shows "stmt_keeps P (reserve_stmt e c a)" "stmt_keeps P (sync_stmt e c a n)" "stmt_keeps P (resolve_stmt e st)"
    "stmt_keeps P (existing_stmt e)" "stmt_keeps P (existing_one_stmt e)" "stmt_keeps P (latest_nonce_stmt e)"
    "stmt_keeps P expire_stmt"
  using assms
  by (auto simp: stmt_keeps_def free_of_nonces_def reserve_stmt_def sync_stmt_def resolve_stmt_def existing_stmt_def
      existing_one_stmt_def latest_nonce_stmt_def expire_stmt_def nonce_commit_def insert_reserved_def Let_def
      split: if_splits option.splits sum.splits prod.splits)

lemma nonce_handlers_frame:
  assumes "free_of_nonces P"
  shows "keeps P (handle_reserve c a e)" "keeps P (handle_sync c a e n)" "keeps P (handle_resolve e st)"
    "keeps P expire_states"
  unfolding handle_reserve_def handle_sync_def handle_resolve_def expire_states_def
  by (intro invariant_intros nonce_stmts_frame assms free_time_stable(1))+

lemma sign_stmts_frame:
  assumes "free_of_signs P"
  shows "stmt_keeps P (sign_insert_stmt e c a)" "stmt_keeps P (sign_settle_stmt e v ch)" "stmt_keeps P (sign_revert_stmt e)"
  using assms
  by (auto simp: stmt_keeps_def free_of_signs_def sign_insert_stmt_def sign_settle_stmt_def sign_revert_stmt_def Let_def
      split: if_splits option.splits sum.splits prod.splits)

lemma sign_handlers_frame:
  assumes "free_of_signs P"
  shows "keeps P (handle_sign custody signing a c e txn)" "keeps P (handle_revert e)"
  unfolding handle_sign_def handle_revert_def
  by (intro invariant_intros sign_stmts_frame assms free_time_stable(2))+

lemma broadcast_stmts_frame:
  assumes "free_of_broadcasts P"
  shows "stmt_keeps P (broadcast_insert_stmt e c a)" "stmt_keeps P (broadcast_settle_stmt e v ch)"
    "stmt_keeps P (latest_broadcast_stmt e)"
  using assms
  by (auto simp: stmt_keeps_def free_of_broadcasts_def broadcast_insert_stmt_def broadcast_settle_stmt_def
      latest_broadcast_stmt_def Let_def split: if_splits option.splits sum.splits prod.splits)

lemma broadcast_handler_frame:
  assumes "free_of_broadcasts P"
  shows "keeps (\<lambda>w. P (fst w)) (handle_broadcast rp c a e txn sticky)"
  unfolding handle_broadcast_def finish_broadcast_def fetch_current_nonce_def Let_def
  by (intro invariant_intros broadcast_stmts_frame assms free_time_stable(3))

lemma validation_stmts_frame:
  assumes "free_of_validations P"
  shows "stmt_keeps P (validation_insert_stmt e c h)" "stmt_keeps P (validation_update_stmt e st)"
  using assms
  by (auto simp: stmt_keeps_def free_of_validations_def validation_insert_stmt_def validation_update_stmt_def Let_def
      split: if_splits option.splits sum.splits prod.splits)

lemma bookkeeping_frame: "free_of_validations P \<Longrightarrow> bookkeeping_keeps P"
  unfolding bookkeeping_keeps_def record_outcome_def record_validation_request_def
  by (intro conjI allI invariant_intros validation_stmts_frame free_time_stable(4))

lemma intent_stmts_frame:
  assumes "free_of_intents P"
  shows "stmt_keeps P (intent_exists_stmt e)" "stmt_keeps P (intent_insert_stmt e c txn cfg)"
  using assms
  by (auto simp: stmt_keeps_def free_of_intents_def intent_exists_stmt_def intent_insert_stmt_def Let_def split: if_splits)

lemma relay_handler_frame:
  assumes "free_of_intents P"
  shows "keeps P (handle_submit_transaction e txn cfg)"
  unfolding handle_submit_transaction_def by (intro invariant_intros intent_stmts_frame assms free_time_stable(5))


section \<open>One invariant of the store\<close>

text \<open>
  The invariants of the five tables, and their histories: the nonce rows \<open>ns\<close> have only evolved, the settled
  broadcast rows \<open>bs\<close> and the intents \<open>is\<close> are unchanged.
\<close>

definition store_inv :: "nonce_row list \<Rightarrow> broadcast_row set \<Rightarrow> intent_row list \<Rightarrow> db \<Rightarrow> bool" where
  "store_inv ns bs intents d \<longleftrightarrow>
     nonce_from ns d \<and> sign_inv d \<and> broadcast_from bs d \<and> validator_inv d \<and> relay_from intents d"

lemma keeps_conj: "keeps P m \<Longrightarrow> keeps Q m \<Longrightarrow> keeps (\<lambda>s. P s \<and> Q s) m"
  by (simp add: keeps_def)

lemma time_stable_conj: "time_stable P \<Longrightarrow> time_stable Q \<Longrightarrow> time_stable (\<lambda>s. P s \<and> Q s)"
  by (simp add: time_stable_def)

lemma free_nonce_from:
  "free_of_signs (nonce_from ns)" "free_of_broadcasts (nonce_from ns)" "free_of_validations (nonce_from ns)"
  "free_of_intents (nonce_from ns)"
  using nonce_from_time_stable [of ns] by (simp_all add: free_defs nonce_from_def nonce_inv_def)

lemma free_sign_inv:
  "free_of_nonces sign_inv" "free_of_broadcasts sign_inv" "free_of_validations sign_inv" "free_of_intents sign_inv"
  using sign_inv_time_stable by (simp_all add: free_defs sign_inv_def)

lemma free_broadcast_from:
  "free_of_nonces (broadcast_from bs)" "free_of_signs (broadcast_from bs)" "free_of_validations (broadcast_from bs)"
  "free_of_intents (broadcast_from bs)"
  using broadcast_from_time_stable [of bs] by (simp_all add: free_defs broadcast_from_def broadcast_inv_def)

lemma free_validator_inv:
  "free_of_nonces validator_inv" "free_of_signs validator_inv" "free_of_broadcasts validator_inv" "free_of_intents validator_inv"
  using validator_inv_time_stable by (simp_all add: free_defs validator_inv_def)

lemma free_relay_from:
  "free_of_nonces (relay_from xs)" "free_of_signs (relay_from xs)" "free_of_broadcasts (relay_from xs)"
  "free_of_validations (relay_from xs)"
  using relay_from_time_stable [of xs] by (simp_all add: free_defs relay_from_def relay_inv_def)

lemma store_inv_time_stable: "time_stable (store_inv ns bs xs)"
  unfolding store_inv_def [abs_def] by (intro time_stable_conj invariant_intros)

lemma store_inv_nonce:
  "keeps (store_inv ns bs xs) (handle_reserve c a e)" "keeps (store_inv ns bs xs) (handle_sync c a e n)"
  "keeps (store_inv ns bs xs) (handle_resolve e st)" "keeps (store_inv ns bs xs) expire_states"
  unfolding store_inv_def [abs_def]
  by (intro keeps_conj nonce_handlers_frame free_sign_inv free_broadcast_from free_validator_inv free_relay_from
      handle_reserve_from handle_sync_from handle_resolve_from expire_states_from)+

lemma store_inv_sign:
  "keeps (store_inv ns bs xs) (handle_sign custody signing a c e txn)" "keeps (store_inv ns bs xs) (handle_revert e)"
  unfolding store_inv_def [abs_def]
  by (intro keeps_conj sign_handlers_frame free_nonce_from free_broadcast_from free_validator_inv free_relay_from
      handle_sign_keeps handle_revert_keeps)+

lemma store_inv_broadcast: "keeps (\<lambda>w. store_inv ns bs xs (fst w)) (handle_broadcast rp c a e txn sticky)"
  unfolding store_inv_def
  by (intro keeps_conj broadcast_handler_frame free_nonce_from free_sign_inv free_validator_inv free_relay_from
      handle_broadcast_keeps)

lemma store_inv_validate:
  "0 < poll_interval cfg \<Longrightarrow> keeps (\<lambda>w. store_inv ns bs xs (fst w)) (handle_validation_prog rp cfg c e h sticky)"
  unfolding store_inv_def
  by (intro keeps_conj handle_validation_prog_keeps bookkeeping_frame bookkeeping_validator_inv
      free_nonce_from free_sign_inv free_broadcast_from free_relay_from)

lemma store_inv_relay: "keeps (store_inv ns bs xs) (handle_submit_transaction e txn cfg)"
  unfolding store_inv_def [abs_def]
  by (intro keeps_conj relay_handler_frame free_nonce_from free_sign_inv free_broadcast_from free_validator_inv
      handle_submit_keeps)

end
