(* ===== verification/Interleaving.thy ===== *)
theory Interleaving
  imports Store_Frames
begin

text \<open>
  Concurrency at the grain of the database. Shards of an actor, pipelines and the sweeper run at the same
  time, and PostgreSQL executes their statements one after the other in any order. A step of the store is one
  statement of any handler, with the arguments any handler may give it, or the passing of time. The steps of
  different handlers mix freely. One thing only is remembered of the handlers: which broadcast requests are
  in flight, that is between their insertion and their settlement.
\<close>

section \<open>Steps of the store\<close>

text \<open>
  A broadcast handler settles the row it inserted and no other, once. The other handlers carry no such duty:
  their statements find their rows by themselves.
\<close>

inductive store_step :: "row_key set \<times> db \<Rightarrow> row_key set \<times> db \<Rightarrow> bool" where
  reserve: "reserve_stmt e c a locked d = Inr (x, d') \<Longrightarrow> store_step (flying, d) (flying, d')"
| sync: "0 \<le> n \<Longrightarrow> sync_stmt e c a n locked d = Inr (x, d') \<Longrightarrow> store_step (flying, d) (flying, d')"
| resolve: "resolve_stmt e st locked d = Inr (x, d') \<Longrightarrow> store_step (flying, d) (flying, d')"
| expire: "expire_stmt locked d = Inr (x, d') \<Longrightarrow> store_step (flying, d) (flying, d')"
| sign_insert: "sign_insert_stmt e c a locked d = Inr (x, d') \<Longrightarrow> store_step (flying, d) (flying, d')"
| sign_settle: "ch = SetFailed \<or> (\<exists>tx. ch = (\<lambda>now. SetSigned now tx)) \<Longrightarrow>
    sign_settle_stmt e v ch locked d = Inr (x, d') \<Longrightarrow> store_step (flying, d) (flying, d')"
| sign_revert: "sign_revert_stmt e locked d = Inr (x, d') \<Longrightarrow> store_step (flying, d) (flying, d')"
| broadcast_insert: "broadcast_insert_stmt e c a locked d = Inr (Some v, d') \<Longrightarrow>
    store_step (flying, d) (insert (e, v) flying, d')"
| broadcast_settle: "(e, v) \<in> flying \<Longrightarrow> \<forall>now. broadcast_moment (ch now) = now \<Longrightarrow>
    broadcast_settle_stmt e v ch locked d = Inr (x, d') \<Longrightarrow> store_step (flying, d) (flying - {(e, v)}, d')"
| validation_insert: "validation_insert_stmt e c h locked d = Inr (x, d') \<Longrightarrow> store_step (flying, d) (flying, d')"
| validation_update: "vs \<noteq> V_Pending \<Longrightarrow> validation_update_stmt e vs locked d = Inr (x, d') \<Longrightarrow>
    store_step (flying, d) (flying, d')"
| intent_insert: "transaction_lint txn = Inr () \<Longrightarrow> u256_to_i64 (chain_u256 (chain_id txn)) = Some ci \<Longrightarrow>
    intent_insert_stmt e ci txn cfg locked d = Inr (x, d') \<Longrightarrow> store_step (flying, d) (flying, d')"
| wait: "store_step (flying, d) (flying, elapse k evs d)"

text \<open>Everything the writers of the store can make of \<open>d0\<close>, when no broadcast is in flight at first.\<close>

definition interleaved :: "db \<Rightarrow> row_key set \<Rightarrow> db \<Rightarrow> bool" where
  "interleaved d0 flying d \<longleftrightarrow> store_step\<^sup>*\<^sup>* ({}, d0) (flying, d)"

lemma interleaved_start: "interleaved d0 {} d0"
  by (simp add: interleaved_def)

lemma interleaved_step: "interleaved d0 flying d \<Longrightarrow> store_step (flying, d) (flying', d') \<Longrightarrow> interleaved d0 flying' d'"
  unfolding interleaved_def by (rule rtranclp.rtrancl_into_rtrancl)


section \<open>The invariant of the interleavings\<close>

lemma stmt_keeps_conj: "stmt_keeps P q \<Longrightarrow> stmt_keeps Q q \<Longrightarrow> stmt_keeps (\<lambda>d. P d \<and> Q d) q"
  unfolding stmt_keeps_def by blast

lemmas frees = free_nonce_from free_sign_inv free_broadcast_from free_validator_inv free_relay_from

text \<open>Every broadcast in flight has its row, and the row is still received.\<close>

definition flights_open :: "row_key set \<Rightarrow> db \<Rightarrow> bool" where
  "flights_open flying d \<longleftrightarrow>
     (\<forall>k \<in> flying. \<exists>r \<in> set (broadcast_requests d). b_key r = k \<and> b_state r = B_Received)"

definition interleaving_inv ::
  "nonce_row list \<Rightarrow> broadcast_row set \<Rightarrow> intent_row list \<Rightarrow> row_key set \<Rightarrow> db \<Rightarrow> bool" where
  "interleaving_inv ns bs intents flying d \<longleftrightarrow> store_inv ns bs intents d \<and> flights_open flying d"

lemma free_flights_open:
  "free_of_nonces (flights_open flying)" "free_of_signs (flights_open flying)"
  "free_of_validations (flights_open flying)" "free_of_intents (flights_open flying)"
  by (simp_all add: free_defs time_stable_def flights_open_def)

lemma interleaving_inv_time_stable: "time_stable (interleaving_inv ns bs xs flying)"
  unfolding interleaving_inv_def [abs_def]
  by (intro time_stable_conj store_inv_time_stable free_time_stable(1) free_flights_open)

lemma nonce_stmts_keep:
  "stmt_keeps (interleaving_inv ns bs xs flying) (reserve_stmt e c a)"
  "0 \<le> n \<Longrightarrow> stmt_keeps (interleaving_inv ns bs xs flying) (sync_stmt e c a n)"
  "stmt_keeps (interleaving_inv ns bs xs flying) (resolve_stmt e st)"
  "stmt_keeps (interleaving_inv ns bs xs flying) expire_stmt"
  unfolding interleaving_inv_def [abs_def] store_inv_def [abs_def]
  by (intro stmt_keeps_conj nonce_stmts_frame frees free_flights_open
      reserve_stmt_from sync_stmt_from resolve_stmt_from expire_stmt_from; assumption)+

lemma sign_stmts_keep:
  "stmt_keeps (interleaving_inv ns bs xs flying) (sign_insert_stmt e c a)"
  "ch = SetFailed \<or> (\<exists>tx. ch = (\<lambda>now. SetSigned now tx)) \<Longrightarrow>
     stmt_keeps (interleaving_inv ns bs xs flying) (sign_settle_stmt e v ch)"
  "stmt_keeps (interleaving_inv ns bs xs flying) (sign_revert_stmt e)"
  unfolding interleaving_inv_def [abs_def] store_inv_def [abs_def]
  by (intro stmt_keeps_conj sign_stmts_frame frees free_flights_open
      sign_insert_keeps sign_settle_keeps sign_revert_keeps; assumption)+

lemma validation_stmts_keep:
  "stmt_keeps (interleaving_inv ns bs xs flying) (validation_insert_stmt e c h)"
  "vs \<noteq> V_Pending \<Longrightarrow> stmt_keeps (interleaving_inv ns bs xs flying) (validation_update_stmt e vs)"
  unfolding interleaving_inv_def [abs_def] store_inv_def [abs_def]
  by (intro stmt_keeps_conj validation_stmts_frame frees free_flights_open
      validation_insert_keeps validation_update_keeps; assumption)+

lemma intent_stmts_keep:
  "transaction_lint txn = Inr () \<Longrightarrow> u256_to_i64 (chain_u256 (chain_id txn)) = Some ci \<Longrightarrow>
   stmt_keeps (interleaving_inv ns bs xs flying) (intent_insert_stmt e ci txn cfg)"
  unfolding interleaving_inv_def [abs_def] store_inv_def [abs_def]
  by (intro stmt_keeps_conj intent_stmts_frame frees free_flights_open intent_insert_keeps; assumption)

lemma broadcast_stmt_rest:
  assumes "\<And>P. free_of_broadcasts P \<Longrightarrow> stmt_keeps P q"
    and "store_inv ns bs xs d" "q locked d = Inr (x, d')" "broadcast_from bs d'"
  shows "store_inv ns bs xs d'"
proof -
  have "stmt_keeps (nonce_from ns) q" "stmt_keeps sign_inv q" "stmt_keeps validator_inv q" "stmt_keeps (relay_from xs) q"
    by (intro assms(1) frees)+
  with assms(2-4) show ?thesis unfolding stmt_keeps_def store_inv_def by blast
qed

lemma broadcast_insert_flies:
  assumes "interleaving_inv ns bs xs flying d" "broadcast_insert_stmt e c a locked d = Inr (Some v, d')"
  shows "interleaving_inv ns bs xs (insert (e, v) flying) d'"
proof -
  have inv: "store_inv ns bs xs d" and fl: "flights_open flying d"
    using assms(1) by (simp_all add: interleaving_inv_def)
  then have "broadcast_from bs d" by (simp add: store_inv_def)
  note opens = broadcast_insert_opens [OF this assms(2)]
  have "set (broadcast_requests d) \<subseteq> set (broadcast_requests d')"
    using assms(2) by (auto simp: broadcast_insert_stmt_def split: sum.splits dest!: bc.insert_adds)
  with fl have "flights_open flying d'" unfolding flights_open_def by blast
  moreover have "flights_open {(e, v)} d'"
    using opens(2) by (simp add: flights_open_def broadcast_open_def)
  ultimately show ?thesis
    using broadcast_stmt_rest [OF broadcast_stmts_frame(1) inv assms(2) opens(1)]
    by (simp add: interleaving_inv_def flights_open_def)
qed

lemma broadcast_settle_lands:
  assumes "interleaving_inv ns bs xs flying d" "(e, v) \<in> flying" "\<forall>now. broadcast_moment (ch now) = now"
    and run: "broadcast_settle_stmt e v ch locked d = Inr (x, d')"
  shows "interleaving_inv ns bs xs (flying - {(e, v)}) d'"
proof -
  have inv: "store_inv ns bs xs d" and fl: "flights_open flying d"
    using assms(1) by (simp_all add: interleaving_inv_def)
  have "\<exists>r \<in> set (broadcast_requests d). b_key r = (e, v) \<and> b_state r = B_Received"
    using fl assms(2) unfolding flights_open_def by (rule bspec)
  with inv have op: "broadcast_open bs e v d"
    by (simp add: store_inv_def broadcast_open_def)
  have d': "d' = d\<lparr>broadcast_requests :=
      update_row b_execution_id b_revision (e, v) (apply_broadcast_change (ch (db_clock d))) (broadcast_requests d)\<rparr>"
    using broadcast_settle_open(1) [OF op, of ch locked] run by simp
  have "broadcast_from bs d'"
    unfolding d' by (rule broadcast_settle_open(2) [OF op]) (rule assms(3) [rule_format])
  with broadcast_stmts_frame(2) inv run have settled: "store_inv ns bs xs d'" by (rule broadcast_stmt_rest)
  have "\<exists>r \<in> set (broadcast_requests d'). b_key r = k \<and> b_state r = B_Received" if k: "k \<in> flying" and other: "k \<noteq> (e, v)" for k
  proof -
    obtain r where "r \<in> set (broadcast_requests d)" "b_key r = k" "b_state r = B_Received"
      using fl k unfolding flights_open_def by blast
    moreover from this have "r \<in> set (broadcast_requests d')"
      using other unfolding d' by (simp add: b_key_def bc.update_other)
    ultimately show ?thesis by blast
  qed
  then have "flights_open (flying - {(e, v)}) d'" unfolding flights_open_def by blast
  with settled show ?thesis by (simp only: interleaving_inv_def)
qed

inductive_cases store_stepE: "store_step (flying, d) s'"

lemma store_step_inv:
  assumes "store_step (flying, d) (flying', d')" "interleaving_inv ns bs xs flying d"
  shows "interleaving_inv ns bs xs flying' d'"
proof -
  have keep: "interleaving_inv ns bs xs flying d1"
    if "stmt_keeps (interleaving_inv ns bs xs flying) q" "q locked d = Inr (x, d1)" for q :: "'x stmt" and locked x d1
    using that assms(2) by (auto simp: stmt_keeps_def)
  show ?thesis
    using assms(1)
  proof cases
    case (wait k evs)
    then show ?thesis using interleaving_inv_time_stable assms(2) by (auto simp: time_stable_def)
  next
    case broadcast_insert
    with assms(2) show ?thesis by (auto intro: broadcast_insert_flies)
  next
    case broadcast_settle
    with assms(2) show ?thesis by (auto intro: broadcast_settle_lands)
  qed (auto dest: keep [OF nonce_stmts_keep(1)] keep [OF nonce_stmts_keep(2)] keep [OF nonce_stmts_keep(3)]
      keep [OF nonce_stmts_keep(4)] keep [OF sign_stmts_keep(1)] keep [OF sign_stmts_keep(2), rotated]
      keep [OF sign_stmts_keep(3)] keep [OF validation_stmts_keep(1)] keep [OF validation_stmts_keep(2)]
      keep [OF intent_stmts_keep])
qed

lemma interleaved_inv:
  assumes "interleaved d0 flying d" "store_inv ns bs xs d0"
  shows "interleaving_inv ns bs xs flying d"
proof -
  have "interleaving_inv ns bs xs {} d0"
    using assms(2) by (simp add: interleaving_inv_def flights_open_def)
  moreover have "store_step\<^sup>*\<^sup>* s s' \<Longrightarrow> interleaving_inv ns bs xs (fst s) (snd s) \<Longrightarrow> interleaving_inv ns bs xs (fst s') (snd s')"
    for s s'
    by (induction rule: rtranclp_induct) (auto intro: store_step_inv)
  ultimately show ?thesis using assms(1) by (force simp: interleaved_def)
qed


section \<open>Every handler is a sequence of steps\<close>

definition writes :: "db \<Rightarrow> db \<Rightarrow> bool" where
  "writes d0 d \<longleftrightarrow> (\<exists>flying. interleaved d0 flying d)"

definition writes_owning :: "db \<Rightarrow> execution_id \<Rightarrow> int \<Rightarrow> db \<Rightarrow> bool" where
  "writes_owning d0 e v d \<longleftrightarrow> (\<exists>flying. (e, v) \<in> flying \<and> interleaved d0 flying d)"

lemma writes_start: "writes d0 d0"
  using interleaved_start unfolding writes_def by blast

lemma writes_time_stable [invariant_intros]: "time_stable (writes d0)" "time_stable (writes_owning d0 e v)"
  unfolding time_stable_def writes_def writes_owning_def by (blast intro: interleaved_step store_step.wait)+

lemma writes_stmts:
  "stmt_keeps (writes d0) (reserve_stmt e c a)" "0 \<le> n \<Longrightarrow> stmt_keeps (writes d0) (sync_stmt e c a n)"
  "stmt_keeps (writes d0) (resolve_stmt e st)" "stmt_keeps (writes d0) expire_stmt"
  "stmt_keeps (writes d0) (sign_insert_stmt e c a)"
  "ch = SetFailed \<or> (\<exists>tx. ch = (\<lambda>now. SetSigned now tx)) \<Longrightarrow> stmt_keeps (writes d0) (sign_settle_stmt e v ch)"
  "stmt_keeps (writes d0) (sign_revert_stmt e)"
  "stmt_keeps (writes d0) (validation_insert_stmt e c h)"
  "vs \<noteq> V_Pending \<Longrightarrow> stmt_keeps (writes d0) (validation_update_stmt e vs)"
  "transaction_lint txn = Inr () \<Longrightarrow> u256_to_i64 (chain_u256 (chain_id txn)) = Some ci \<Longrightarrow>
     stmt_keeps (writes d0) (intent_insert_stmt e ci txn cfg)"
  unfolding stmt_keeps_def writes_def by (blast intro: interleaved_step store_step.intros)+

interpretation flight: broadcast_ownership "writes d0" e "writes_owning d0 e"
  for d0 e
proof
  show "time_stable (writes d0)" "time_stable (writes_owning d0 e v)" for v by (rule writes_time_stable)+
  show "writes_owning d0 e v d \<Longrightarrow> writes d0 d" for v d
    unfolding writes_def writes_owning_def by blast
  show "case x of None \<Rightarrow> writes d0 d' | Some v \<Rightarrow> writes_owning d0 e v d'"
    if d: "writes d0 d" and run: "broadcast_insert_stmt e c a locked d = Inr (x, d')" for c a locked d x d'
  proof (cases x)
    case None
    with run have "d' = d"
      by (auto simp: broadcast_insert_stmt_def lease_insert_def Let_def split: sum.splits if_splits prod.splits)
    with None d show ?thesis by simp
  next
    case (Some v)
    with d run show ?thesis
      unfolding writes_def writes_owning_def by (auto intro: interleaved_step store_step.broadcast_insert)
  qed
  show "writes d0 d'"
    if "writes_owning d0 e v d" "\<forall>now. broadcast_moment (ch now) = now" "broadcast_settle_stmt e v ch locked d = Inr (y, d')"
    for v d ch locked y d'
    using that unfolding writes_def writes_owning_def by (blast intro: interleaved_step store_step.broadcast_settle)
qed

lemma writes_nonce:
  "keeps (writes d0) (handle_reserve c a e)" "keeps (writes d0) (handle_sync c a e n)"
  "keeps (writes d0) (handle_resolve e st)" "keeps (writes d0) expire_states"
  unfolding handle_reserve_def handle_sync_def handle_resolve_def expire_states_def
  by (intro invariant_intros writes_stmts; simp add: u256_to_i64_Some_iff)+

lemma writes_sign: "keeps (writes d0) (handle_sign custody signing a c e txn)" "keeps (writes d0) (handle_revert e)"
  unfolding handle_sign_def handle_revert_def by (intro invariant_intros writes_stmts; blast)+

lemma writes_bookkeeping: "bookkeeping_keeps (writes d0)"
  unfolding bookkeeping_keeps_def record_outcome_def record_validation_request_def
  by (intro conjI allI invariant_intros writes_stmts) (auto simp: outcome_state_def split: validator_outcome.splits)

lemma writes_broadcast: "keeps (\<lambda>w. writes d0 (fst w)) (handle_broadcast rp c a e txn sticky)"
  by (rule flight.handle_broadcast_owned)

lemma writes_validate:
  "0 < poll_interval cfg \<Longrightarrow> keeps (\<lambda>w. writes d0 (fst w)) (handle_validation_prog rp cfg c e h sticky)"
  by (intro handle_validation_prog_keeps writes_bookkeeping)

lemma writes_relay: "keeps (writes d0) (handle_submit_transaction e txn cfg)"
  by (intro handle_submit_rule writes_time_stable writes_stmts)


section \<open>Properties\<close>

text \<open>
  C3. Whatever the order in which the statements of any number of handlers reach the database, the invariants of the
  five tables hold: no nonce is held twice, no request is in progress twice, settled broadcasts and
  intents stay as they are, and nonce rows only move forward.
\<close>
theorem interleavings_keep_store:
  assumes "interleaved d0 flying d" "store_inv ns bs xs d0"
  shows "store_inv ns bs xs d"
  using interleaved_inv [OF assms] by (simp add: interleaving_inv_def)

text \<open>
  C4. Broadcasts are single flight under any interleaving. A handler sends only between its insertion and its
  settlement; while it does, no other handler is in flight for the same execution and none is admitted, the
  execution has not been submitted by anyone, and the handler's own settlement succeeds.
\<close>
theorem single_flight:
  assumes "interleaved d0 flying d" "store_inv ns bs xs d0" "(e, v) \<in> flying"
  shows "(\<forall>w. (e, w) \<in> flying \<longrightarrow> w = v) \<and>
    (\<forall>r \<in> set (broadcast_requests d). b_execution_id r = e \<longrightarrow> b_state r \<noteq> B_Submitted) \<and>
    (\<forall>c a locked w d'. broadcast_insert_stmt e c a locked d \<noteq> Inr (Some w, d')) \<and>
    (\<forall>ch locked. \<exists>d'. broadcast_settle_stmt e v ch locked d = Inr ((), d'))"
proof -
  have inv: "store_inv ns bs xs d" and fl: "flights_open flying d"
    using interleaved_inv [OF assms(1,2)] by (simp_all add: interleaving_inv_def)
  obtain r0 where r0: "r0 \<in> set (broadcast_requests d)" "b_key r0 = (e, v)" "b_state r0 = B_Received"
    using fl assms(3) unfolding flights_open_def by blast
  have req: "request_inv b_execution_id b_revision b_updated_at b_indexed (db_clock d) (broadcast_requests d)"
    using inv by (simp add: store_inv_def broadcast_from_def broadcast_inv_def)
  have only: "r = r0" if "r \<in> set (broadcast_requests d)" "b_execution_id r = e" "b_indexed r" for r
    using distinct_map_filter_eq [of b_execution_id b_indexed "broadcast_requests d" r r0] req that r0
    by (simp add: request_inv_def b_key_def b_indexed_def)
  have "w = v" if "(e, w) \<in> flying" for w
  proof -
    from fl that obtain r where "r \<in> set (broadcast_requests d)" "b_key r = (e, w)" "b_state r = B_Received"
      unfolding flights_open_def by blast
    with only [of r] r0(2) show ?thesis by (simp add: b_key_def b_indexed_def)
  qed
  moreover have "b_state r \<noteq> B_Submitted" if "r \<in> set (broadcast_requests d)" "b_execution_id r = e" for r
    using only [OF that] r0(3) by (auto simp: b_indexed_def)
  moreover have "broadcast_insert_stmt e c a locked d \<noteq> Inr (Some w, d')" for c a locked w d'
    using bc.insert_in_progress [OF req r0(1), of e "new_broadcast_row (db_clock d) e c a"] r0(2,3)
    by (auto simp: broadcast_insert_stmt_def b_key_def split: if_splits)
  moreover have "broadcast_open bs e v d"
    using inv r0 by (auto simp: store_inv_def broadcast_open_def)
  ultimately show ?thesis using broadcast_settle_open(1) by blast
qed


section \<open>Witnesses\<close>

text \<open>Two shards: execution 5 is in flight while execution 6 reserves its nonce.\<close>

definition racing_db :: db where
  "racing_db = init_db\<lparr>broadcast_requests := [new_broadcast_row 0 5 1 7 1], nonce_assignments := [reserved_row 0 6 1 1 7 0]\<rparr>"

lemma racing_reached: "interleaved init_db {(5, 1)} racing_db"
proof -
  let ?d1 = "init_db\<lparr>broadcast_requests := [new_broadcast_row 0 5 1 7 1]\<rparr>"
  have "broadcast_insert_stmt 5 1 7 [] init_db = Inr (Some 1, ?d1)" by code_simp
  then have "interleaved init_db {(5, 1)} ?d1"
    using interleaved_step [OF interleaved_start store_step.broadcast_insert] by blast
  moreover have "reserve_stmt 6 1 7 [] ?d1 = Inr (Some (0, 1), racing_db)" by code_simp
  then have "store_step ({(5, 1)}, ?d1) ({(5, 1)}, racing_db)" by (rule store_step.reserve)
  ultimately show ?thesis by (rule interleaved_step)
qed

lemma init_store_inv: "store_inv [] {} [] init_db"
  by (simp add: store_inv_def nonce_from_def nonce_inv_def nonce_evolves_def sign_inv_def broadcast_from_def broadcast_inv_def
      validator_inv_def relay_from_def relay_inv_def init_db_def)

theorem interleavings_keep_store_witness: "store_inv [] {} [] racing_db"
  by (rule interleavings_keep_store [OF racing_reached init_store_inv])

theorem single_flight_witness:
  "broadcast_insert_stmt 5 1 7 [] racing_db \<noteq> Inr (Some 2, racing_db) \<and>
   (\<exists>d'. broadcast_settle_stmt 5 1 (\<lambda>now. SetSubmitted now 99) [] racing_db = Inr ((), d'))"
  using single_flight [OF racing_reached init_store_inv, of 5 1] by simp

end
