(* ===== verification/Cortex.thy ===== *)
theory Cortex
  imports Cortex_Config Pipeline Interleaving
begin

text \<open>
  The orchestrator, \<^verbatim>\<open>crate/cortex/src/lib.rs\<close>: the actor handles as implementations of the traits, the boot
  function that spawns one actor per shard, the semaphore that bounds the pipelines and the submission of an
  execution. All actors run over one store and one network state. A boot or a task may panic; the
  permit of a task is returned when the task ends either way.
\<close>

section \<open>The handles as trait implementations\<close>

type_synonym 'n world = "db \<times> 'n"

record 'n services =
  sv_port :: "'n rpc_port"
  sv_acquire :: "chain_id \<Rightarrow> duration \<Rightarrow> 'n \<Rightarrow> (lobby_rpc_error + nat option) \<times> nat \<times> 'n"
  sv_draw :: "u64 \<Rightarrow> 'n \<Rightarrow> u64 \<times> 'n"
  sv_custody :: "custody_fn run"
  sv_signing :: signing_fn
  sv_link :: "nat \<Rightarrow> link"

definition world_runtime :: "'n services \<Rightarrow> 'n world runtime" where
  "world_runtime sv =
     \<lparr>gen_range = (\<lambda>u w. case sv_draw sv u (snd w) of (v, n') \<Rightarrow> (v, (fst w, n'))),
      sleep_for = (\<lambda>k w. (elapse k (db_script (fst w)) (fst w), snd w))\<rparr>"

definition acquire_endpoint :: "'n services \<Rightarrow> chain_id \<Rightarrow> duration \<Rightarrow> ('n world, lobby_rpc_error, nat option) sprog" where
  "acquire_endpoint sv c t w =
     (case sv_acquire sv c t (snd w) of (r, k, n') \<Rightarrow> (r, (elapse k (db_script (fst w)) (fst w), n')))"

definition relay_impl :: "'n services \<Rightarrow> nat \<Rightarrow> 'n world intent_relay" where
  "relay_impl sv i =
     \<lparr>register_transaction = (\<lambda>e txn cc. on_db (RelayHostHandle_register_transaction (sv_link sv i) e txn cc))\<rparr>"

definition nonce_impl :: "'n services \<Rightarrow> nat \<Rightarrow> 'n world nonce_manager" where
  "nonce_impl sv i =
     \<lparr>nm_reserve = (\<lambda>c a e. on_db (NonceHandle_reserve (sv_link sv i) c a e)),
      nm_resolve = (\<lambda>e st. on_db (NonceHandle_resolve (sv_link sv i) e st)),
      nm_sync = (\<lambda>c a e n. on_db (NonceHandle_sync (sv_link sv i) c a e n))\<rparr>"

definition sign_impl :: "'n services \<Rightarrow> custody_fn \<Rightarrow> nat \<Rightarrow> 'n world signer" where
  "sign_impl sv custody_keys i =
     \<lparr>sn_sign = (\<lambda>c a e txn. on_db (SignHandle_sign (sv_link sv i) custody_keys (sv_signing sv) c a e txn)),
      sn_revert = (\<lambda>e. on_db (SignHandle_revert (sv_link sv i) e))\<rparr>"

definition broadcast_impl :: "'n services \<Rightarrow> nat \<Rightarrow> 'n world broadcaster" where
  "broadcast_impl sv i =
     \<lparr>br_broadcast = (\<lambda>c a e txn sticky. BroadcastHandle_broadcast (sv_link sv i) (sv_port sv) c a e txn sticky)\<rparr>"

definition validator_impl :: "'n services \<Rightarrow> nat \<Rightarrow> 'n world validator" where
  "validator_impl sv i =
     \<lparr>vd_validate = (\<lambda>c e h sticky.
        ValidatorHandle_validate (sv_link sv i) (sv_port sv) default_validator_config c e h sticky)\<rparr>"


section \<open>Boot\<close>

record 'n cortex =
  cx_config :: cortex_config
  cx_relayhost :: "'n world intent_relay shard_pool"
  cx_nonce :: "'n world nonce_manager shard_pool"
  cx_sign :: "'n world signer shard_pool"
  cx_broadcast :: "'n world broadcaster shard_pool"
  cx_validator :: "'n world validator shard_pool"

text \<open>
  One actor per shard: \<open>mpsc::channel\<close> panics on a capacity of zero, creating the engine may panic, and the pool
  panics on having no shard. The engines of the sign actors load the keys, the field \<open>sv_custody\<close> of the services.
  \<open>Semaphore::new\<close> panics beyond \<open>MAX_PERMITS\<close>, which is \<open>usize::MAX >> 3\<close>.
\<close>

definition spawn_pool :: "u64 \<Rightarrow> u64 \<Rightarrow> 'e run \<Rightarrow> ('e \<Rightarrow> nat \<Rightarrow> 'h) \<Rightarrow> 'h shard_pool run" where
  "spawn_pool n buffer engine mk =
     (if n = 0 then ShardPool_new []
      else if buffer = 0 then Panic ''mpsc bounded channel requires buffer > 0''
      else bind_run engine (\<lambda>engine. ShardPool_new (map (mk engine) [0..<unat n])))"

definition semaphore_new :: "u64 \<Rightarrow> nat run" where
  "semaphore_new n =
     (if unat n \<le> 2 ^ 61 - 1 then Done (unat n) else Panic ''a semaphore may not have more than MAX_PERMITS permits'')"

definition spawn_cortex :: "'n services \<Rightarrow> cortex_config \<Rightarrow> string + registry \<Rightarrow> ('n cortex \<times> nat \<times> registry) run" where
  "spawn_cortex sv config loaded =
     bind_run (spawn_pool (relay_host_shards config) (actor_buffer config) (Done ()) (\<lambda>_. relay_impl sv)) (\<lambda>rp.
     bind_run (spawn_pool (nonce_shards config) (actor_buffer config) (Done ()) (\<lambda>_. nonce_impl sv)) (\<lambda>np.
     bind_run (spawn_pool (sign_shards config) (actor_buffer config) (sv_custody sv) (sign_impl sv)) (\<lambda>sp.
     bind_run (spawn_pool (broadcast_shards config) (actor_buffer config) (Done ()) (\<lambda>_. broadcast_impl sv)) (\<lambda>bp.
     bind_run (spawn_pool (validator_shards config) (actor_buffer config) (Done ()) (\<lambda>_. validator_impl sv)) (\<lambda>vp.
     bind_run (semaphore_new (pipeline_concurrency config)) (\<lambda>permits.
     case loaded of
       Inl err \<Rightarrow> Panic ''StatusRegistry: failed to connect to Redis server''
     | Inr r \<Rightarrow>
         Done (\<lparr>cx_config = config, cx_relayhost = rp, cx_nonce = np, cx_sign = sp, cx_broadcast = bp,
                cx_validator = vp\<rparr>, permits, r)))))))"


section \<open>Submission\<close>

record 'n system =
  sys_world :: "'n world"
  sys_registry :: registry
  sys_permits :: nat
  sys_tasks :: "'n world pipeline_context list"

text \<open>The wait for a permit ends with one, or with the timeout when there is none: it is decided on the permits at its end.\<close>

definition submit ::
  "'n services \<Rightarrow> 'n cortex \<Rightarrow> execution_id \<Rightarrow> eip1559_transaction \<Rightarrow> client_config \<Rightarrow> 'n system \<Rightarrow>
   (cortex_error + unit) \<times> 'n system" where
  "submit sv cx e txn cc sys =
     (if sys_permits sys = 0
      then (Inl (BackpressureTimeout (as_millis (pipeline_semaphore_timeout (cx_config cx)))), sys)
      else
        (let ctx = \<lparr>ctx_execution_id = e, ctx_client_config = cc, ctx_txn = txn,
               relayhost_pool = cx_relayhost cx, nonce_pool = cx_nonce cx, sign_pool = cx_sign cx,
               broadcast_pool = cx_broadcast cx, validator_pool = cx_validator cx,
               ctx_retry_config = cc_retry (cx_config cx), ctx_acquire_endpoint = acquire_endpoint sv\<rparr> in
         (Inr (), sys\<lparr>sys_permits := sys_permits sys - 1,
                      sys_registry := registry_set e PermitAquired (sys_registry sys),
                      sys_tasks := sys_tasks sys @ [ctx]\<rparr>)))"

text \<open>The spawned task \<open>i\<close> runs; its permit is dropped when it ends.\<close>

definition finish_task :: "'n world host \<Rightarrow> nat \<Rightarrow> 'n system \<Rightarrow> unit run \<times> 'n system" where
  "finish_task host i sys =
     (case run_pipeline host (sys_tasks sys ! i) (sys_world sys, sys_registry sys) of (result, (w', r')) \<Rightarrow>
        (result, sys\<lparr>sys_world := w', sys_registry := r', sys_permits := sys_permits sys + 1,
                     sys_tasks := take i (sys_tasks sys) @ drop (Suc i) (sys_tasks sys)\<rparr>))"

definition cortex_host :: "'n services \<Rightarrow> hasher \<Rightarrow> crate_text \<Rightarrow> 'n world host" where
  "cortex_host sv hash_of ct = \<lparr>host_runtime = world_runtime sv, host_hasher = hash_of, host_text = ct\<rparr>"


section \<open>The running service\<close>

text \<open>
  The service from boot on: executions are submitted, spawned tasks run, the sweeper ticks, time passes and the
  network moves on its own by \<open>drift\<close>. A task is one step here; what happens when the
  statements of concurrent handlers mix is the subject of theory \<^verbatim>\<open>Interleaving\<close>.
\<close>

inductive cortex_reachable ::
  "('n \<Rightarrow> 'n \<Rightarrow> bool) \<Rightarrow> 'n services \<Rightarrow> hasher \<Rightarrow> crate_text \<Rightarrow> cortex_config \<Rightarrow> 'n cortex \<Rightarrow> 'n system \<Rightarrow> 'n system \<Rightarrow> bool"
  for drift sv hash_of ct config cx sys0 where
  boot: "spawn_cortex sv config (Inr (sys_registry sys0)) = Done (cx, sys_permits sys0, sys_registry sys0) \<Longrightarrow>
    sys_tasks sys0 = [] \<Longrightarrow> cortex_reachable drift sv hash_of ct config cx sys0 sys0"
| submission: "cortex_reachable drift sv hash_of ct config cx sys0 sys \<Longrightarrow>
    cortex_reachable drift sv hash_of ct config cx sys0 (snd (submit sv cx e txn cc sys))"
| task: "cortex_reachable drift sv hash_of ct config cx sys0 sys \<Longrightarrow> i < length (sys_tasks sys) \<Longrightarrow>
    cortex_reachable drift sv hash_of ct config cx sys0 (snd (finish_task (cortex_host sv hash_of ct) i sys))"
| sweep: "cortex_reachable drift sv hash_of ct config cx sys0 sys \<Longrightarrow>
    cortex_reachable drift sv hash_of ct config cx sys0 (sys\<lparr>sys_world := (snd (sweep_once (fst (sys_world sys))), snd (sys_world sys))\<rparr>)"
| pause: "cortex_reachable drift sv hash_of ct config cx sys0 sys \<Longrightarrow> drift (snd (sys_world sys)) n \<Longrightarrow>
    cortex_reachable drift sv hash_of ct config cx sys0 (sys\<lparr>sys_world := (elapse k evs (fst (sys_world sys)), n)\<rparr>)"


section \<open>The actors keep the contract\<close>

text \<open>The context that a submission to a booted orchestrator builds.\<close>

definition cortex_context ::
  "'n services \<Rightarrow> cortex_config \<Rightarrow> execution_id \<Rightarrow> eip1559_transaction \<Rightarrow> client_config \<Rightarrow> 'n world pipeline_context" where
  "cortex_context sv config e txn cc =
     \<lparr>ctx_execution_id = e, ctx_client_config = cc, ctx_txn = txn,
      relayhost_pool = \<lparr>shards = map (relay_impl sv) [0..<unat (relay_host_shards config)]\<rparr>,
      nonce_pool = \<lparr>shards = map (nonce_impl sv) [0..<unat (nonce_shards config)]\<rparr>,
      sign_pool = \<lparr>shards = map (sign_impl sv (run_value (sv_custody sv))) [0..<unat (sign_shards config)]\<rparr>,
      broadcast_pool = \<lparr>shards = map (broadcast_impl sv) [0..<unat (broadcast_shards config)]\<rparr>,
      validator_pool = \<lparr>shards = map (validator_impl sv) [0..<unat (validator_shards config)]\<rparr>,
      ctx_retry_config = cc_retry config, ctx_acquire_endpoint = acquire_endpoint sv\<rparr>"

lemma keeps_acquire: "time_stable P \<Longrightarrow> keeps (\<lambda>w. P (fst w)) (acquire_endpoint sv c t)"
  by (auto simp: keeps_def acquire_endpoint_def time_stable_def split: prod.splits)

text \<open>
  A predicate of the store that every handler and the passing of time keep. The handlers reach the pipelines of the
  orchestrator through mailboxes, so the pipelines keep it too.
\<close>

locale store_contract =
  fixes I :: "db \<Rightarrow> bool" and sv :: "'n services"
  assumes stable: "time_stable I"
    and relay: "keeps I (handle_submit_transaction e txn cc)"
    and reserve: "keeps I (handle_reserve c a e)"
    and sync: "keeps I (handle_sync c a e n)"
    and resolve: "keeps I (handle_resolve e st)"
    and expire: "keeps I expire_states"
    and sign: "keeps I (handle_sign custody signing a c e txn)"
    and revert: "keeps I (handle_revert e)"
    and broadcast: "keeps (\<lambda>w. I (fst w)) (handle_broadcast (sv_port sv) c a e s sticky)"
    and validate: "0 < poll_interval cfg \<Longrightarrow> keeps (\<lambda>w. I (fst w)) (handle_validation_prog (sv_port sv) cfg c e h sticky)"

sublocale store_contract \<subseteq> actors: pipeline_contract "\<lambda>w. I (fst w)" "cortex_host sv hash_of ct" "cortex_context sv config e txn cc"
  for hash_of ct config e txn cc
proof unfold_locales
  let ?I = "\<lambda>w. I (fst w)"
  have poll: "0 < poll_interval default_validator_config" by (simp add: default_validator_config_def)
  show "keeps ?I (register_transaction rh e' txn' cc')" if "rh \<in> set (shards (relayhost_pool (cortex_context sv config e txn cc)))"
    for rh e' txn' cc'
    using that by (auto simp: cortex_context_def relay_impl_def RelayHostHandle_register_transaction_def
        intro!: invariant_intros relay)
  show "keeps ?I (nm_reserve nh c a e')" if "nh \<in> set (shards (nonce_pool (cortex_context sv config e txn cc)))" for nh c a e'
    using that by (auto simp: cortex_context_def nonce_impl_def NonceHandle_reserve_def intro!: keeps_on_db keeps_actor_call reserve)
  show "keeps ?I (nm_resolve nh e' st)" if "nh \<in> set (shards (nonce_pool (cortex_context sv config e txn cc)))" for nh e' st
    using that by (auto simp: cortex_context_def nonce_impl_def NonceHandle_resolve_def intro!: keeps_on_db keeps_actor_call resolve)
  show "keeps ?I (nm_sync nh c a e' n)" if "nh \<in> set (shards (nonce_pool (cortex_context sv config e txn cc)))" for nh c a e' n
    using that by (auto simp: cortex_context_def nonce_impl_def NonceHandle_sync_def intro!: keeps_on_db keeps_actor_call sync)
  show "keeps ?I (sn_sign sh c a e' t)" if "sh \<in> set (shards (sign_pool (cortex_context sv config e txn cc)))" for sh c a e' t
    using that by (auto simp: cortex_context_def sign_impl_def SignHandle_sign_def intro!: keeps_on_db keeps_actor_call sign)
  show "keeps ?I (sn_revert sh e')" if "sh \<in> set (shards (sign_pool (cortex_context sv config e txn cc)))" for sh e'
    using that by (auto simp: cortex_context_def sign_impl_def SignHandle_revert_def intro!: keeps_on_db keeps_actor_call revert)
  show "keeps ?I (br_broadcast bh c a e' s sticky)" if "bh \<in> set (shards (broadcast_pool (cortex_context sv config e txn cc)))"
    for bh c a e' s sticky
    using that by (auto simp: cortex_context_def broadcast_impl_def BroadcastHandle_broadcast_def
        intro!: keeps_actor_call broadcast)
  show "keeps ?I (vd_validate vh c e' h sticky)" if "vh \<in> set (shards (validator_pool (cortex_context sv config e txn cc)))"
    for vh c e' h sticky
    using that by (auto simp: cortex_context_def validator_impl_def ValidatorHandle_validate_def
        intro!: keeps_actor_call validate poll)
  show "keeps ?I (ctx_acquire_endpoint (cortex_context sv config e txn cc) c t)" for c t
    by (simp add: cortex_context_def keeps_acquire stable)
  show "?I (snd (gen_range (host_runtime (cortex_host sv hash_of ct)) u s0))" if "?I s0" for s0 u
    using that by (simp add: cortex_host_def world_runtime_def split: prod.splits)
  show "?I (sleep_for (host_runtime (cortex_host sv hash_of ct)) k s0)" if "?I s0" for s0 k
    using that stable by (simp add: cortex_host_def world_runtime_def time_stable_def)
qed

interpretation inv: store_contract "store_inv ns bs xs" sv
  for ns bs xs sv
  by unfold_locales
    (rule store_inv_time_stable store_inv_relay store_inv_nonce store_inv_sign store_inv_broadcast store_inv_validate; assumption?)+

interpretation steps: store_contract "writes d0" sv
  for d0 sv
  by unfold_locales
    (rule writes_time_stable writes_relay writes_nonce writes_sign writes_broadcast writes_validate; assumption?)+


section \<open>Properties\<close>

lemma spawn_pool_Done_iff:
  "spawn_pool n b engine mk = Done p \<longleftrightarrow>
     0 < n \<and> b \<noteq> 0 \<and> (\<exists>e. engine = Done e \<and> p = \<lparr>shards = map (mk e) [0..<unat n]\<rparr>)"
  by (auto simp: spawn_pool_def bind_run_Done_iff ShardPool_new_Done_iff unat_gt_0 word_neq_0_conv unat_eq_0)

text \<open>
  The orchestrator boots exactly when every pool has a shard, the mailboxes have a capacity, the keys load, the
  semaphore can hold the configured permits and the registry was loaded; otherwise it panics.
\<close>
theorem spawn_cortex_outcome:
  "(\<exists>x. spawn_cortex sv config loaded = Done x) \<longleftrightarrow>
     0 < relay_host_shards config \<and> 0 < nonce_shards config \<and> 0 < sign_shards config \<and>
     0 < broadcast_shards config \<and> 0 < validator_shards config \<and> actor_buffer config \<noteq> 0 \<and>
     (\<exists>custody. sv_custody sv = Done custody) \<and> unat (pipeline_concurrency config) \<le> 2 ^ 61 - 1 \<and> (\<exists>r. loaded = Inr r)"
  by (cases loaded) (auto simp: spawn_cortex_def bind_run_Done_iff spawn_pool_Done_iff semaphore_new_def)

lemma spawn_cortex_DoneD:
  assumes "spawn_cortex sv config loaded = Done (cx, permits, r)"
  shows "0 < relay_host_shards config" "0 < nonce_shards config" "0 < sign_shards config"
    "0 < broadcast_shards config" "0 < validator_shards config" "permits = unat (pipeline_concurrency config)"
    "cx = \<lparr>cx_config = config,
       cx_relayhost = \<lparr>shards = map (relay_impl sv) [0..<unat (relay_host_shards config)]\<rparr>,
       cx_nonce = \<lparr>shards = map (nonce_impl sv) [0..<unat (nonce_shards config)]\<rparr>,
       cx_sign = \<lparr>shards = map (sign_impl sv (run_value (sv_custody sv))) [0..<unat (sign_shards config)]\<rparr>,
       cx_broadcast = \<lparr>shards = map (broadcast_impl sv) [0..<unat (broadcast_shards config)]\<rparr>,
       cx_validator = \<lparr>shards = map (validator_impl sv) [0..<unat (validator_shards config)]\<rparr>\<rparr>"
proof -
  obtain r' where "loaded = Inr r'"
    using assms by (cases loaded) (auto simp: spawn_cortex_def bind_run_Done_iff)
  note eq = assms [unfolded this spawn_cortex_def bind_run_Done_iff spawn_pool_Done_iff semaphore_new_def]
  from eq show "0 < relay_host_shards config" "0 < nonce_shards config" "0 < sign_shards config"
    "0 < broadcast_shards config" "0 < validator_shards config" "permits = unat (pipeline_concurrency config)"
    by (auto split: if_splits)
  from eq show "cx = \<lparr>cx_config = config,
       cx_relayhost = \<lparr>shards = map (relay_impl sv) [0..<unat (relay_host_shards config)]\<rparr>,
       cx_nonce = \<lparr>shards = map (nonce_impl sv) [0..<unat (nonce_shards config)]\<rparr>,
       cx_sign = \<lparr>shards = map (sign_impl sv (run_value (sv_custody sv))) [0..<unat (sign_shards config)]\<rparr>,
       cx_broadcast = \<lparr>shards = map (broadcast_impl sv) [0..<unat (broadcast_shards config)]\<rparr>,
       cx_validator = \<lparr>shards = map (validator_impl sv) [0..<unat (validator_shards config)]\<rparr>\<rparr>"
    by auto
qed

lemma submit_booted:
  assumes "spawn_cortex sv config loaded = Done (cx, permits, r)"
  shows "snd (submit sv cx e txn cc sys) =
      (if sys_permits sys = 0 then sys
       else sys\<lparr>sys_permits := sys_permits sys - 1, sys_registry := registry_set e PermitAquired (sys_registry sys),
                sys_tasks := sys_tasks sys @ [cortex_context sv config e txn cc]\<rparr>)"
  unfolding spawn_cortex_DoneD(7) [OF assms] by (simp add: submit_def cortex_context_def)

lemma booted_context_ok:
  assumes "spawn_cortex sv config loaded = Done (cx, permits, r)" "max_attempts (cc_retry config) \<noteq> - 1"
  shows "context_ok (cortex_context sv config e txn cc)"
proof -
  have "[0..<unat n] \<noteq> []" if "0 < n" for n :: u64
    using that by (simp add: word_less_nat_alt)
  with spawn_cortex_DoneD(1-5) [OF assms(1)] assms(2) show ?thesis
    by (simp add: context_ok_def cortex_context_def)
qed

lemma reachable_tasks:
  assumes "cortex_reachable drift sv hash_of ct config cx sys0 sys"
  shows "spawn_cortex sv config (Inr (sys_registry sys0)) = Done (cx, sys_permits sys0, sys_registry sys0) \<and>
    sys_permits sys + length (sys_tasks sys) = unat (pipeline_concurrency config) \<and>
    (\<forall>ctx \<in> set (sys_tasks sys). \<exists>e txn cc. ctx = cortex_context sv config e txn cc)"
  using assms
proof (induction rule: cortex_reachable.induct)
  case boot
  then show ?case using spawn_cortex_DoneD(6) by force
next
  case (submission sys e txn cc)
  then have boot: "spawn_cortex sv config (Inr (sys_registry sys0)) = Done (cx, sys_permits sys0, sys_registry sys0)" by simp
  from submission show ?case unfolding submit_booted [OF boot] by auto
next
  case (task sys i)
  then show ?case
    by (auto simp: finish_task_def split: prod.splits dest: in_set_takeD in_set_dropD)
qed auto

text \<open>
  At most \<open>pipeline_concurrency\<close> pipelines are in flight at any time: permits and running tasks always add up to
  the configured number, so a submission is refused exactly when that many pipelines are running.
\<close>
theorem bounded_concurrency:
  assumes "cortex_reachable drift sv hash_of ct config cx sys0 sys"
  shows "length (sys_tasks sys) \<le> unat (pipeline_concurrency config) \<and>
     ((\<exists>err. fst (submit sv cx e txn cc sys) = Inl err) \<longleftrightarrow> length (sys_tasks sys) = unat (pipeline_concurrency config))"
  using reachable_tasks [OF assms] by (auto simp: submit_def Let_def)

context store_contract
begin

lemma reachable_keeps:
  assumes "cortex_reachable drift sv hash_of ct config cx sys0 sys" "I (fst (sys_world sys0))"
  shows "I (fst (sys_world sys))"
  using assms
proof (induction rule: cortex_reachable.induct)
  case boot
  then show ?case by simp
next
  case (submission sys e txn cc)
  then show ?case by (simp add: submit_def Let_def)
next
  case (task sys i)
  then obtain e txn cc where "sys_tasks sys ! i = cortex_context sv config e txn cc"
    using reachable_tasks [OF task.hyps(1)] nth_mem by blast
  moreover have "I (fst (sys_world sys))" using task by simp
  ultimately show ?case
    using actors.run_pipeline_keeps [of "sys_world sys" hash_of ct config e txn cc "sys_registry sys"]
    by (simp add: finish_task_def case_prod_beta)
next
  case (sweep sys)
  then show ?case
    using keepsD [OF expire] by (auto simp: sweep_once_def split: prod.splits sum.splits) (metis snd_conv)+
next
  case (pause sys n k evs)
  then show ?case using stable by (simp add: time_stable_def)
qed

end

text \<open>
  Every store the running service reaches satisfies the invariants of the five tables, whatever the database, the
  mailboxes and the network did; no intent and no settled broadcast of the store it started from has
  changed, and the nonce rows have only moved forward.
\<close>
theorem store_invariants_hold:
  assumes "cortex_reachable drift sv hash_of ct config cx sys0 sys"
    and "store_inv (nonce_assignments (fst (sys_world sys0))) bs (transaction_intents (fst (sys_world sys0))) (fst (sys_world sys0))"
  shows "store_inv (nonce_assignments (fst (sys_world sys0))) bs (transaction_intents (fst (sys_world sys0))) (fst (sys_world sys))"
  using assms by (rule inv.reachable_keeps)

text \<open>
  C19. Everything the running service does to its store is a sequence of single statements of the interleaving model:
  the handlers, composed by the pipelines, issue no other statement, with no other arguments, and settle only
  the broadcasts they inserted.
\<close>
theorem service_is_interleaving:
  assumes "cortex_reachable drift sv hash_of ct config cx sys0 sys"
  shows "\<exists>flying. interleaved (fst (sys_world sys0)) flying (fst (sys_world sys))"
  using steps.reachable_keeps [OF assms writes_start] by (simp add: writes_def)

text \<open>
  Every task of the running service can finish: it does not panic, its execution ends in a terminal status and its
  permit is returned.
\<close>
lemma task_finishes:
  assumes "cortex_reachable drift sv hash_of ct config cx sys0 sys" "max_attempts (cc_retry config) \<noteq> - 1"
    and "i < length (sys_tasks sys)"
  shows "\<exists>sys' st. finish_task (cortex_host sv hash_of ct) i sys = (Done (), sys') \<and>
     registry_get (ctx_execution_id (sys_tasks sys ! i)) (sys_registry sys') = Some st \<and> terminal st \<and>
     sys_permits sys' = sys_permits sys + 1 \<and> length (sys_tasks sys') + 1 = length (sys_tasks sys)"
proof -
  obtain e txn cc where ctx: "sys_tasks sys ! i = cortex_context sv config e txn cc"
    using reachable_tasks [OF assms(1)] nth_mem [OF assms(3)] by blast
  have "context_ok (sys_tasks sys ! i)"
    using booted_context_ok [OF conjunct1 [OF reachable_tasks [OF assms(1)]] assms(2)] ctx by simp
  then obtain w' r' where run: "run_pipeline (cortex_host sv hash_of ct) (sys_tasks sys ! i) (sys_world sys, sys_registry sys) = (Done (), (w', r'))"
    and "pipeline_ended (ctx_execution_id (sys_tasks sys ! i)) (sys_registry sys) r'"
    by (metis pipeline_done_def run_pipeline_done)
  then obtain st where "terminal st" "registry_get (ctx_execution_id (sys_tasks sys ! i)) r' = Some st"
    using pipeline_ended_get by blast
  with run assms(3) show ?thesis by (auto simp: finish_task_def)
qed



section \<open>Witnesses\<close>

definition sample_services :: "nat services" where
  "sample_services =
     \<lparr>sv_port = mined_port, sv_acquire = (\<lambda>c t n. (Inr (Some 0), 1, n)), sv_draw = (\<lambda>u n. (drop_bit 1 u, n)),
      sv_custody = Done sample_custody, sv_signing = sample_signing, sv_link = (\<lambda>i. LinkUp)\<rparr>"

definition sample_config :: cortex_config where
  "sample_config =
     \<lparr>relay_host_shards = 2, nonce_shards = 1, sign_shards = 1, broadcast_shards = 1, validator_shards = 1,
      actor_buffer = 8, pipeline_concurrency = 1, pipeline_semaphore_timeout = 5, cc_retry = RetryConfig_default\<rparr>"

definition sample_system :: "nat system" where
  "sample_system = \<lparr>sys_world = (init_db, 0), sys_registry = empty_registry, sys_permits = 1, sys_tasks = []\<rparr>"

definition sample_cortex :: "nat cortex" where
  "sample_cortex =
     (case spawn_cortex sample_services sample_config (Inr empty_registry) of Done (cx, n, r) \<Rightarrow> cx)"

definition busy_system :: "nat system" where
  "busy_system = snd (submit sample_services sample_cortex 5 sample_tx \<lparr>client_id = 1, from_address = 7\<rparr> sample_system)"

lemma sample_services_custody: "sv_custody sample_services = Done sample_custody"
  by (simp add: sample_services_def)

lemma sample_boot:
  "spawn_cortex sample_services sample_config (Inr (sys_registry sample_system)) =
     Done (sample_cortex, sys_permits sample_system, sys_registry sample_system)"
  by (simp add: sample_cortex_def sample_system_def sample_config_def spawn_cortex_def bind_run_def spawn_pool_def
      ShardPool_new_def semaphore_new_def upt_rec [of 0] sample_services_custody)

lemma sample_reachable: "cortex_reachable drift sample_services hash_of ct sample_config sample_cortex sample_system busy_system"
  unfolding busy_system_def by (rule submission, rule boot [OF sample_boot]) (simp add: sample_system_def)

lemma busy_task: "0 < length (sys_tasks busy_system)"
  by (simp add: busy_system_def submit_def sample_system_def Let_def)

theorem bounded_concurrency_witness:
  "length (sys_tasks busy_system) \<le> unat (pipeline_concurrency sample_config) \<and>
     ((\<exists>err. fst (submit sample_services sample_cortex 6 sample_tx \<lparr>client_id = 1, from_address = 7\<rparr> busy_system) = Inl err) \<longleftrightarrow>
        length (sys_tasks busy_system) = unat (pipeline_concurrency sample_config))"
  by (rule bounded_concurrency [OF sample_reachable [of "\<lambda>_ _. True"]])

theorem store_invariants_hold_witness:
  "store_inv (nonce_assignments (fst (sys_world sample_system))) {} (transaction_intents (fst (sys_world sample_system)))
     (fst (sys_world busy_system))"
  by (rule store_invariants_hold [OF sample_reachable [of "\<lambda>_ _. True"]])
    (simp add: sample_system_def store_inv_def nonce_from_def nonce_inv_def sign_inv_def broadcast_from_def broadcast_inv_def
      validator_inv_def relay_from_def relay_inv_def init_db_def)

theorem service_is_interleaving_witness:
  "\<exists>flying. interleaved (fst (sys_world sample_system)) flying
     (fst (sys_world (snd (finish_task (cortex_host sample_services (\<lambda>k. 3) (host_text sample_host)) 0 busy_system))))"
  by (rule service_is_interleaving [OF task [OF sample_reachable [of "\<lambda>_ _. True"] busy_task]])

end
