(* ===== verification/Rpc_Layer.thy ===== *)
theory Rpc_Layer
  imports Rpc_Calls Cortex
begin

text \<open>
  The RPC client below the actors. What the actors rely on is a locale: the calls of a port and the choice of an
  endpoint keep a property of the network state. The engines then keep it, and so does the pipeline; the
  client of \<^verbatim>\<open>crate/utils/src/rpc\<close> provides it with its well-formedness.
\<close>

section \<open>What the engines rely on\<close>

definition call_keeps :: "('n \<Rightarrow> bool) \<Rightarrow> ('n \<Rightarrow> 'r \<times> nat \<times> 'n) \<Rightarrow> bool" where
  "call_keeps ok f \<longleftrightarrow> (\<forall>n. ok n \<longrightarrow> ok (snd (snd (f n))))"

lemma net_on_db: "snd (snd (on_db m w)) = snd w"
  by (simp add: on_db_def split: prod.splits)

lemma net_keeps:
  "keeps (\<lambda>w. ok (snd w)) (on_db m)" "keeps (\<lambda>w. ok (snd w)) (sleep k)" "keeps (\<lambda>w. ok (snd w)) instant_now"
  by (auto simp: keeps_def on_db_def sleep_def instant_now_def split: prod.splits)

lemma net_keeps_call: "call_keeps ok f \<Longrightarrow> keeps (\<lambda>w. ok (snd w)) (rpc_call f)"
  by (simp add: keeps_def call_keeps_def rpc_call_def case_prod_beta)

locale rpc_layer =
  fixes port :: "'n rpc_port"
    and acquire :: "chain_id \<Rightarrow> duration \<Rightarrow> 'n \<Rightarrow> (lobby_rpc_error + nat option) \<times> nat \<times> 'n"
    and ok :: "'n \<Rightarrow> bool"
  assumes send_keeps: "call_keeps ok (rpc_send_raw_transaction port c i bs t)"
    and count_keeps: "call_keeps ok (rpc_get_transaction_count port c i a t)"
    and receipt_keeps: "call_keeps ok (rpc_get_transaction_receipt port c i h t)"
    and block_keeps: "call_keeps ok (rpc_get_block_number port c i t)"
    and acquire_keeps: "call_keeps ok (acquire c d)"
begin

lemmas port_keeps = net_keeps_call [OF send_keeps] net_keeps_call [OF count_keeps] net_keeps_call [OF receipt_keeps]
  net_keeps_call [OF block_keeps]

lemma broadcast_keeps: "keeps (\<lambda>w. ok (snd w)) (handle_broadcast port c a e txn sticky)"
  unfolding handle_broadcast_def finish_broadcast_def fetch_current_nonce_def Let_def
  by (intro invariant_intros net_keeps port_keeps)

lemma poll_keeps: "keeps (\<lambda>w. ok (snd w)) (validate_poll port cfg c e h sticky start)"
  unfolding validate_poll_def Let_def by (intro invariant_intros net_keeps port_keeps)

lemma loop_keeps:
  "ok (snd w) \<Longrightarrow> validate_loop fuel port cfg c e h sticky start w = Some (r, w') \<Longrightarrow> ok (snd w')"
proof (induction fuel arbitrary: w)
  case 0
  then show ?case by simp
next
  case (Suc fuel)
  have "ok (snd (snd (validate_poll port cfg c e h sticky start w)))"
    using keepsD [OF poll_keeps, of w] Suc.prems(1) by simp
  with Suc show ?case by (auto split: prod.splits sum.splits option.splits)
qed

lemma validation_keeps:
  assumes "0 < poll_interval cfg"
  shows "keeps (\<lambda>w. ok (snd w)) (handle_validation_prog port cfg c e h sticky)"
  unfolding keeps_def
proof (intro allI impI)
  fix w :: "db \<times> 'n" assume w: "ok (snd w)"
  obtain r w' where run: "handle_validation (loop_bound cfg) port cfg c e h sticky w = Some (r, w')"
    using handle_validation_returns [OF assms order_refl] by (metis prod.collapse)
  have "ok (snd w')"
    using run w
    by (auto simp: handle_validation_def split: prod.splits sum.splits option.splits)
      (metis snd_conv loop_keeps net_on_db)+
  then show "ok (snd (snd (handle_validation_prog port cfg c e h sticky w)))"
    using run by (simp add: handle_validation_prog_def)
qed

end


section \<open>The client provides it\<close>

lemma acquire_endpoint_outcome:
  assumes "client_ok client" "env_ok env"
  shows "case served client c of
      None \<Rightarrow> acquire_healthy_endpoint env c t (client, w) = (Inl (NoEndpointsAvailable c), 0, (client, w))
    | Some urls \<Rightarrow> \<exists>i < length urls.
        acquire_healthy_endpoint env c t (client, w) = (Inr (Some i), 0, (client, snd (env_surroundings env w)))"
proof -
  obtain taken where taken: "get_semaphore t Validator (provider_stack client) = (Inr (), taken)"
    "drop_permit Validator taken = provider_stack client" "get_pool Validator c taken = get_pool Validator c (provider_stack client)"
    using permit_round_trip [OF client_okD(1) [OF assms(1)]] by metis
  show ?thesis
  proof (cases "served client c")
    case None
    then show ?thesis using taken served_None [OF assms(1) None, of Validator]
      by (simp add: acquire_healthy_endpoint_def del: get_semaphore.simps get_pool.simps drop_permit.simps)
  next
    case (Some urls)
    then obtain pool where pool: "get_pool Validator c (provider_stack client) = Some pool" "pool_ok c pool" "endpoint_urls pool = urls"
      using served_Some [OF assms(1)] by blast
    obtain su w' where su: "env_surroundings env w = (su, w')" by fastforce
    then have "surroundings_ok su" using assms(2) unfolding env_ok_def by (metis fst_conv)
    then obtain i where "weighted_choice pool i" "select_by_weighted_score su pool = Some (choice_of (ep_endpoints pool ! i) i)"
      using weighted_outcome pool(2) by (metis pool_ok_def)
    then have "i < length urls" "best_endpoint_index su pool = Some i"
      using pool(3) by (auto simp: weighted_choice_def endpoint_urls_def best_endpoint_index_def choice_of_def)
    then show ?thesis using Some taken pool(1) su
      by (simp add: acquire_healthy_endpoint_def del: get_semaphore.simps get_pool.simps drop_permit.simps)
  qed
qed

definition client_at :: "'w rpc_env \<Rightarrow> (chain_id \<Rightarrow> ('p \<times> string) list option) \<Rightarrow> 'p rpc_client \<times> 'w \<Rightarrow> bool" where
  "client_at env chains_served n \<longleftrightarrow> env_ok env \<and> client_ok (fst n) \<and> served (fst n) = chains_served"

lemma call_keeps_execute:
  "call_keeps (client_at env s0) (\<lambda>s. debugged dbg (map_call f g (execute_unary env actor c sticky t op) s))"
  by (simp add: call_keeps_def client_at_def debugged_def map_call_def case_prod_beta execute_unary_ok)

lemma call_keeps_acquire: "call_keeps (client_at env s0) (acquire_healthy_endpoint env c t)"
  unfolding call_keeps_def
proof (intro allI impI)
  fix n assume n: "client_at env s0 n"
  obtain client w where "n = (client, w)" by (cases n)
  with n acquire_endpoint_outcome [of client env c t w] show "client_at env s0 (snd (snd (acquire_healthy_endpoint env c t n)))"
    by (auto simp: client_at_def split: option.splits)
qed

interpretation client: rpc_layer "client_port env pv dbg" "acquire_healthy_endpoint env" "client_at env s0"
  for env pv dbg s0
  by unfold_locales
    (simp_all add: client_port_def send_raw_transaction_def get_transaction_count_def get_transaction_receipt_def
      get_block_number_def call_keeps_execute call_keeps_acquire)


section \<open>The service on the client\<close>

definition client_services ::
  "'w rpc_env \<Rightarrow> ('p, 'w) alloy_provider \<Rightarrow> (lobby_rpc_error \<Rightarrow> string) \<Rightarrow> (u64 \<Rightarrow> 'w \<Rightarrow> u64 \<times> 'w) \<Rightarrow>
   custody_fn run \<Rightarrow> signing_fn \<Rightarrow> (nat \<Rightarrow> link) \<Rightarrow> ('p rpc_client \<times> 'w) services" where
  "client_services env pv dbg draw custody signing link =
     \<lparr>sv_port = client_port env pv dbg, sv_acquire = acquire_healthy_endpoint env,
      sv_draw = (\<lambda>u n. case draw u (snd n) of (v, w') \<Rightarrow> (v, (fst n, w'))),
      sv_custody = custody, sv_signing = signing, sv_link = link\<rparr>"

lemma client_services_simps [simp]:
  "sv_port (client_services env pv dbg draw custody signing link) = client_port env pv dbg"
  "sv_acquire (client_services env pv dbg draw custody signing link) = acquire_healthy_endpoint env"
  by (simp_all add: client_services_def)

interpretation on_client: pipeline_contract "\<lambda>w. client_at env s0 (snd w)"
  "cortex_host (client_services env pv dbg draw custody signing link) hash_of ct"
  "cortex_context (client_services env pv dbg draw custody signing link) config e txn cc"
  for env s0 pv dbg draw custody signing link hash_of ct config e txn cc
proof unfold_locales
  let ?sv = "client_services env pv dbg draw custody signing link"
  let ?I = "\<lambda>w. client_at env s0 (snd w)" and ?ctx = "cortex_context ?sv config e txn cc"
  have poll: "0 < poll_interval default_validator_config" by (simp add: default_validator_config_def)
  show "keeps ?I (register_transaction rh e' txn' cc')" if "rh \<in> set (shards (relayhost_pool ?ctx))" for rh e' txn' cc'
    using that by (auto simp: cortex_context_def relay_impl_def intro: net_keeps)
  show "keeps ?I (nm_reserve nh c a e')" "keeps ?I (nm_resolve nh e' st)" "keeps ?I (nm_sync nh c a e' n)"
    if "nh \<in> set (shards (nonce_pool ?ctx))" for nh c a e' st n
    using that by (auto simp: cortex_context_def nonce_impl_def intro: net_keeps)
  show "keeps ?I (sn_sign sh c a e' t)" "keeps ?I (sn_revert sh e')" if "sh \<in> set (shards (sign_pool ?ctx))" for sh c a e' t
    using that by (auto simp: cortex_context_def sign_impl_def intro: net_keeps)
  show "keeps ?I (br_broadcast bh c a e' s sticky)" if "bh \<in> set (shards (broadcast_pool ?ctx))" for bh c a e' s sticky
    using that by (auto simp: cortex_context_def broadcast_impl_def BroadcastHandle_broadcast_def
        intro!: keeps_actor_call client.broadcast_keeps)
  show "keeps ?I (vd_validate vh c e' h sticky)" if "vh \<in> set (shards (validator_pool ?ctx))" for vh c e' h sticky
    using that by (auto simp: cortex_context_def validator_impl_def ValidatorHandle_validate_def
        intro!: keeps_actor_call client.validation_keeps poll)
  show "keeps ?I (ctx_acquire_endpoint ?ctx c t)" for c t
    using call_keeps_acquire [of env s0 c t]
    by (simp add: cortex_context_def keeps_def acquire_endpoint_def call_keeps_def case_prod_beta)
  show "?I (snd (gen_range (host_runtime (cortex_host ?sv hash_of ct)) u s0'))" if "?I s0'" for s0' u
    using that by (auto simp: cortex_host_def world_runtime_def client_services_def client_at_def case_prod_beta)
  show "?I (sleep_for (host_runtime (cortex_host ?sv hash_of ct)) k s0')" if "?I s0'" for s0' k
    using that by (simp add: cortex_host_def world_runtime_def)
qed

text \<open>Between the steps of the service the network moves, and nothing else touches the client.\<close>

definition network_drift :: "'p rpc_client \<times> 'w \<Rightarrow> 'p rpc_client \<times> 'w \<Rightarrow> bool" where
  "network_drift n n' \<longleftrightarrow> fst n' = fst n"

lemma client_stays_ok:
  assumes "cortex_reachable network_drift (client_services env pv dbg draw custody signing link) hash_of ct config cx sys0 sys"
    and "build_rpc_client pf lag vars = Inr (fst (snd (sys_world sys0)))" "env_ok env"
  shows "client_ok (fst (snd (sys_world sys))) \<and> served (fst (snd (sys_world sys))) = env_endpoints pf vars"
proof -
  have "client_at env (env_endpoints pf vars) (snd (sys_world sys))"
    using assms(1)
  proof (induction rule: cortex_reachable.induct)
    case boot
    then show ?case using build_ok [OF assms(2)] assms(3) by (simp add: client_at_def)
  next
    case (submission sys e txn cc)
    then show ?case by (simp add: submit_def Let_def)
  next
    case (task sys i)
    then obtain e txn cc where "sys_tasks sys ! i =
        cortex_context (client_services env pv dbg draw custody signing link) config e txn cc"
      using reachable_tasks [OF task.hyps(1)] nth_mem by blast
    with task.IH on_client.run_pipeline_keeps [of env _ "sys_world sys" pv dbg draw custody signing link hash_of ct config e txn cc "sys_registry sys"]
    show ?case by (simp add: finish_task_def case_prod_beta)
  next
    case (sweep sys)
    then show ?case by simp
  next
    case (pause sys n k evs)
    then show ?case by (simp add: client_at_def network_drift_def)
  qed
  then show ?thesis by (simp add: client_at_def)
qed

text \<open>
  C20. The RPC client stays sound under the running service: starting from a client as it was built, whatever
  executions are submitted and however the nodes, the database and the mailboxes behave, after every step all
  permits of both actors are free, every endpoint's metrics are well formed, and the chains and
  endpoints served, the same for both actors at every index, are those it was built with.
\<close>
theorem rpc_client_stays_sound:
  assumes "cortex_reachable network_drift (client_services env pv dbg draw custody signing link) hash_of ct config cx sys0 sys"
    and "build_rpc_client pf lag vars = Inr (fst (snd (sys_world sys0)))" "env_ok env"
  shows "client_ok (fst (snd (sys_world sys))) \<and> served (fst (snd (sys_world sys))) = env_endpoints pf vars"
  using assms by (rule client_stays_ok)


section \<open>Witness\<close>

definition sample_factory :: "(string, string) provider_factory" where
  "sample_factory = \<lparr>url_parse = Inr, url_scheme = (\<lambda>u. ''https''), connect_http = (\<lambda>u. u)\<rparr>"

definition sample_vars :: "(string \<times> string) list" where
  "sample_vars = [(''HOME'', ''/root''), (''RPC_ENDPOINT_1'', ''https://a, https://b'')]"

definition sample_provider :: "(string, nat) alloy_provider" where
  "sample_provider =
     \<lparr>pv_send_raw_transaction = (\<lambda>p bs n. (Inr 99, 5, Suc n)), pv_get_transaction_count_pending = (\<lambda>p a n. (Inr 4, 1, Suc n)),
      pv_get_transaction_receipt = (\<lambda>p h n. (Inr (Some \<lparr>rcpt_status = True, rcpt_block_number = Some 10\<rparr>), 1, Suc n)),
      pv_get_block_number = (\<lambda>p n. (Inr 12, 1, Suc n))\<rparr>"

definition built_client :: "string rpc_client" where
  "built_client = projr (build_rpc_client sample_factory (\<lambda>i. 0) sample_vars)"

definition wired_services :: "(string rpc_client \<times> nat) services" where
  "wired_services =
     client_services sample_env sample_provider (\<lambda>e. show_lobby_rpc_error e) (\<lambda>u n. (drop_bit 1 u, n))
       (Done sample_custody) sample_signing (\<lambda>i. LinkUp)"

definition wired_system :: "(string rpc_client \<times> nat) system" where
  "wired_system = \<lparr>sys_world = (init_db, (built_client, 0)), sys_registry = empty_registry, sys_permits = 1, sys_tasks = []\<rparr>"

definition wired_cortex :: "(string rpc_client \<times> nat) cortex" where
  "wired_cortex = (case spawn_cortex wired_services sample_config (Inr empty_registry) of Done (cx, n, r) \<Rightarrow> cx)"

lemma sample_endpoint_vars: "endpoint_vars sample_vars = [(''1'', [''https://a'', ''https://b''])]"
  by code_simp

lemma sample_env_usable: "env_usable sample_factory sample_vars"
proof -
  have "ChainId_from_str ''1'' = Inr (ChainId 1)" by code_simp
  then show ?thesis
    by (simp add: env_usable_def sample_endpoint_vars var_ok_def usable_url_def create_unary_provider_def sample_factory_def)
qed

lemma sample_build: "build_rpc_client sample_factory (\<lambda>i. 0) sample_vars = Inr built_client"
  using build_cases [where pf = sample_factory and lag = "\<lambda>i. 0" and vars = sample_vars] sample_env_usable
  by (auto simp: built_client_def split: sum.splits)

lemma wired_services_custody: "sv_custody wired_services = Done sample_custody"
  by (simp add: wired_services_def client_services_def)

lemma wired_boot:
  "spawn_cortex wired_services sample_config (Inr (sys_registry wired_system)) =
     Done (wired_cortex, sys_permits wired_system, sys_registry wired_system)"
  by (simp add: wired_cortex_def wired_system_def sample_config_def spawn_cortex_def bind_run_def spawn_pool_def
      ShardPool_new_def semaphore_new_def upt_rec [of 0] wired_services_custody)

definition wired_run :: "(string rpc_client \<times> nat) system" where
  "wired_run = snd (finish_task (cortex_host wired_services (\<lambda>k. 3) (host_text sample_host)) 0
     (snd (submit wired_services wired_cortex 5 sample_tx \<lparr>client_id = 1, from_address = 7\<rparr> wired_system)))"

lemma wired_reachable:
  "cortex_reachable network_drift wired_services (\<lambda>k. 3) (host_text sample_host) sample_config wired_cortex wired_system wired_run"
  unfolding wired_run_def
  by (rule task, rule submission, rule boot [OF wired_boot]) (simp_all add: wired_system_def submit_def Let_def)

theorem rpc_client_stays_sound_witness:
  "client_ok (fst (snd (sys_world wired_run))) \<and>
     served (fst (snd (sys_world wired_run))) = env_endpoints sample_factory sample_vars"
  by (rule rpc_client_stays_sound [OF wired_reachable [unfolded wired_services_def], where lag = "\<lambda>i. 0"])
    (simp_all add: wired_system_def sample_build sample_env_ok)

end
