(* ===== verification/Api_Keys.thy ===== *)
theory Api_Keys
  imports Cortex_Config "HOL-Library.AList"
begin

text \<open>
  API keys: their generation for the custody accounts, \<^verbatim>\<open>lobby/src/bin/generate_api_keys.rs\<close>, and their loading
  from the environment, \<^verbatim>\<open>crate/utils/src/api/api.rs\<close>. The texts of the crates \<open>uuid\<close> and alloy are parameters;
  the JSON object of accounts is the list of its entries and the environment the list \<open>env::vars\<close> yields.
\<close>

section \<open>Loading\<close>

type_synonym api_registry = "(string \<times> client_config) list"

record key_text =
  uuid_parse_str :: "string \<Rightarrow> uuid option"
  address_from_str :: "string \<Rightarrow> address option"

datatype env_api_key_error =
    InvalidClientId string
  | InvalidFromAddress string
  | InvalidApiKey string
  | ApiKeyUnavailable

fun show_env_api_key_error :: "env_api_key_error \<Rightarrow> string" where
  "show_env_api_key_error (InvalidClientId k) = ''invalid client id: '' @ k"
| "show_env_api_key_error (InvalidFromAddress k) = ''invalid from_address '' @ k"
| "show_env_api_key_error (InvalidApiKey k) =
     ''Invalid API key format for '' @ k @ '': expected <api_token>:<client_id>:<from_address>''"
| "show_env_api_key_error ApiKeyUnavailable = ''could not find api_keys of valid format in env''"

definition parse_api_key :: "key_text \<Rightarrow> string \<Rightarrow> string \<Rightarrow> env_api_key_error + string \<times> client_config" where
  "parse_api_key kt key value =
     (case split_on CHR '':'' value of
        [api_token, client, addr] \<Rightarrow>
          (case uuid_parse_str kt client of
             None \<Rightarrow> Inl (InvalidClientId key)
           | Some cid \<Rightarrow>
               (case address_from_str kt addr of
                  None \<Rightarrow> Inl (InvalidFromAddress key)
                | Some a \<Rightarrow> Inr (api_token, \<lparr>client_id = cid, from_address = a\<rparr>)))
      | _ \<Rightarrow> Inl (InvalidApiKey key))"

fun load_keys_loop :: "key_text \<Rightarrow> (string \<times> string) list \<Rightarrow> api_registry \<Rightarrow> env_api_key_error + api_registry" where
  "load_keys_loop kt [] api_keys = Inr api_keys"
| "load_keys_loop kt ((key, value) # vars) api_keys =
     (case strip_prefix ''LOBBY_API_KEY_'' key of
        None \<Rightarrow> load_keys_loop kt vars api_keys
      | Some suffix \<Rightarrow>
          (case parse_api_key kt key value of
             Inl e \<Rightarrow> Inl e
           | Inr (api_token, cfg) \<Rightarrow> load_keys_loop kt vars (AList.update api_token cfg api_keys)))"

definition load_api_key_from_env :: "key_text \<Rightarrow> (string \<times> string) list \<Rightarrow> env_api_key_error + api_registry" where
  "load_api_key_from_env kt vars =
     (case load_keys_loop kt vars [] of
        Inl e \<Rightarrow> Inl e
      | Inr api_keys \<Rightarrow> if api_keys = [] then Inl ApiKeyUnavailable else Inr api_keys)"


section \<open>Generation\<close>

text \<open>
  One variable per account: the account's name and, where the entry has it, its address; the texts of the two
  fresh identifiers are the account's client id and the source of its token.
\<close>

record fresh_ids =
  fi_client_id :: string
  fi_token :: string

definition account_num :: "string \<Rightarrow> u64" where
  "account_num name =
     (case strip_prefix ''account'' name of
        None \<Rightarrow> 0
      | Some s \<Rightarrow> (case parse_u64 s of Inl _ \<Rightarrow> 0 | Inr n \<Rightarrow> n))"

definition generated_token :: "fresh_ids \<Rightarrow> string" where
  "generated_token ids = ''lobby_live_'' @ take 9 (fi_token ids)"

definition generated_var :: "string \<times> string \<Rightarrow> fresh_ids \<Rightarrow> string \<times> string" where
  "generated_var account ids =
     (''LOBBY_API_KEY_'' @ show_nat (unat (account_num (fst account))),
      generated_token ids @ '':'' @ fi_client_id ids @ '':'' @ snd account)"

fun generate_vars :: "(nat \<Rightarrow> fresh_ids) \<Rightarrow> nat \<Rightarrow> (string \<times> string option) list \<Rightarrow> string + (string \<times> string) list" where
  "generate_vars ids i [] = Inr []"
| "generate_vars ids i ((name, addr) # accounts) =
     (case addr of
        None \<Rightarrow> Inl ''missing 'address' field in account entry''
      | Some a \<Rightarrow> map_sum id (\<lambda>vars. generated_var (name, a) (ids i) # vars) (generate_vars ids (Suc i) accounts))"

definition env_line :: "string \<times> string \<Rightarrow> string" where
  "env_line v = ''export '' @ fst v @ ''=\"'' @ snd v @ ''\"''"

definition generate_api_keys :: "(nat \<Rightarrow> fresh_ids) \<Rightarrow> (string \<times> string option) list \<Rightarrow> string + string list" where
  "generate_api_keys ids accounts = map_sum id (map env_line) (generate_vars ids 0 accounts)"

text \<open>
  The binary around it: \<^verbatim>\<open>test_keys.json\<close> is read and parsed, and the lines are appended to \<^verbatim>\<open>.env\<close> after an empty
  line. The reader's result, the JSON crate and the errors of the file system are arguments; a failing write leaves
  some prefix of the output behind.
\<close>

definition newline :: char where
  "newline = CHR 0x0A"

definition read_accounts ::
  "string + string \<Rightarrow> (string \<Rightarrow> string + (string \<times> string option) list option) \<Rightarrow> string + (string \<times> string option) list" where
  "read_accounts content from_str =
     (case content of
        Inl e \<Rightarrow> Inl e
      | Inr text \<Rightarrow>
          (case from_str text of
             Inl e \<Rightarrow> Inl e
           | Inr None \<Rightarrow> Inl ''test_keys.json must contain a top-level JSON object''
           | Inr (Some accounts) \<Rightarrow> Inr accounts))"

definition env_output :: "string list \<Rightarrow> string" where
  "env_output env_lines = newline # concat (map (\<lambda>line. line @ [newline]) env_lines)"

definition generate_main ::
  "string + string \<Rightarrow> (string \<Rightarrow> string + (string \<times> string option) list option) \<Rightarrow> (nat \<Rightarrow> fresh_ids) \<Rightarrow>
   string option \<Rightarrow> (nat \<times> string) option \<Rightarrow> string option \<Rightarrow> (string + unit) \<times> string option" where
  "generate_main content from_str ids open_error write_error file =
     (case read_accounts content from_str of
        Inl e \<Rightarrow> (Inl e, file)
      | Inr accounts \<Rightarrow>
          (case generate_api_keys ids accounts of
             Inl e \<Rightarrow> (Inl e, file)
           | Inr env_lines \<Rightarrow>
               (case open_error of
                  Some e \<Rightarrow> (Inl e, file)
                | None \<Rightarrow>
                    (let existing = (case file of None \<Rightarrow> [] | Some c \<Rightarrow> c) in
                     case write_error of
                       None \<Rightarrow> (Inr (), Some (existing @ env_output env_lines))
                     | Some (k, e) \<Rightarrow> (Inl e, Some (existing @ take k (env_output env_lines)))))))"

text \<open>The file is only appended to, on every path, and a run without error appends every line.\<close>

lemma generate_main_appends:
  "snd (generate_main content from_str ids open_error write_error (Some c)) = Some c \<or>
   (\<exists>more. snd (generate_main content from_str ids open_error write_error (Some c)) = Some (c @ more))"
  by (auto simp: generate_main_def Let_def split: sum.splits option.splits)

lemma generate_main_done:
  "fst (generate_main content from_str ids open_error write_error file) = Inr () \<longleftrightarrow>
     (\<exists>accounts env_lines. read_accounts content from_str = Inr accounts \<and> generate_api_keys ids accounts = Inr env_lines \<and>
        open_error = None \<and> write_error = None \<and>
        snd (generate_main content from_str ids open_error write_error file) =
          Some ((case file of None \<Rightarrow> [] | Some c \<Rightarrow> c) @ env_output env_lines))"
  by (auto simp: generate_main_def Let_def split: sum.splits option.splits)


section \<open>What is loaded\<close>

lemma load_keys_loop_append:
  "load_keys_loop kt (vars @ vars') reg =
     (case load_keys_loop kt vars reg of Inl e \<Rightarrow> Inl e | Inr reg' \<Rightarrow> load_keys_loop kt vars' reg')"
  by (induction kt vars reg rule: load_keys_loop.induct) (auto split: option.splits sum.splits)

text \<open>The entries of the environment that are keys, in order.\<close>

definition api_key_vars :: "(string \<times> string) list \<Rightarrow> (string \<times> string) list" where
  "api_key_vars vars = filter (\<lambda>v. starts_with ''LOBBY_API_KEY_'' (fst v)) vars"

lemma load_keys_loop_filter: "load_keys_loop kt (api_key_vars vars) reg = load_keys_loop kt vars reg"
  by (induction kt vars reg rule: load_keys_loop.induct)
    (auto simp: api_key_vars_def starts_with_def split: option.splits sum.splits)

lemma load_keys_loop_map:
  "load_keys_loop kt vars reg = Inr reg' \<Longrightarrow> list_all (\<lambda>v. starts_with ''LOBBY_API_KEY_'' (fst v)) vars \<Longrightarrow>
   list_all (\<lambda>v. \<exists>x. parse_api_key kt (fst v) (snd v) = Inr x) vars \<and>
   map_of reg' = map_of reg ++ map_of (rev (map (\<lambda>v. projr (parse_api_key kt (fst v) (snd v))) vars))"
proof (induction kt vars reg rule: load_keys_loop.induct)
  case (1 kt reg)
  then show ?case by simp
next
  case (2 kt key val vars reg)
  then obtain suffix where pre: "strip_prefix ''LOBBY_API_KEY_'' key = Some suffix" by (auto simp: starts_with_def)
  with 2 obtain t cfg where p: "parse_api_key kt key val = Inr (t, cfg)" by (auto split: sum.splits)
  from 2(2) [OF pre p refl] 2(3,4) pre p show ?case
    by (simp add: update_conv' fun_eq_iff map_add_def split: option.splits)
qed


lemma load_api_key_map:
  assumes "load_api_key_from_env kt vars = Inr reg"
  shows "map_of reg = map_of (rev (map (\<lambda>v. projr (parse_api_key kt (fst v) (snd v))) (api_key_vars vars)))"
    "v \<in> set (api_key_vars vars) \<Longrightarrow> \<exists>x. parse_api_key kt (fst v) (snd v) = Inr x"
proof -
  have run: "load_keys_loop kt (api_key_vars vars) [] = Inr reg"
    using assms by (auto simp: load_api_key_from_env_def load_keys_loop_filter split: sum.splits if_splits)
  have pre: "list_all (\<lambda>v. starts_with ''LOBBY_API_KEY_'' (fst v)) (api_key_vars vars)"
    by (simp add: list_all_iff api_key_vars_def)
  show "map_of reg = map_of (rev (map (\<lambda>v. projr (parse_api_key kt (fst v) (snd v))) (api_key_vars vars)))"
    "v \<in> set (api_key_vars vars) \<Longrightarrow> \<exists>x. parse_api_key kt (fst v) (snd v) = Inr x"
    using load_keys_loop_map [OF run pre] by (simp_all add: list_all_iff)
qed

text \<open>A generated value is read back, when the identifiers print without a colon and parse back.\<close>

definition key_text_ok :: "key_text \<Rightarrow> fresh_ids \<Rightarrow> string \<Rightarrow> client_config \<Rightarrow> bool" where
  "key_text_ok kt ids addr cfg \<longleftrightarrow>
     CHR '':'' \<notin> set (fi_token ids) \<union> set (fi_client_id ids) \<union> set addr \<and>
     uuid_parse_str kt (fi_client_id ids) = Some (client_id cfg) \<and> address_from_str kt addr = Some (from_address cfg)"

lemma split_generated:
  assumes "key_text_ok kt ids addr cfg"
  shows "split_on CHR '':'' (snd (generated_var (name, addr) ids)) = [generated_token ids, fi_client_id ids, addr]"
proof -
  have "CHR '':'' \<notin> set (generated_token ids)"
    using assms by (auto simp: key_text_ok_def generated_token_def dest: in_set_takeD)
  then show ?thesis
    using assms by (simp add: generated_var_def key_text_ok_def split_on_append_sep split_on_no_sep)
qed

lemma parse_generated:
  "key_text_ok kt ids addr cfg \<Longrightarrow>
     parse_api_key kt key (snd (generated_var (name, addr) ids)) = Inr (generated_token ids, cfg)"
  by (simp add: parse_api_key_def split_generated) (simp add: key_text_ok_def)

lemma generate_vars_length:
  "generate_vars ids i accounts = Inr vars \<Longrightarrow> length vars = length accounts"
  by (induction ids i accounts arbitrary: vars rule: generate_vars.induct)
    (auto split: option.splits simp: map_sum_def split: sum.splits)

lemma generate_vars_nth:
  "generate_vars ids i accounts = Inr vars \<Longrightarrow> k < length accounts \<Longrightarrow>
     vars ! k = generated_var (fst (accounts ! k), the (snd (accounts ! k))) (ids (i + k))"
proof (induction ids i accounts arbitrary: vars k rule: generate_vars.induct)
  case (1 ids i)
  then show ?case by simp
next
  case (2 ids i name addr accounts)
  then obtain a vars' where a: "addr = Some a" "generate_vars ids (Suc i) accounts = Inr vars'"
    "vars = generated_var (name, a) (ids i) # vars'"
    by (auto split: option.splits sum.splits simp: map_sum_def)
  with 2 show ?case by (cases k) auto
qed

lemma load_keys_loop_succeeds:
  "list_all (\<lambda>v. \<exists>x. parse_api_key kt (fst v) (snd v) = Inr x) vars \<Longrightarrow> \<exists>reg'. load_keys_loop kt vars reg = Inr reg'"
  by (induction kt vars reg rule: load_keys_loop.induct) (auto split: option.splits)

lemma map_of_unique:
  "(t, c) \<in> set xs \<Longrightarrow> (\<And>c'. (t, c') \<in> set xs \<Longrightarrow> c' = c) \<Longrightarrow> map_of xs t = Some c"
  by (metis map_of_SomeD weak_map_of_SomeI)

text \<open>An environment whose key variables all parse loads, and gives each token the configuration the variables agree on.\<close>

lemma load_succeeds:
  assumes "\<And>v. v \<in> set (api_key_vars vars) \<Longrightarrow> \<exists>x. parse_api_key kt (fst v) (snd v) = Inr x" "api_key_vars vars \<noteq> []"
  obtains reg where "load_api_key_from_env kt vars = Inr reg"
proof -
  obtain reg where reg: "load_keys_loop kt (api_key_vars vars) [] = Inr reg"
    using load_keys_loop_succeeds [of kt "api_key_vars vars" "[]"] assms(1) by (auto simp: list_all_iff)
  have pre: "list_all (\<lambda>v. starts_with ''LOBBY_API_KEY_'' (fst v)) (api_key_vars vars)"
    by (simp add: list_all_iff api_key_vars_def)
  have "map_of reg \<noteq> Map.empty"
    using load_keys_loop_map [OF reg pre] assms(2) by (cases "api_key_vars vars" rule: rev_cases) auto
  then have "reg \<noteq> []" by auto
  with reg that show ?thesis by (simp add: load_api_key_from_env_def load_keys_loop_filter)
qed

lemma load_lookup:
  assumes "load_api_key_from_env kt vars = Inr reg" "v \<in> set (api_key_vars vars)"
    and "parse_api_key kt (fst v) (snd v) = Inr (token, cfg)"
    and "\<And>u cfg'. u \<in> set (api_key_vars vars) \<Longrightarrow> parse_api_key kt (fst u) (snd u) = Inr (token, cfg') \<Longrightarrow> cfg' = cfg"
  shows "map_of reg token = Some cfg"
proof -
  have "map_of (rev (map (\<lambda>v. projr (parse_api_key kt (fst v) (snd v))) (api_key_vars vars))) token = Some cfg"
  proof (rule map_of_unique)
    show "(token, cfg) \<in> set (rev (map (\<lambda>v. projr (parse_api_key kt (fst v) (snd v))) (api_key_vars vars)))"
      using assms(2,3) by force
    fix cfg' assume "(token, cfg') \<in> set (rev (map (\<lambda>v. projr (parse_api_key kt (fst v) (snd v))) (api_key_vars vars)))"
    then obtain u where u: "u \<in> set (api_key_vars vars)" "projr (parse_api_key kt (fst u) (snd u)) = (token, cfg')" by auto
    with load_api_key_map(2) [OF assms(1) u(1)] have "parse_api_key kt (fst u) (snd u) = Inr (token, cfg')" by auto
    then show "cfg' = cfg" by (rule assms(4) [OF u(1)])
  qed
  then show ?thesis by (simp only: load_api_key_map(1) [OF assms(1)])
qed

end
