(* ===== verification/Server.thy ===== *)
theory Server
  imports Api_Keys Cortex
begin

text \<open>
  The HTTP server: authentication, \<^verbatim>\<open>lobby/src/server/auth.rs\<close>, the two handlers with the responses of their
  errors, \<^verbatim>\<open>lobby/src/server/handler.rs\<close>, the application state, \<^verbatim>\<open>lobby/src/server/mod.rs\<close>, and the routes of
  \<^verbatim>\<open>lobby/src/main.rs\<close>. A request is what the router of axum makes of it: the matched route with the extracted
  body or path, or the status of a rejected extraction, and the authorization header when it is readable
  text. The JSON values of request ids have some type \<open>'v\<close>. A panic of a handler ends the request.
\<close>

section \<open>Requests and responses\<close>

record 'v json_rpc_request =
  jr_jsonrpc :: string
  jr_method :: string
  jr_params :: "eip1193_params list"
  jr_id :: 'v

datatype 'v http_route =
    Route_Submit "nat + 'v json_rpc_request"
  | Route_Status string
  | Route_Unknown

record 'v http_request =
  rq_authorization :: "string option"
  rq_route :: "'v http_route"

datatype 'v http_response =
    Resp_Accepted execution_id string 'v
  | Resp_Status string pipeline_status
  | Resp_Error nat int string "(string \<times> string) option"
  | Resp_Text nat string
  | Resp_Rejected nat

fun http_status :: "'v http_response \<Rightarrow> nat" where
  "http_status (Resp_Accepted e st i) = 200"
| "http_status (Resp_Status raw_id st) = 200"
| "http_status (Resp_Error st code msg data) = st"
| "http_status (Resp_Text st msg) = st"
| "http_status (Resp_Rejected st) = st"


section \<open>Authentication\<close>

datatype auth_error = MissingAuthHeader | InvalidAuthFormat | Auth_InvalidApiKey

definition auth_middleware :: "api_registry \<Rightarrow> string option \<Rightarrow> auth_error + client_config" where
  "auth_middleware api_registry header =
     (case header of
        None \<Rightarrow> Inl MissingAuthHeader
      | Some auth_header \<Rightarrow>
          (case strip_prefix ''Bearer '' auth_header of
             None \<Rightarrow> Inl InvalidAuthFormat
           | Some payload \<Rightarrow>
               (let api_key_elements = split_on CHR '':'' payload in
                if length api_key_elements \<noteq> 3 then Inl InvalidAuthFormat
                else (case map_of api_registry (api_key_elements ! 0) of
                        None \<Rightarrow> Inl Auth_InvalidApiKey
                      | Some cfg \<Rightarrow> Inr cfg))))"

fun auth_into_response :: "auth_error \<Rightarrow> 'v http_response" where
  "auth_into_response Auth_InvalidApiKey = Resp_Text 401 ''unauthorized client api-key''"
| "auth_into_response InvalidAuthFormat = Resp_Text 401
     ''invalid authorization format (expected 'Bearer lobby_live_<random_string>:<api_token>:<from_address>')''"
| "auth_into_response MissingAuthHeader = Resp_Text 401 ''missing autherization header''"


section \<open>Handlers\<close>

datatype handler_error =
    InvalidJsonRpcVersion
  | UnsupportedMethod string
  | CorruptedParams
  | NormalizationFailed normalization_error
  | Handler_FromAddressMismatch address address
  | Handler_CortexError cortex_error
  | IdParsingError string
  | RecordNotFound string

record 'n app_state =
  api_registry :: api_registry
  cortex_services :: "'n services"
  cortex_handler :: "'n cortex"
  app_text_crates :: text_crates
  app_crate_text :: crate_text
  app_uuid_parse :: "string \<Rightarrow> uuid option"
  app_debug_address :: "address \<Rightarrow> string"

text \<open>The fresh identifier of \<open>Uuid::new_v4\<close> is an argument.\<close>

definition submit_transaction ::
  "'n app_state \<Rightarrow> execution_id \<Rightarrow> client_config \<Rightarrow> 'v json_rpc_request \<Rightarrow> 'n system \<Rightarrow>
   (handler_error + 'v http_response) run \<times> 'n system" where
  "submit_transaction app fresh cfg request sys =
     (if jr_method request \<noteq> ''eth_sendRawTransaction'' then (Done (Inl (UnsupportedMethod (jr_method request))), sys)
      else case jr_params request of
          [] \<Rightarrow> (Done (Inl CorruptedParams), sys)
        | params # _ \<Rightarrow>
            (case normalize_eip1193_transaction (app_text_crates app) params of
               Panic m \<Rightarrow> (Panic m, sys)
             | Done (Inl e) \<Rightarrow> (Done (Inl (NormalizationFailed e)), sys)
             | Done (Inr (txn, sender)) \<Rightarrow>
                 (if sender \<noteq> from_address cfg
                  then (Done (Inl (Handler_FromAddressMismatch (from_address cfg) sender)), sys)
                  else case submit (cortex_services app) (cortex_handler app) fresh txn cfg sys of
                      (Inl e, sys') \<Rightarrow> (Done (Inl (Handler_CortexError e)), sys')
                    | (Inr _, sys') \<Rightarrow> (Done (Inr (Resp_Accepted fresh ''accepted'' (jr_id request))), sys'))))"

definition get_transaction_status :: "(string \<Rightarrow> uuid option) \<Rightarrow> string \<Rightarrow> registry \<Rightarrow> handler_error + 'v http_response" where
  "get_transaction_status uuid_parse raw_id registry =
     (case uuid_parse raw_id of
        None \<Rightarrow> Inl (IdParsingError raw_id)
      | Some e \<Rightarrow>
          (case registry_get e registry of
             Some status \<Rightarrow> Inr (Resp_Status raw_id status)
           | None \<Rightarrow> Inl (RecordNotFound raw_id)))"

fun show_normalization_error :: "normalization_error \<Rightarrow> string" where
  "show_normalization_error (InvalidField f) = ''Invalid field: '' @ f"

fun handler_into_response :: "crate_text \<Rightarrow> (address \<Rightarrow> string) \<Rightarrow> handler_error \<Rightarrow> 'v http_response" where
  "handler_into_response ct dbg InvalidJsonRpcVersion = Resp_Error 400 (-32600) ''Invalid JSON-RPC version (must be 2.0)'' None"
| "handler_into_response ct dbg (UnsupportedMethod m) = Resp_Error 400 (-32601) (''Unsupported method: '' @ m) None"
| "handler_into_response ct dbg CorruptedParams = Resp_Error 400 (-32602) ''Missing transaction parameters'' None"
| "handler_into_response ct dbg (NormalizationFailed e) =
     Resp_Error 400 (-32602) (''Invalid params: '' @ show_normalization_error e) None"
| "handler_into_response ct dbg (Handler_FromAddressMismatch expected actual) =
     Resp_Error 403 (-32000) ''From address does not match authenticated account'' (Some (dbg expected, dbg actual))"
| "handler_into_response ct dbg (Handler_CortexError e) =
     (case e of
        Cortex_RelayHost err \<Rightarrow>
          Resp_Error 400 (-32602) (''Transaction validation failed: '' @ show_relay_host_error ct err) None
      | _ \<Rightarrow> Resp_Error 500 (-32603) ''Internal pipeline error'' None)"
| "handler_into_response ct dbg (IdParsingError raw_id) = Resp_Error 400 (-32602) (raw_id @ '' is not a valid UUID'') None"
| "handler_into_response ct dbg (RecordNotFound raw_id) =
     Resp_Error 404 (-32001) (''no pipeline record found for the give execution id: '' @ raw_id) None"

definition respond :: "'n app_state \<Rightarrow> handler_error + 'v http_response \<Rightarrow> 'v http_response" where
  "respond app r = (case r of Inl e \<Rightarrow> handler_into_response (app_crate_text app) (app_debug_address app) e | Inr resp \<Rightarrow> resp)"

text \<open>The router: the authentication layer is around every route, the unknown ones included.\<close>

definition serve :: "'n app_state \<Rightarrow> execution_id \<Rightarrow> 'v http_request \<Rightarrow> 'n system \<Rightarrow> 'v http_response run \<times> 'n system" where
  "serve app fresh req sys =
     (case auth_middleware (api_registry app) (rq_authorization req) of
        Inl e \<Rightarrow> (Done (auth_into_response e), sys)
      | Inr cfg \<Rightarrow>
          (case rq_route req of
             Route_Submit (Inl rejection) \<Rightarrow> (Done (Resp_Rejected rejection), sys)
           | Route_Submit (Inr request) \<Rightarrow>
               (case submit_transaction app fresh cfg request sys of
                  (Panic m, sys') \<Rightarrow> (Panic m, sys')
                | (Done r, sys') \<Rightarrow> (Done (respond app r), sys'))
           | Route_Status raw_id \<Rightarrow>
               (Done (respond app (get_transaction_status (app_uuid_parse app) raw_id (sys_registry sys))), sys)
           | Route_Unknown \<Rightarrow> (Done (Resp_Rejected 404), sys)))"


section \<open>What a request does\<close>

lemma auth_401: "http_status (auth_into_response e) = 401"
  by (cases e) simp_all

lemma handler_status: "http_status (handler_into_response ct dbg e) \<in> {400, 403, 404, 500}"
  by (cases e) (auto split: cortex_error.splits)

lemma submit_cases:
  "submit sv cx e txn cc sys = (Inl err, sys') \<Longrightarrow> sys' = sys \<and> sys_permits sys = 0"
  "submit sv cx e txn cc sys = (Inr x, sys') \<Longrightarrow> 0 < sys_permits sys"
  by (auto simp: submit_def Let_def split: if_splits)

text \<open>An accepted submission: the client, the transaction it signed in for, and the step of the orchestrator.\<close>

definition accepted :: "'n app_state \<Rightarrow> execution_id \<Rightarrow> 'v http_request \<Rightarrow> 'n system \<Rightarrow> 'v http_response \<Rightarrow> 'n system \<Rightarrow> bool" where
  "accepted app fresh req sys resp sys' \<longleftrightarrow>
     (\<exists>cfg request params rest txn.
        auth_middleware (api_registry app) (rq_authorization req) = Inr cfg \<and>
        rq_route req = Route_Submit (Inr request) \<and> jr_method request = ''eth_sendRawTransaction'' \<and>
        jr_params request = params # rest \<and>
        normalize_eip1193_transaction (app_text_crates app) params = Done (Inr (txn, from_address cfg)) \<and>
        submit (cortex_services app) (cortex_handler app) fresh txn cfg sys = (Inr (), sys') \<and>
        resp = Resp_Accepted fresh ''accepted'' (jr_id request))"

lemma serve_cases:
  assumes "serve app fresh req sys = (Done resp, sys')"
  shows "accepted app fresh req sys resp sys' \<or> sys' = sys \<and> (\<forall>e st i. resp \<noteq> Resp_Accepted e st i)"
proof (cases "auth_middleware (api_registry app) (rq_authorization req)")
  case (Inl e)
  then show ?thesis using assms by (cases e) (auto simp: serve_def)
next
  case (Inr cfg)
  show ?thesis
  proof (cases "rq_route req")
    case (Route_Submit body)
    show ?thesis
    proof (cases body)
      case (Inl r)
      then show ?thesis using assms Inr Route_Submit by (auto simp: serve_def)
    next
      case body: (Inr request)
      have refused: "\<forall>e st i. respond app (Inl h) \<noteq> Resp_Accepted e st i" for h
        by (cases h) (auto simp: respond_def split: cortex_error.splits)
      show ?thesis
        using assms Inr Route_Submit body refused
        by (auto simp: serve_def submit_transaction_def accepted_def respond_def dest: submit_cases
            split: if_splits list.splits run.splits sum.splits prod.splits)
          (auto split: cortex_error.splits)
    qed
  next
    case (Route_Status raw_id)
    then show ?thesis
      using assms Inr by (auto simp: serve_def respond_def get_transaction_status_def split: option.splits)
  next
    case Route_Unknown
    then show ?thesis using assms Inr by (auto simp: serve_def)
  qed
qed

lemma serve_panic: "serve app fresh req sys = (Panic m, sys') \<Longrightarrow> sys' = sys"
  by (auto simp: serve_def submit_transaction_def split: if_splits list.splits run.splits sum.splits prod.splits http_route.splits)


section \<open>The service behind the server\<close>

text \<open>
  The running service when executions come only over HTTP: it boots, requests arrive with any header, route and
  body, tasks run, the sweeper ticks and time passes. The argument \<open>T\<close> names the type of the JSON ids.
\<close>

inductive http_reachable ::
  "('n \<Rightarrow> 'n \<Rightarrow> bool) \<Rightarrow> 'n app_state \<Rightarrow> hasher \<Rightarrow> cortex_config \<Rightarrow> 'n system \<Rightarrow> 'v itself \<Rightarrow> 'n system \<Rightarrow> bool"
  for drift app hash_of config sys0 T where
  http_boot: "spawn_cortex (cortex_services app) config (Inr (sys_registry sys0)) =
      Done (cortex_handler app, sys_permits sys0, sys_registry sys0) \<Longrightarrow>
    sys_tasks sys0 = [] \<Longrightarrow> http_reachable drift app hash_of config sys0 T sys0"
| http_request: "http_reachable drift app hash_of config sys0 T sys \<Longrightarrow>
    http_reachable drift app hash_of config sys0 T (snd (serve app fresh (req :: 'v http_request) sys))"
| http_task: "http_reachable drift app hash_of config sys0 T sys \<Longrightarrow> i < length (sys_tasks sys) \<Longrightarrow>
    http_reachable drift app hash_of config sys0 T
      (snd (finish_task (cortex_host (cortex_services app) hash_of (app_crate_text app)) i sys))"
| http_sweep: "http_reachable drift app hash_of config sys0 T sys \<Longrightarrow>
    http_reachable drift app hash_of config sys0 T
      (sys\<lparr>sys_world := (snd (sweep_once (fst (sys_world sys))), snd (sys_world sys))\<rparr>)"
| http_pause: "http_reachable drift app hash_of config sys0 T sys \<Longrightarrow> drift (snd (sys_world sys)) n \<Longrightarrow>
    http_reachable drift app hash_of config sys0 T (sys\<lparr>sys_world := (elapse k evs (fst (sys_world sys)), n)\<rparr>)"

definition owned_task :: "'n app_state \<Rightarrow> 'n world pipeline_context \<Rightarrow> bool" where
  "owned_task app ctx \<longleftrightarrow>
     (\<exists>token params. map_of (api_registry app) token = Some (ctx_client_config ctx) \<and>
        normalize_eip1193_transaction (app_text_crates app) params =
          Done (Inr (ctx_txn ctx, from_address (ctx_client_config ctx))))"

lemma auth_registered:
  "auth_middleware reg header = Inr cfg \<Longrightarrow> \<exists>token. map_of reg token = Some cfg"
  by (auto simp: auth_middleware_def Let_def split: option.splits if_splits)

lemma submit_adds_task:
  assumes "submit sv cx e txn cc sys = (Inr (), sys')"
  shows "\<exists>ctx. sys_tasks sys' = sys_tasks sys @ [ctx] \<and> ctx_client_config ctx = cc \<and> ctx_txn ctx = txn \<and> ctx_execution_id ctx = e"
  using assms by (auto simp: submit_def Let_def split: if_splits)

lemma serve_steps:
  "snd (serve app fresh req sys) = sys \<or>
   (\<exists>txn cfg ctx. snd (serve app fresh req sys) = snd (submit (cortex_services app) (cortex_handler app) fresh txn cfg sys) \<and>
      sys_tasks (snd (serve app fresh req sys)) = sys_tasks sys @ [ctx] \<and> owned_task app ctx)"
proof -
  obtain r sys' where run: "serve app fresh req sys = (r, sys')" by fastforce
  show ?thesis
  proof (cases r)
    case (Panic m)
    then show ?thesis using run serve_panic by fastforce
  next
    case (Done resp)
    then have "accepted app fresh req sys resp sys' \<or> sys' = sys" using serve_cases run by blast
    then show ?thesis
    proof
      assume "accepted app fresh req sys resp sys'"
      then obtain cfg params txn where
        "auth_middleware (api_registry app) (rq_authorization req) = Inr cfg"
        "normalize_eip1193_transaction (app_text_crates app) params = Done (Inr (txn, from_address cfg))"
        and sub: "submit (cortex_services app) (cortex_handler app) fresh txn cfg sys = (Inr (), sys')"
        by (auto simp: accepted_def)
      with submit_adds_task [OF sub] auth_registered show ?thesis
        unfolding run owned_task_def by (metis snd_conv)
    qed (simp add: run)
  qed
qed

lemma serve_refines:
  assumes "http_reachable drift app hash_of config sys0 T sys"
  shows "cortex_reachable drift (cortex_services app) hash_of (app_crate_text app) config (cortex_handler app) sys0 sys \<and>
     (\<forall>ctx \<in> set (sys_tasks sys). owned_task app ctx)"
  using assms
proof (induction rule: http_reachable.induct)
  case http_boot
  then show ?case by (simp add: cortex_reachable.boot)
next
  case (http_request sys fresh req)
  then show ?case using serve_steps [of app fresh req sys] cortex_reachable.submission
    by (metis Un_iff insertE list.set(1,2) set_append singletonD)
next
  case (http_task sys i)
  then have "set (sys_tasks (snd (finish_task (cortex_host (cortex_services app) hash_of (app_crate_text app)) i sys))) \<subseteq> set (sys_tasks sys)"
    by (auto simp: finish_task_def split: prod.splits dest: in_set_takeD in_set_dropD)
  with http_task show ?case by (auto intro: cortex_reachable.task)
next
  case (http_sweep sys)
  then show ?case by (simp add: cortex_reachable.sweep)
next
  case (http_pause sys n k evs)
  then show ?case by (simp add: cortex_reachable.pause)
qed

text \<open>
  C21. Whatever requests arrive, the server only performs steps of the orchestrator, so everything proved of the
  running service holds of it; and every pipeline in flight was submitted with a registered token and
  carries that client's configuration and a transaction normalised from a request whose sender is that
  client's address.
\<close>
theorem http_refines_cortex:
  assumes "http_reachable drift app hash_of config sys0 T sys"
  shows "cortex_reachable drift (cortex_services app) hash_of (app_crate_text app) config (cortex_handler app) sys0 sys \<and>
     (\<forall>ctx \<in> set (sys_tasks sys). owned_task app ctx)"
  using assms by (rule serve_refines)


section \<open>Keys and statuses\<close>

lemma auth_generated:
  assumes "key_text_ok kt ids addr cfg" "map_of reg (generated_token ids) = Some cfg"
  shows "auth_middleware reg (Some (''Bearer '' @ snd (generated_var (name, addr) ids))) = Inr cfg"
  unfolding auth_middleware_def option.case strip_prefix_append
  using split_generated [OF assms(1), of name] assms(2) by simp

text \<open>
  C26. A generated key opens the server: when the environment holds the variables generated for the accounts, the
  registry loads, and a request that presents the value generated for an account is authenticated as that
  account's client, with that account's address.
\<close>
theorem generated_key_authenticates:
  assumes "generate_vars ids 0 accounts = Inr vars" "accounts \<noteq> []" "set (api_key_vars env) = set vars"
    and "\<And>k. k < length accounts \<Longrightarrow> key_text_ok kt (ids k) (the (snd (accounts ! k))) (cfg k)"
    and "\<And>j k. j < length accounts \<Longrightarrow> k < length accounts \<Longrightarrow> generated_token (ids j) = generated_token (ids k) \<Longrightarrow> j = k"
  shows "\<exists>reg. load_api_key_from_env kt env = Inr reg \<and>
    (\<forall>k < length accounts. auth_middleware reg (Some (''Bearer '' @ snd (vars ! k))) = Inr (cfg k))"
proof -
  have len: "length vars = length accounts" using generate_vars_length [OF assms(1)] .
  have var: "vars ! k = generated_var (fst (accounts ! k), the (snd (accounts ! k))) (ids k)" if "k < length accounts" for k
    using generate_vars_nth [OF assms(1) that] by simp
  have parse: "parse_api_key kt (fst (vars ! k)) (snd (vars ! k)) = Inr (generated_token (ids k), cfg k)"
    if "k < length accounts" for k
    using parse_generated [OF assms(4) [OF that]] by (simp add: var [OF that])
  have mem: "v \<in> set (api_key_vars env) \<longleftrightarrow> (\<exists>k < length accounts. v = vars ! k)" for v
    unfolding assms(3) by (auto simp: in_set_conv_nth len)
  obtain reg where reg: "load_api_key_from_env kt env = Inr reg"
    using load_succeeds [of env kt] parse mem assms(2,3) len by (metis length_0_conv set_empty)
  have "map_of reg (generated_token (ids k)) = Some (cfg k)" if k: "k < length accounts" for k
    using load_lookup [OF reg _ parse [OF k]] mem k parse assms(5) by (metis Inr_inject prod.inject)
  then have "auth_middleware reg (Some (''Bearer '' @ snd (vars ! k))) = Inr (cfg k)" if "k < length accounts" for k
    using that auth_generated [OF assms(4) [OF that]] by (simp add: var)
  with reg show ?thesis by blast
qed

text \<open>An accepted execution is visible at once under its status route.\<close>

lemma accepted_visible:
  assumes "accepted app fresh req sys resp sys'" "auth_middleware (api_registry app) (rq_authorization req') = Inr cfg"
    and "rq_route req' = Route_Status raw_id" "app_uuid_parse app raw_id = Some fresh"
  shows "serve app fresh' req' sys' = (Done (Resp_Status raw_id PermitAquired), sys')"
proof -
  obtain txn cfg' where "submit (cortex_services app) (cortex_handler app) fresh txn cfg' sys = (Inr (), sys')"
    using assms(1) by (auto simp: accepted_def)
  then have "registry_get fresh (sys_registry sys') = Some PermitAquired"
    by (auto simp: submit_def Let_def split: if_splits)
  with assms show ?thesis by (simp add: serve_def get_transaction_status_def respond_def)
qed


section \<open>Witnesses\<close>

definition sample_app :: "nat app_state" where
  "sample_app =
     \<lparr>api_registry = [(''lobby_live_abc'', \<lparr>client_id = 1, from_address = 7\<rparr>)], cortex_services = sample_services,
      cortex_handler = sample_cortex, app_text_crates = sample_text, app_crate_text = host_text sample_host,
      app_uuid_parse = (\<lambda>s. if s = ''5'' then Some 5 else None), app_debug_address = (\<lambda>a. ''0x'')\<rparr>"

definition sample_request :: "nat http_request" where
  "sample_request =
     \<lparr>rq_authorization = Some ''Bearer lobby_live_abc:x:y'',
      rq_route = Route_Submit (Inr \<lparr>jr_jsonrpc = ''2.0'', jr_method = ''eth_sendRawTransaction'', jr_params = [sample_params], jr_id = 1\<rparr>)\<rparr>"

lemma sample_http_reachable:
  "http_reachable (\<lambda>_ _. True) sample_app (\<lambda>k. 3) sample_config sample_system (TYPE(nat)) (snd (serve sample_app 5 sample_request sample_system))"
  by (rule http_request, rule http_boot) (simp_all add: sample_app_def sample_boot, simp add: sample_system_def)

theorem http_refines_cortex_witness:
  "list_all (owned_task sample_app) (sys_tasks (snd (serve sample_app 5 sample_request sample_system)))"
  using http_refines_cortex [OF sample_http_reachable] by (simp add: list_all_iff)

definition sample_key_text :: key_text where
  "sample_key_text = \<lparr>uuid_parse_str = (\<lambda>s. if s = ''c0'' then Some 8 else None), address_from_str = (\<lambda>s. if s = ''0x07'' then Some 7 else None)\<rparr>"

definition sample_ids :: "nat \<Rightarrow> fresh_ids" where
  "sample_ids k = \<lparr>fi_client_id = ''c0'', fi_token = ''0123456789ab''\<rparr>"

lemma sample_account_num: "show_nat (unat (account_num ''account1'')) = ''1''"
proof -
  have "account_num ''account1'' = 1" by (simp add: account_num_def parse_u64_def dec_digit_def)
  moreover have "char_of (49 :: nat) = CHR ''1''" by code_simp
  ultimately show ?thesis by (simp add: show_nat.simps digit_char_def)
qed

theorem generated_key_authenticates_witness:
  "\<exists>reg. load_api_key_from_env sample_key_text [(''HOME'', ''/''), (''LOBBY_API_KEY_1'', ''lobby_live_012345678:c0:0x07'')] = Inr reg \<and>
     auth_middleware reg (Some (''Bearer lobby_live_012345678:c0:0x07'')) = Inr \<lparr>client_id = 8, from_address = 7\<rparr>"
proof -
  let ?vars = "[(''LOBBY_API_KEY_1'', ''lobby_live_012345678:c0:0x07'')]" and ?accounts = "[(''account1'', Some ''0x07'')]"
  have gen: "generate_vars sample_ids 0 ?accounts = Inr ?vars"
    using sample_account_num by (simp add: generated_var_def generated_token_def sample_ids_def)
  have set: "set (api_key_vars ((''HOME'', ''/'') # ?vars)) = set ?vars"
    by (simp add: api_key_vars_def starts_with_def)
  have ok: "key_text_ok sample_key_text (sample_ids k) (the (snd (?accounts ! k))) \<lparr>client_id = 8, from_address = 7\<rparr>"
    if "k < length ?accounts" for k
    using that by (simp add: key_text_ok_def sample_key_text_def sample_ids_def)
  show ?thesis
    using generated_key_authenticates [OF gen _ set ok] by simp
qed

end
