(* ===== verification/Delivery.thy ===== *)
theory Delivery
  imports Cortex Nonce_Safety
begin

text \<open>
  The service end to end, on the good path: from a store that has not seen an execution, with actors that answer and a
  chain that accepts and mines the transaction before the validator gives up, a submission ends
  confirmed and every table tells the same story.
\<close>

section \<open>What the good path needs\<close>

definition unseen :: "execution_id \<Rightarrow> db \<Rightarrow> bool" where
  "unseen e d \<longleftrightarrow>
     e \<notin> n_execution_id ` set (nonce_assignments d) \<and> e \<notin> s_execution_id ` set (sign_requests d) \<and>
     e \<notin> b_execution_id ` set (broadcast_requests d) \<and> e \<notin> v_execution_id ` set (validation_requests d) \<and>
     e \<notin> i_execution_id ` set (transaction_intents d)"

text \<open>Fewer rows than a \<open>BIGINT\<close> can count.\<close>

definition roomy :: "db \<Rightarrow> bool" where
  "roomy d \<longleftrightarrow> int (length (nonce_assignments d)) < i64_max \<and> int (length (sign_requests d)) < i64_max \<and>
     int (length (broadcast_requests d)) < i64_max"

text \<open>
  The chain mines \<open>h\<close> in time: within \<open>j\<close> polls, the first of them \<open>spent\<close> microseconds after the start, a receipt
  of status one with the required confirmations is answered, and no call fails before that.
\<close>

fun mined_within ::
  "nat \<Rightarrow> 'n rpc_port \<Rightarrow> validator_config \<Rightarrow> chain_id \<Rightarrow> nat \<Rightarrow> tx_hash \<Rightarrow> nat \<Rightarrow> 'n \<Rightarrow> bool" where
  "mined_within 0 rp cfg c sticky h spent n = False"
| "mined_within (Suc j) rp cfg c sticky h spent n \<longleftrightarrow>
     spent \<le> validator_timeout cfg \<and>
     (case rpc_get_transaction_receipt rp c sticky h receipt_timeout n of
        (Inr (Some receipt), k, n1) \<Rightarrow>
          rcpt_status receipt \<and>
          (case rpc_get_block_number rp c sticky receipt_timeout n1 of
             (Inr current, k2, n2) \<Rightarrow>
               required_confirmations cfg
                 \<le> u64_saturating_sub current (case rcpt_block_number receipt of None \<Rightarrow> 0 | Some b \<Rightarrow> b) \<or>
               mined_within j rp cfg c sticky h (spent + k + k2 + poll_interval cfg) n2
           | _ \<Rightarrow> False)
      | (Inr None, k, n1) \<Rightarrow> mined_within j rp cfg c sticky h (spent + k + poll_interval cfg) n1
      | _ \<Rightarrow> False)"

text \<open>What the tables say of a delivered execution.\<close>

definition delivered ::
  "execution_id \<Rightarrow> int \<Rightarrow> client_config \<Rightarrow> int \<Rightarrow> signed_transaction \<Rightarrow> tx_hash \<Rightarrow> db \<Rightarrow> bool" where
  "delivered e ci cc n stx h d \<longleftrightarrow>
     list_ex (\<lambda>r. i_execution_id r = e \<and> i_client_id r = client_id cc) (transaction_intents d) \<and>
     list_ex (\<lambda>r. n_execution_id r = e \<and> n_slot r = (ci, from_address cc, n) \<and> n_state r = N_Finalized) (nonce_assignments d) \<and>
     list_ex (\<lambda>r. s_execution_id r = e \<and> s_state r = S_Signed \<and> s_signed_tx r = Some (rlp stx)) (sign_requests d) \<and>
     list_ex (\<lambda>r. b_execution_id r = e \<and> b_state r = B_Submitted \<and> b_tx_hash r = Some h) (broadcast_requests d) \<and>
     list_ex (\<lambda>r. v_execution_id r = e \<and> v_state r = V_Included \<and> v_tx_hash r = h) (validation_requests d)"


section \<open>The validator on the good path\<close>

lemma elapse_quiet: "quiet d \<Longrightarrow> quiet (elapse k [] d)" "elapse a [] (elapse b [] d) = elapse (a + b) [] d"
  by (simp_all add: quiet_def elapse_def)

lemma latest_row_alone:
  assumes "e \<notin> eid ` set rows" "eid r = e" "sel r"
  shows "latest_row eid rvn sel e (rows @ [r]) = Some r"
proof -
  have "filter (\<lambda>x. eid x = e \<and> sel x) rows = []" using assms(1) by (auto simp: filter_empty_conv)
  then show ?thesis using assms(2,3) by (simp add: latest_row_def)
qed

lemma next_revision_unseen: "e \<notin> eid ` set rows \<Longrightarrow> next_revision eid rvn e rows = 1"
proof -
  assume "e \<notin> eid ` set rows"
  then have "filter (\<lambda>x. eid x = e) rows = []" by (auto simp: filter_empty_conv)
  then show ?thesis by (simp add: next_revision_def)
qed

lemma update_row_alone:
  assumes "e \<notin> eid ` set rows" "eid r = e"
  shows "update_row eid rvn (e, rvn r) f (rows @ [r]) = rows @ [f r]"
proof -
  have "(eid x, rvn x) \<noteq> (e, rvn r)" if "x \<in> set rows" for x using assms(1) that by auto
  then show ?thesis using assms(2) by (auto simp: update_row_def intro!: map_idI)
qed

lemma validation_opens:
  assumes "validator_inv d" "quiet d" "e \<notin> v_execution_id ` set (validation_requests d)"
    and "u256_to_i64 (chain_u256 c) = Some ci"
  shows "record_validation_request c e h d =
    (Inr (), d\<lparr>validation_requests := validation_requests d @ [new_validation_row (db_clock d) e ci h 1]\<rparr>)"
proof -
  have rev: "next_revision v_execution_id v_revision e (validation_requests d) = 1"
    using assms(3) by (rule next_revision_unseen)
  have "lease_insert ''validation_requests_pkey'' ''idx_validation_no_concurrent'' v_execution_id v_revision v_updated_at
      v_settled v_pending v_pending int4_ok (db_clock d) e (new_validation_row (db_clock d) e ci h) (validation_requests d) =
      Inr (Some 1, validation_requests d @ [new_validation_row (db_clock d) e ci h 1])"
    using vl.insert_fresh [of "db_clock d" "validation_requests d" e "new_validation_row (db_clock d) e ci h" int4_ok] assms(1,3)
    by (auto simp: validator_inv_def rev int4_ok_def)
  then show ?thesis
    using assms(2,4) by (simp add: record_validation_request_def engine_simps validation_insert_stmt_def)
qed

lemma validation_closes:
  assumes "quiet d" "validation_requests d = rows @ [row]" "e \<notin> v_execution_id ` set rows" "v_execution_id row = e" "v_pending row"
  shows "record_outcome e (Included b k) d =
    (Inr (), d\<lparr>validation_requests := rows @ [set_validation_state (db_clock d, V_Included) row]\<rparr>)"
  using assms latest_row_alone [OF assms(3,4), of v_pending v_revision] update_row_alone [OF assms(3,4), of v_revision]
  by (simp add: record_outcome_def engine_simps validation_update_stmt_def outcome_state_def)

lemmas poll_defs = validate_poll_def andThen_def instant_now_def attempt_def rpc_call_def map_error_def sleep_def ret_def
  on_db_def elapse_quiet(2)

lemma mined_loop:
  assumes "quiet d0" "validation_requests d0 = rows @ [row]" "e \<notin> v_execution_id ` set rows" "v_execution_id row = e" "v_pending row"
  shows "mined_within j rp cfg c sticky h spent n \<Longrightarrow>
    \<exists>b k m n'. validate_loop j rp cfg c e h sticky (db_clock d0) (elapse spent [] d0, n) =
      Some (Inr (Included b k), ((elapse m [] d0)\<lparr>validation_requests :=
        rows @ [set_validation_state (db_clock d0 + int m, V_Included) row]\<rparr>, n'))"
proof (induction j arbitrary: spent n)
  case 0
  then show ?case by simp
next
  case (Suc j)
  have closes: "record_outcome e (Included b k) (elapse m [] d0) = (Inr (), (elapse m [] d0)\<lparr>validation_requests :=
      rows @ [set_validation_state (db_clock d0 + int m, V_Included) row]\<rparr>)" for b k m
    using validation_closes [OF elapse_quiet(1) [OF assms(1)] _ assms(3-5)] assms(2) by simp
  have start: "\<not> db_clock (elapse spent [] d0) - db_clock d0 > int (validator_timeout cfg)"
    using Suc.prems by simp
  obtain r k n1 where receipt: "rpc_get_transaction_receipt rp c sticky h receipt_timeout n = (r, k, n1)"
    by (cases "rpc_get_transaction_receipt rp c sticky h receipt_timeout n")
  obtain g k2 n2 where block: "rpc_get_block_number rp c sticky receipt_timeout n1 = (g, k2, n2)"
    by (cases "rpc_get_block_number rp c sticky receipt_timeout n1")
  consider (wait) "r = Inr None" "mined_within j rp cfg c sticky h (spent + k + poll_interval cfg) n1"
    | (shallow) rc current where "r = Inr (Some rc)" "rcpt_status rc" "g = Inr current"
        "mined_within j rp cfg c sticky h (spent + k + k2 + poll_interval cfg) n2"
        "\<not> required_confirmations cfg \<le> u64_saturating_sub current (case rcpt_block_number rc of None \<Rightarrow> 0 | Some b \<Rightarrow> b)"
    | (deep) rc current where "r = Inr (Some rc)" "rcpt_status rc" "g = Inr current"
        "required_confirmations cfg \<le> u64_saturating_sub current (case rcpt_block_number rc of None \<Rightarrow> 0 | Some b \<Rightarrow> b)"
    using Suc.prems receipt block by (cases r; cases g) (force split: option.splits)+
  then show ?case
  proof cases
    case wait
    have "validate_poll rp cfg c e h sticky (db_clock d0) (elapse spent [] d0, n) =
        (Inr None, (elapse (spent + k + poll_interval cfg) [] d0, n1))"
      using start receipt wait(1) by (simp add: poll_defs add_ac)
    with Suc.IH [OF wait(2)] show ?thesis by simp
  next
    case shallow
    have "validate_poll rp cfg c e h sticky (db_clock d0) (elapse spent [] d0, n) =
        (Inr None, (elapse (spent + k + k2 + poll_interval cfg) [] d0, n2))"
      using start receipt block shallow(1-3,5) by (simp add: poll_defs add_ac)
    with Suc.IH [OF shallow(4)] show ?thesis by simp
  next
    case deep
    then show ?thesis
      using start receipt block closes [of _ _ "k2 + (k + spent)"] by (simp add: poll_defs Let_def) (rule exI [of _ "k2 + (k + spent)"], simp)
  qed
qed

lemma validation_delivers:
  assumes "validator_inv d" "quiet d" "e \<notin> v_execution_id ` set (validation_requests d)" "u256_to_i64 (chain_u256 c) = Some ci"
    and "0 < poll_interval cfg" "mined_within j rp cfg c sticky h 0 n"
  shows "\<exists>b k m n'. handle_validation_prog rp cfg c e h sticky (d, n) =
    (Inr (Included b k), ((elapse m [] d)\<lparr>validation_requests := validation_requests d @
       [set_validation_state (db_clock d + int m, V_Included) (new_validation_row (db_clock d) e ci h 1)]\<rparr>, n'))"
proof -
  let ?row = "new_validation_row (db_clock d) e ci h 1"
  let ?d0 = "d\<lparr>validation_requests := validation_requests d @ [?row]\<rparr>"
  have "quiet ?d0" using assms(2) by (simp add: quiet_def)
  then obtain b k m n' where loop: "validate_loop j rp cfg c e h sticky (db_clock ?d0) (?d0, n) =
      Some (Inr (Included b k), ((elapse m [] ?d0)\<lparr>validation_requests :=
        validation_requests d @ [set_validation_state (db_clock ?d0 + int m, V_Included) ?row]\<rparr>, n'))"
    using mined_loop [of ?d0 "validation_requests d" ?row e j rp cfg c sticky h 0 n] assms(3,6) by (auto simp: elapse_none)
  have "check_cached_result e d = (Inr None, d)"
    using assms(2,3) by (auto simp: check_cached_result_def engine_simps latest_validation_stmt_def split: option.splits dest: latest_row_Some(1,2))
  with loop validation_opens [OF assms(1-4)]
  have "handle_validation j rp cfg c e h sticky (d, n) = Some (Inr (Included b k), ((elapse m [] d)\<lparr>validation_requests :=
        validation_requests d @ [set_validation_state (db_clock d + int m, V_Included) ?row]\<rparr>, n'))" (is "_ = Some ?r")
    by (simp add: handle_validation_def on_db_def elapse_def)
  from handle_validation_more_fuel [OF this, of "loop_bound cfg"]
  have "handle_validation (loop_bound cfg + j) rp cfg c e h sticky (d, n) = Some ?r" by (simp add: add.commute)
  moreover obtain r where r: "handle_validation (loop_bound cfg) rp cfg c e h sticky (d, n) = Some r"
    using handle_validation_returns [OF assms(5) order_refl] by blast
  ultimately show ?thesis
    using handle_validation_more_fuel [OF r, of j] by (auto simp: handle_validation_prog_def)
qed


section \<open>The nonce on the good path\<close>

lemma consume_lowest_ids: "n_execution_id ` set (consume_lowest c a now rows) = n_execution_id ` set rows"
proof -
  have "map n_execution_id (consume_lowest c a now rows) = map n_execution_id rows"
    by (simp add: consume_lowest_def update_nonce_state_def update_row_def set_nonce_state_def o_def split: option.splits)
  then show ?thesis by (metis set_map)
qed

text \<open>The resolution of a reservation that is the execution's only row.\<close>

lemma finalise_alone:
  assumes "nonce_inv d" "quiet d" "nonce_assignments d = rows @ [reserved_row t e v ci a n]" "e \<notin> n_execution_id ` set rows"
  shows "handle_resolve e N_Finalized d = (Inr (), d\<lparr>nonce_assignments :=
    rows @ [set_nonce_state (db_clock d, N_Finalized) (reserved_row t e v ci a n)]\<rparr>)"
proof -
  let ?row = "reserved_row t e v ci a n"
  have row: "n_execution_id ?row = e" "n_state ?row = N_Reserved" "n_key ?row = (e, n_revision ?row)"
    by (simp_all add: reserved_row_def n_key_def)
  note found = latest_row_alone [where sel = "\<lambda>r. n_state r = N_Reserved" and rvn = n_revision, OF assms(4) row(1,2)]
  note upd = update_row_alone [where rvn = n_revision and f = "set_nonce_state (db_clock d, N_Finalized)", OF assms(4) row(1)]
  show ?thesis
    using assms(2,3) found upd row(3)
    by (simp add: handle_resolve_def engine_simps resolve_stmt_unlocked [OF assms(1)] update_nonce_state_def)
qed



section \<open>The stages on the good path\<close>

lemma wp_retried_success:
  "max_attempts cfg \<noteq> - 1 \<Longrightarrow> m (fst w) = (Inr v, s1) \<Longrightarrow> Q (Inr v) (s1, snd w) \<Longrightarrow>
   wp (retried host cfg (map_error f m)) Q E w"
  using retried_success [of cfg m "fst w" v s1 host f "snd w"] by (simp add: wp_def)

text \<open>A booted orchestrator whose actors all answer, and a store that is ready for the execution.\<close>

definition serving :: "'n services \<Rightarrow> cortex_config \<Rightarrow> bool" where
  "serving sv config \<longleftrightarrow> (\<forall>i. sv_link sv i = LinkUp) \<and> max_attempts (cc_retry config) \<noteq> - 1 \<and>
     (\<exists>loaded x. spawn_cortex sv config loaded = Done x)"

lemma serving_context:
  assumes "serving sv config"
  shows "context_ok (cortex_context sv config e txn cc)" "sv_link sv i = LinkUp"
    "max_attempts (ctx_retry_config (cortex_context sv config e txn cc)) \<noteq> - 1"
proof -
  obtain loaded cx permits r where "spawn_cortex sv config loaded = Done (cx, permits, r)" "max_attempts (cc_retry config) \<noteq> - 1"
    using assms by (auto simp: serving_def)
  then show ok: "context_ok (cortex_context sv config e txn cc)" by (rule booted_context_ok)
  show "sv_link sv i = LinkUp" using assms by (simp add: serving_def)
  show "max_attempts (ctx_retry_config (cortex_context sv config e txn cc)) \<noteq> - 1" by (rule context_okD(1) [OF ok])
qed

lemma context_simps [simp]:
  "ctx_execution_id (cortex_context sv config e txn cc) = e" "ctx_client_config (cortex_context sv config e txn cc) = cc"
  "ctx_txn (cortex_context sv config e txn cc) = txn" "ctx_acquire_endpoint (cortex_context sv config e txn cc) = acquire_endpoint sv"
  "host_text (cortex_host sv hash_of ct) = ct"
  by (simp_all add: cortex_context_def cortex_host_def)

lemma served_calls:
  assumes "serving sv config" "ctx = cortex_context sv config e0 txn0 cc0"
  shows "rh \<in> set (shards (relayhost_pool ctx)) \<Longrightarrow> register_transaction rh e txn cc = on_db (handle_submit_transaction e txn cc)"
    "nh \<in> set (shards (nonce_pool ctx)) \<Longrightarrow> nm_reserve nh c a e = on_db (handle_reserve c a e)"
    "nh \<in> set (shards (nonce_pool ctx)) \<Longrightarrow> nm_resolve nh e st = on_db (handle_resolve e st)"
    "sh \<in> set (shards (sign_pool ctx)) \<Longrightarrow> sn_sign sh c a e txn = on_db (handle_sign (run_value (sv_custody sv)) (sv_signing sv) a c e txn)"
    "bh \<in> set (shards (broadcast_pool ctx)) \<Longrightarrow> br_broadcast bh c a e stx sticky = handle_broadcast (sv_port sv) c a e stx sticky"
    "vh \<in> set (shards (validator_pool ctx)) \<Longrightarrow>
       vd_validate vh c e h sticky = handle_validation_prog (sv_port sv) default_validator_config c e h sticky"
  using serving_context(2) [OF assms(1)] unfolding assms(2)
  by (auto simp: cortex_context_def relay_impl_def nonce_impl_def sign_impl_def broadcast_impl_def validator_impl_def
      RelayHostHandle_register_transaction_def NonceHandle_reserve_def NonceHandle_resolve_def SignHandle_sign_def
      BroadcastHandle_broadcast_def ValidatorHandle_validate_def on_db_def fun_eq_iff)

text \<open>Each stage ends in exactly one state; none returns early.\<close>

lemma keeps_after: "keeps P m \<Longrightarrow> m s = (x, s') \<Longrightarrow> P s \<Longrightarrow> P s'"
  by (metis keepsD snd_conv)

lemma relay_delivers:
  assumes "serving sv config" "ctx = cortex_context sv config e txn cc" "store_inv ns bs xs d" "quiet d"
    and "e \<notin> i_execution_id ` set (transaction_intents d)" "transaction_lint txn = Inr ()"
    and d1: "d1 = d\<lparr>transaction_intents := transaction_intents d @
        [intent_row_of (db_clock d) e (uint (chain_u256 (chain_id txn))) txn cc]\<rparr>"
    and Q: "store_inv ns bs xs d1 \<Longrightarrow> Q () ((d1, n), registry_set e Accepted r)"
  shows "wp (relay_stage host ctx) Q E ((d, n), r)"
proof -
  have "relay_inv d" using assms(3) by (simp add: store_inv_def relay_from_def)
  then have call: "handle_submit_transaction e txn cc d = (Inr (), d1)"
    using assms(5,6) by (auto simp: submit_outcome [OF _ assms(4)] d1)
  from Q keeps_after [OF store_inv_relay call assms(3)] call serving_context [OF assms(1)] show ?thesis
    unfolding relay_stage_def Let_def wp_andThen assms(2)
    by (intro wp_route wp_retried_success) (auto simp: context_okD served_calls [OF assms(1) refl] on_db_def)
qed

lemma nonce_delivers:
  assumes "serving sv config" "ctx = cortex_context sv config e txn cc" "store_inv ns bs xs d" "quiet d"
    and "e \<notin> n_execution_id ` set (nonce_assignments d)" "u256_to_i64 (chain_u256 (chain_id txn)) = Some ci"
    and "m = next_nonce ci (from_address cc) (nonce_assignments d)" "m \<le> i64_max"
    and "m \<notin> active_nonces ci (from_address cc) (nonce_assignments d)" "int (length (nonce_assignments d)) < i64_max"
    and d1: "d1 = d\<lparr>nonce_assignments := consume_lowest ci (from_address cc) (db_clock d) (nonce_assignments d) @
          [reserved_row (db_clock d) e 1 ci (from_address cc) m]\<rparr>"
    and Q: "\<And>nh. nh \<in> set (shards (nonce_pool ctx)) \<Longrightarrow> store_inv ns bs xs d1 \<Longrightarrow>
      Q (nh, TxNonce (word_of_int m)) ((d1, n), registry_set e NonceReserved r)"
  shows "wp (nonce_stage host ctx) Q E ((d, n), r)"
proof -
  have "nonce_inv d" using assms(3) by (simp add: store_inv_def nonce_from_def)
  moreover have "\<not> nonce_lease (db_clock d) (minutes 2) e (nonce_assignments d)"
    using assms(5) by (auto simp: nonce_lease_def lease_blocks_iff)
  moreover have "nonce_revision e (nonce_assignments d) = 1"
    using next_revision_unseen [OF assms(5)] by (simp add: nonce_revision_def)
  ultimately have call: "handle_reserve (chain_id txn) (from_address cc) e d = (Inr (TxNonce (word_of_int m)), d1)"
    using handle_reserve_insert [OF _ assms(4,6)] assms(7-10) by (simp add: Let_def d1)
  from Q keeps_after [OF store_inv_nonce(1) call assms(3)] call serving_context [OF assms(1)] show ?thesis
    unfolding nonce_stage_def Let_def wp_andThen assms(2)
    by (intro wp_route wp_retried_success) (auto simp: context_okD served_calls [OF assms(1) refl] on_db_def)
qed

lemma sign_delivers:
  assumes "serving sv config" "ctx = cortex_context sv config e txn0 cc" "store_inv ns bs xs d" "quiet d"
    and "e \<notin> s_execution_id ` set (sign_requests d)" "u256_to_i64 (chain_u256 (chain_id txn0)) = Some ci"
    and "run_value (sv_custody sv) (from_address cc) = Inr key" "sv_signing sv txn key = Inr stx" "int (length (sign_requests d)) < i64_max"
    and d1: "d1 = d\<lparr>sign_requests := sign_requests d @ [(new_sign_row (db_clock d) e ci (from_address cc) 1)
          \<lparr>s_state := S_Signed, s_signed_tx := Some (rlp stx)\<rparr>]\<rparr>"
    and Q: "\<And>sh. sh \<in> set (shards (sign_pool ctx)) \<Longrightarrow> store_inv ns bs xs d1 \<Longrightarrow> Q (sh, stx) ((d1, n), registry_set e Signed r)"
  shows "wp (sign_stage host ctx nh txn) Q E ((d, n), r)"
proof -
  have inv: "sign_inv d" using assms(3) by (simp add: store_inv_def)
  have "\<not> sign_held (db_clock d) e (sign_requests d)" "\<not> sign_stuck e (sign_requests d)" "sign_revision e (sign_requests d) = 1"
    using assms(5) next_revision_unseen [OF assms(5)] by (auto simp: sign_held_def sign_stuck_def sign_revision_def)
  then have call: "handle_sign (run_value (sv_custody sv)) (sv_signing sv) (from_address cc) (chain_id txn0) e txn d = (Inr stx, d1)"
    using handle_sign_outcome [OF inv assms(4,9), of "run_value (sv_custody sv)" "from_address cc" key, OF assms(7,6)] assms(8)
    by (simp add: Let_def d1)
  from Q keeps_after [OF store_inv_sign(1) call assms(3)] call serving_context [OF assms(1)] show ?thesis
    unfolding sign_stage_def Let_def wp_andThen assms(2)
    by (intro wp_route wp_retried_success) (auto simp: context_okD served_calls [OF assms(1) refl] on_db_def)
qed

lemma endpoint_delivers:
  assumes "ctx = cortex_context sv config e txn cc" "store_inv ns bs xs d" "quiet d"
    and "sv_acquire sv (chain_id txn) endpoint_timeout n = (Inr (Some sticky), k, n1)"
    and Q: "store_inv ns bs xs (elapse k [] d) \<Longrightarrow> Q sticky ((elapse k [] d, n1), r)"
  shows "wp (endpoint_stage host ctx nh) Q E ((d, n), r)"
proof -
  have "store_inv ns bs xs (elapse k [] d)"
    using store_inv_time_stable assms(2) unfolding time_stable_def by blast
  from Q [OF this] assms(1,3,4) show ?thesis
    by (simp add: endpoint_stage_def acquire_endpoint_def quiet_def Let_def)
qed

lemma broadcast_delivers:
  assumes "serving sv config" "ctx = cortex_context sv config e txn0 cc" "store_inv ns bs xs d" "quiet d"
    and "e \<notin> b_execution_id ` set (broadcast_requests d)" "u256_to_i64 (chain_u256 (chain_id txn0)) = Some ci"
    and "int (length (broadcast_requests d)) < i64_max"
    and "rpc_send_raw_transaction (sv_port sv) (chain_id txn0) sticky (rlp stx) rpc_timeout n = (Inr h, k, n1)"
    and d1: "d1 = (elapse k [] d)\<lparr>broadcast_requests := broadcast_requests d @
        [apply_broadcast_change (SetSubmitted (db_clock d + int k) h) (new_broadcast_row (db_clock d) e ci (from_address cc) 1)]\<rparr>"
    and Q: "store_inv ns bs xs d1 \<Longrightarrow>
      Q h ((d1, n1), registry_set e (Broadcasted (hex_hash (host_text host) h) ''Waiting for validation on-chain'') r)"
  shows "wp (broadcast_stage host ctx nh sh sticky txn stx) Q E ((d, n), r)"
proof -
  have inv: "broadcast_inv d" using assms(3) by (simp add: store_inv_def broadcast_from_def)
  have free: "\<not> broadcast_held (db_clock d) e (broadcast_requests d)" "\<not> broadcast_stuck e (broadcast_requests d)"
    "broadcast_revision e (broadcast_requests d) = 1"
    using assms(5) next_revision_unseen [OF assms(5)] by (auto simp: broadcast_held_def broadcast_stuck_def broadcast_revision_def)
  then have call: "handle_broadcast (sv_port sv) (chain_id txn0) (from_address cc) e stx sticky (d, n) = (Inr \<lparr>txn_hash = h\<rparr>, (d1, n1))"
    using handle_broadcast_admitted [OF inv assms(4,7,6) free(1,2), of "sv_port sv" "from_address cc" stx sticky n] assms(8)
    by (simp add: Let_def d1)
  have keep: "store_inv ns bs xs d1"
    using keeps_after [OF store_inv_broadcast [of ns bs xs] call] assms(3) by simp
  have loop: "wp (broadcast_loop host ctx nh sh bh sticky False txn stx) Q' E ((d, n), r)"
    if "bh \<in> set (shards (broadcast_pool ctx))" "Q' \<lparr>txn_hash = h\<rparr> ((d1, n1), r)" for bh Q'
    unfolding broadcast_loop.simps [of host ctx nh sh bh sticky False txn stx] wp_andThen broadcast_attempt_def
    using serving_context(3) [OF assms(1)] that call served_calls(5) [OF assms(1,2)]
    by (intro wp_retried_success) (auto simp: assms(2))
  show ?thesis
    unfolding broadcast_stage_def Let_def wp_andThen
    using context_okD(5) [OF serving_context(1) [OF assms(1)]] Q [OF keep]
    by (intro wp_route loop) (auto simp: assms(2))
qed

lemma validator_delivers:
  assumes "serving sv config" "ctx = cortex_context sv config e txn cc" "store_inv ns bs xs d" "quiet d"
    and "e \<notin> v_execution_id ` set (validation_requests d)" "u256_to_i64 (chain_u256 (chain_id txn)) = Some ci"
    and "nonce_assignments d = rows @ [reserved_row t e v ci a m]" "e \<notin> n_execution_id ` set rows"
    and "mined_within j (sv_port sv) default_validator_config (chain_id txn) sticky h 0 n"
    and nh: "nh \<in> set (shards (nonce_pool ctx))"
    and Q: "\<And>k n'. Q () (((elapse k [] d)\<lparr>
        validation_requests := validation_requests d @
          [set_validation_state (db_clock d + int k, V_Included) (new_validation_row (db_clock d) e ci h 1)],
        nonce_assignments := rows @ [set_nonce_state (db_clock d + int k, N_Finalized) (reserved_row t e v ci a m)]\<rparr>, n'),
        registry_set e (ConfirmedOnChain (hex_hash (host_text host) h)) r)"
  shows "wp (validator_stage host ctx nh sticky h) Q E ((d, n), r)"
proof -
  have inv: "validator_inv d" using assms(3) by (simp add: store_inv_def)
  have poll: "0 < poll_interval default_validator_config" by (simp add: default_validator_config_def)
  obtain b k l n' where val: "handle_validation_prog (sv_port sv) default_validator_config (chain_id txn) e h sticky (d, n) =
      (Inr (Included b k), ((elapse l [] d)\<lparr>validation_requests := validation_requests d @
        [set_validation_state (db_clock d + int l, V_Included) (new_validation_row (db_clock d) e ci h 1)]\<rparr>, n'))"
    (is "_ = (_, (?d1, _))")
    using validation_delivers [OF inv assms(4-6) poll assms(9)] by blast
  have "nonce_inv ?d1"
    using keepsD [OF store_inv_validate [OF poll, of ns bs xs "sv_port sv" "chain_id txn" e h sticky], of "(d, n)"] assms(3) val
    by (simp add: store_inv_def nonce_from_def)
  moreover have "quiet ?d1" by (simp add: quiet_def elapse_def)
  ultimately have fin: "handle_resolve e N_Finalized ?d1 = (Inr (), ?d1\<lparr>nonce_assignments :=
      rows @ [set_nonce_state (db_clock d + int l, N_Finalized) (reserved_row t e v ci a m)]\<rparr>)"
    using finalise_alone [of ?d1 rows t e v ci a m] assms(7,8) by simp
  have settle: "wp (settle_validation host ctx nh h (Included b k)) Q E ((?d1, n'), r)"
    unfolding settle_validation_def Let_def finalise_nonce_def validator_outcome.case wp_andThen
    using serving_context(3) [OF assms(1)] served_calls(3) [OF assms(1,2) nh] fin Q [of l n']
    by (intro wp_retried_success) (auto simp: assms(2) on_db_def)
  show ?thesis
    unfolding validator_stage_def validate_routed_def Let_def wp_andThen
    using context_okD(6) [OF serving_context(1) [OF assms(1)]] served_calls(6) [OF assms(1,2)] val settle
    by (intro wp_route) (auto simp: assms(2))
qed


section \<open>The whole pipeline\<close>

text \<open>From a signed transaction on: endpoint, broadcast and validation.\<close>

lemma chain_delivers:
  assumes up: "serving sv config" and ctx: "ctx = cortex_context sv config e txn0 cc"
    and inv: "store_inv ns bs xs d" and q: "quiet d" and c: "u256_to_i64 (chain_u256 (chain_id txn0)) = Some ci"
    and new: "e \<notin> b_execution_id ` set (broadcast_requests d)" "e \<notin> v_execution_id ` set (validation_requests d)"
    and room: "int (length (broadcast_requests d)) < i64_max"
    and nonces: "nonce_assignments d = rows @ [reserved_row t e v ci a m]" "e \<notin> n_execution_id ` set rows"
    and acq: "sv_acquire sv (chain_id txn0) endpoint_timeout n = (Inr (Some sticky), k0, n1)"
    and send: "rpc_send_raw_transaction (sv_port sv) (chain_id txn0) sticky (rlp stx) rpc_timeout n1 = (Inr h, k1, n2)"
    and mined: "mined_within j (sv_port sv) default_validator_config (chain_id txn0) sticky h 0 n2"
    and nh: "nh \<in> set (shards (nonce_pool ctx))"
    and Q: "\<And>d' n' r'. transaction_intents d' = transaction_intents d \<Longrightarrow> sign_requests d' = sign_requests d \<Longrightarrow>
      list_ex (\<lambda>r. n_execution_id r = e \<and> n_slot r = (ci, a, m) \<and> n_state r = N_Finalized) (nonce_assignments d') \<Longrightarrow>
      list_ex (\<lambda>r. b_execution_id r = e \<and> b_state r = B_Submitted \<and> b_tx_hash r = Some h) (broadcast_requests d') \<Longrightarrow>
      list_ex (\<lambda>r. v_execution_id r = e \<and> v_state r = V_Included \<and> v_tx_hash r = h) (validation_requests d') \<Longrightarrow>
      Q () ((d', n'), registry_set e (ConfirmedOnChain (hex_hash (host_text host) h)) r')"
  shows "wp (andThen (endpoint_stage host ctx nh) (\<lambda>sticky_index.
    andThen (broadcast_stage host ctx nh sh sticky_index txn stx) (\<lambda>h. validator_stage host ctx nh sticky_index h))) Q E ((d, n), r)"
proof -
  let ?d4 = "elapse k0 [] d"
  let ?d5 = "(elapse k1 [] ?d4)\<lparr>broadcast_requests := broadcast_requests ?d4 @
    [apply_broadcast_change (SetSubmitted (db_clock ?d4 + int k1) h) (new_broadcast_row (db_clock ?d4) e ci (from_address cc) 1)]\<rparr>"
  have q': "quiet ?d4" "quiet ?d5" by (simp_all add: quiet_def elapse_def)
  have V: "wp (validator_stage host ctx nh sticky h) Q E ((?d5, n2), r5)" if "store_inv ns bs xs ?d5" for r5
  proof (rule validator_delivers [OF up ctx that q'(2) _ c _ nonces(2) mined nh])
    show "e \<notin> v_execution_id ` set (validation_requests ?d5)" "nonce_assignments ?d5 = rows @ [reserved_row t e v ci a m]"
      using new(2) nonces(1) by simp_all
  qed (rule Q, simp_all add: set_nonce_state_def reserved_row_def n_slot_def set_validation_state_def new_validation_row_def
      new_broadcast_row_def)
  have B: "wp (broadcast_stage host ctx nh sh sticky txn stx) (\<lambda>h'. wp (validator_stage host ctx nh sticky h') Q E) E ((?d4, n1), r4)"
    if "store_inv ns bs xs ?d4" for r4
    by (rule broadcast_delivers [OF up ctx that q'(1) _ c _ send refl]) (use new(1) room V in simp_all)
  show ?thesis
    unfolding wp_andThen by (rule endpoint_delivers [OF ctx inv q acq]) (rule B)
qed

lemma pipeline_delivers:
  assumes up: "serving sv config" and ctx: "ctx = cortex_context sv config e txn cc"
    and inv: "store_inv ns bs xs d" and q: "quiet d" and new: "unseen e d" and room: "roomy d"
    and lint: "transaction_lint txn = Inr ()" and ci: "ci = uint (chain_u256 (chain_id txn))"
    and m: "m = next_nonce ci (from_address cc) (nonce_assignments d)" "m \<le> i64_max"
      "m \<notin> active_nonces ci (from_address cc) (nonce_assignments d)"
    and key: "run_value (sv_custody sv) (from_address cc) = Inr key" "sv_signing sv (txn\<lparr>nonce := TxNonce (word_of_int m)\<rparr>) key = Inr stx"
    and net: "sv_acquire sv (chain_id txn) endpoint_timeout n = (Inr (Some sticky), k0, n1)"
      "rpc_send_raw_transaction (sv_port sv) (chain_id txn) sticky (rlp stx) rpc_timeout n1 = (Inr h, k1, n2)"
      "mined_within j (sv_port sv) default_validator_config (chain_id txn) sticky h 0 n2"
  shows "wp (pipeline_body (cortex_host sv hash_of ct) ctx)
    (\<lambda>_ w'. registry_get e (snd w') = Some (ConfirmedOnChain (hex_hash ct h)) \<and> delivered e ci cc m stx h (fst (fst w')))
    (\<lambda>_. False) ((d, n), r)" (is "wp _ ?Q ?F _")
proof -
  let ?a = "from_address cc" and ?h = "cortex_host sv hash_of ct" and ?txn = "txn\<lparr>nonce := TxNonce (word_of_int m)\<rparr>"
  have c: "u256_to_i64 (chain_u256 (chain_id txn)) = Some ci"
    using lint unfolding ci transaction_lint_Inr_iff by (auto simp: u256_to_i64_def i64_max_def)
  have tx: "ctx_txn ctx = txn" by (simp add: ctx)
  let ?d1 = "d\<lparr>transaction_intents := transaction_intents d @ [intent_row_of (db_clock d) e ci txn cc]\<rparr>"
  let ?rows = "consume_lowest ci ?a (db_clock ?d1) (nonce_assignments ?d1)"
  let ?d2 = "?d1\<lparr>nonce_assignments := ?rows @ [reserved_row (db_clock ?d1) e 1 ci ?a m]\<rparr>"
  let ?d3 = "?d2\<lparr>sign_requests := sign_requests ?d2 @ [(new_sign_row (db_clock ?d2) e ci ?a 1)\<lparr>s_state := S_Signed, s_signed_tx := Some (rlp stx)\<rparr>]\<rparr>"
  have q': "quiet ?d1" "quiet ?d2" "quiet ?d3" using q by (simp_all add: quiet_def)
  note fresh = new [unfolded unseen_def] and space = room [unfolded roomy_def]
  have S: "wp (sign_stage ?h ctx nh ?txn) (\<lambda>x. wp (case x of (sh, s) \<Rightarrow> andThen (endpoint_stage ?h ctx nh) (\<lambda>sticky_index.
      andThen (broadcast_stage ?h ctx nh sh sticky_index ?txn s) (\<lambda>h. validator_stage ?h ctx nh sticky_index h))) ?Q ?F) ?F ((?d2, n), r2)"
    if nh: "nh \<in> set (shards (nonce_pool ctx))" and inv2: "store_inv ns bs xs ?d2" for nh r2
  proof (rule sign_delivers [OF up ctx inv2 q'(2) _ c key _ refl], goal_cases)
    case (3 sh)
    show ?case
      unfolding prod.case
      by (rule chain_delivers [where rows = ?rows and t = "db_clock ?d1" and v = 1, OF up ctx 3(2) q'(3) c _ _ _ _ _ net nh])
        (use fresh space in \<open>simp_all add: consume_lowest_ids delivered_def intent_row_of_def new_sign_row_def\<close>)
  qed (use fresh space in simp_all)
  show ?thesis
    unfolding pipeline_body_def Let_def wp_andThen
  proof (rule relay_delivers [OF up ctx inv q _ lint, folded ci, OF _ refl], goal_cases)
    case 2
    show ?case
    proof (rule nonce_delivers [OF up ctx 2 q'(1) _ c _ m(2) _ _ refl], goal_cases)
      case (5 nh)
      then show ?case unfolding prod.case tx wp_andThen by (rule S)
    qed (use fresh space m in simp_all)
  qed (use fresh in simp)
qed


section \<open>Property\<close>

lemma submission_confirmed:
  assumes "spawn_cortex sv config loaded = Done (cx, permits, r0)" "\<And>i. sv_link sv i = LinkUp"
    and "max_attempts (cc_retry config) \<noteq> - 1" "0 < sys_permits sys" "sys_world sys = (d, n)"
    and "store_inv ns bs xs d" "quiet d" "unseen e d" "roomy d"
    and "transaction_lint txn = Inr ()" "ci = uint (chain_u256 (chain_id txn))"
    and "m = next_nonce ci (from_address cc) (nonce_assignments d)" "m \<le> i64_max"
    and "m \<notin> active_nonces ci (from_address cc) (nonce_assignments d)"
    and "run_value (sv_custody sv) (from_address cc) = Inr key" "sv_signing sv (txn\<lparr>nonce := TxNonce (word_of_int m)\<rparr>) key = Inr stx"
    and "sv_acquire sv (chain_id txn) endpoint_timeout n = (Inr (Some sticky), k0, n1)"
    and "rpc_send_raw_transaction (sv_port sv) (chain_id txn) sticky (rlp stx) rpc_timeout n1 = (Inr h, k1, n2)"
    and "mined_within j (sv_port sv) default_validator_config (chain_id txn) sticky h 0 n2"
  shows "\<exists>sys'. finish_task (cortex_host sv hash_of ct) (length (sys_tasks sys)) (snd (submit sv cx e txn cc sys)) = (Done (), sys') \<and>
    registry_get e (sys_registry sys') = Some (ConfirmedOnChain (hex_hash ct h)) \<and>
    delivered e ci cc m stx h (fst (sys_world sys')) \<and>
    sys_tasks sys' = sys_tasks sys \<and> sys_permits sys' = sys_permits sys"
proof -
  have "serving sv config" using assms(1-3) by (auto simp: serving_def)
  note body = pipeline_delivers [OF this refl assms(6-19), of hash_of ct "registry_set e PermitAquired (sys_registry sys)"]
  let ?ctx = "cortex_context sv config e txn cc"
  obtain w' where "pipeline_body (cortex_host sv hash_of ct) ?ctx ((d, n), registry_set e PermitAquired (sys_registry sys)) = (Inr (), w')"
    and w': "registry_get e (snd w') = Some (ConfirmedOnChain (hex_hash ct h))" "delivered e ci cc m stx h (fst (fst w'))"
    using body unfolding wp_def by (auto split: prod.splits sum.splits exit.splits)
  then have "run_pipeline (cortex_host sv hash_of ct) ?ctx ((d, n), registry_set e PermitAquired (sys_registry sys)) = (Done (), w')"
    by (simp add: run_pipeline_def)
  with w' assms(4,5) show ?thesis
    by (cases w') (simp add: submit_booted [OF assms(1)] finish_task_def)
qed

text \<open>
  C5. A transaction is delivered. When the actors answer, the store has not seen the execution and is not disturbed, the
  transaction passes the lint, its sender's next nonce is free and its key is held, the RPC layer gives an
  endpoint, the node there accepts the payload, and the receipt appears within the validator's five
  minutes, then a submission that finds a permit ends without a panic as \<open>ConfirmedOnChain\<close> with the node's
  hash. The intent is recorded for the client, the nonce is the sender's next one and finalized, the
  signature over the transaction with that nonce is the one stored and sent, the broadcast is submitted
  under the node's hash, the validation is included, and the permit is free again.
\<close>
theorem submission_delivers:
  assumes "spawn_cortex sv config loaded = Done (cx, permits, r0)" "\<And>i. sv_link sv i = LinkUp"
    and "max_attempts (cc_retry config) \<noteq> - 1" "0 < sys_permits sys" "sys_world sys = (d, n)"
    and "store_inv ns bs xs d" "quiet d" "unseen e d" "roomy d"
    and "transaction_lint txn = Inr ()" "ci = uint (chain_u256 (chain_id txn))"
    and "m = next_nonce ci (from_address cc) (nonce_assignments d)" "m \<le> i64_max"
    and "m \<notin> active_nonces ci (from_address cc) (nonce_assignments d)"
    and "run_value (sv_custody sv) (from_address cc) = Inr key" "sv_signing sv (txn\<lparr>nonce := TxNonce (word_of_int m)\<rparr>) key = Inr stx"
    and "sv_acquire sv (chain_id txn) endpoint_timeout n = (Inr (Some sticky), k0, n1)"
    and "rpc_send_raw_transaction (sv_port sv) (chain_id txn) sticky (rlp stx) rpc_timeout n1 = (Inr h, k1, n2)"
    and "mined_within j (sv_port sv) default_validator_config (chain_id txn) sticky h 0 n2"
  shows "\<exists>sys'. finish_task (cortex_host sv hash_of ct) (length (sys_tasks sys)) (snd (submit sv cx e txn cc sys)) = (Done (), sys') \<and>
    registry_get e (sys_registry sys') = Some (ConfirmedOnChain (hex_hash ct h)) \<and>
    delivered e ci cc m stx h (fst (sys_world sys')) \<and>
    sys_tasks sys' = sys_tasks sys \<and> sys_permits sys' = sys_permits sys"
  using assms by (rule submission_confirmed)


section \<open>Witness\<close>

lemma sample_side:
  "sv_link sample_services i = LinkUp" "max_attempts (cc_retry sample_config) \<noteq> - 1" "0 < sys_permits sample_system"
  "sys_world sample_system = (init_db, 0)" "unseen 5 init_db" "roomy init_db" "length (sys_tasks sample_system) = 0"
  by (simp_all add: sample_services_def sample_config_def RetryConfig_default_def sample_system_def unseen_def roomy_def
      i64_max_def init_db_def)

lemma sample_chain:
  "transaction_lint sample_tx = Inr ()" "1 = uint (chain_u256 (chain_id sample_tx))"
  by (simp_all add: transaction_lint_Inr_iff sample_tx_def)

lemma sample_nonce:
  "0 = next_nonce 1 a (nonce_assignments init_db)" "0 \<le> i64_max" "0 \<notin> active_nonces 1 a (nonce_assignments init_db)"
  by (simp_all add: init_db_def next_nonce_def active_nonces_def released_nonces_def released_rows_def i64_max_def)

lemma sample_net:
  "run_value (sv_custody sample_services) 7 = Inr (replicate 32 1)"
  "sv_signing sample_services t k = Inr \<lparr>rlp = [2, 192], with_nonce = nonce t\<rparr>"
  "sv_acquire sample_services c endpoint_timeout 0 = (Inr (Some 0), 1, 0)"
  "rpc_send_raw_transaction (sv_port sample_services) c 0 [2, 192] rpc_timeout 0 = (Inr 99, 5, 1)"
  "mined_within (Suc 0) (sv_port sample_services) default_validator_config c 0 99 0 1"
  by (simp_all add: sample_services_def sample_custody_def sample_signing_def mined_port_def silent_port_def
      default_validator_config_def)

theorem submission_delivers_witness:
  "\<exists>sys'. finish_task (cortex_host sample_services (\<lambda>k. 3) (host_text sample_host)) 0
      (snd (submit sample_services sample_cortex 5 sample_tx \<lparr>client_id = 1, from_address = 7\<rparr> sample_system)) = (Done (), sys') \<and>
    registry_get 5 (sys_registry sys') = Some (ConfirmedOnChain (hex_hash (host_text sample_host) 99)) \<and>
    list_ex (\<lambda>r. n_execution_id r = 5 \<and> n_slot r = (1, 7, 0) \<and> n_state r = N_Finalized) (nonce_assignments (fst (sys_world sys')))"
proof -
  have "run_value (sv_custody sample_services) (from_address \<lparr>client_id = 1, from_address = 7\<rparr>) = Inr (replicate 32 1)"
    using sample_net(1) by simp
  moreover have "sv_signing sample_services (sample_tx\<lparr>nonce := TxNonce (word_of_int 0)\<rparr>) (replicate 32 1) = Inr \<lparr>rlp = [2, 192], with_nonce = TxNonce 0\<rparr>"
    by (simp add: sample_net(2))
  moreover have "rpc_send_raw_transaction (sv_port sample_services) (chain_id sample_tx) 0 (rlp \<lparr>rlp = [2, 192], with_nonce = TxNonce 0\<rparr>) rpc_timeout 0 = (Inr 99, 5, 1)"
    by (simp add: sample_net(4))
  ultimately show ?thesis
    using submission_delivers [OF sample_boot sample_side(1-4) init_store_inv init_quiet sample_side(5,6) sample_chain sample_nonce
        _ _ sample_net(3) _ sample_net(5), of "\<lparr>client_id = 1, from_address = 7\<rparr>" "replicate 32 1" "\<lparr>rlp = [2, 192], with_nonce = TxNonce 0\<rparr>"]
    unfolding sample_side(7) delivered_def by fastforce
qed

end
