(* ===== verification/Telemetry.thy ===== *)
theory Telemetry
  imports Pipeline
begin

text \<open>
  The benchmark build of the pipeline: \<^verbatim>\<open>crate/cortex/src/telemetry\<close> and the statements of
  \<^verbatim>\<open>crate/cortex/src/pipeline.rs\<close> behind the feature \<open>benchmark-telemetry\<close>. Instants are nanoseconds of the
  clock of \<open>quanta\<close>; its \<open>duration_since\<close>, the JSON serialiser and the socket are parameters.
\<close>

section \<open>The registry of time stamps\<close>

datatype telemetry_stage = Stage_RelayHost | Stage_Nonce | Stage_Sign | Stage_Broadcast

type_synonym instant = nat

record pipeline_telemetry =
  tm_start :: "instant option"
  tm_relayhost :: "instant option"
  tm_nonce :: "instant option"
  tm_sign :: "instant option"
  tm_broadcast :: "instant option"

definition PipelineTelemetry_default :: pipeline_telemetry where
  "PipelineTelemetry_default =
     \<lparr>tm_start = None, tm_relayhost = None, tm_nonce = None, tm_sign = None, tm_broadcast = None\<rparr>"

text \<open>The context: the shared registry and the sender of an unbounded channel; a send to a dropped receiver is ignored.\<close>

record telemetry_context =
  tc_registry :: "execution_id \<Rightarrow> pipeline_telemetry option"
  tc_sent :: "execution_id list"
  tc_receiver_alive :: bool

definition TelemetryContext_new :: telemetry_context where
  "TelemetryContext_new = \<lparr>tc_registry = (\<lambda>_. None), tc_sent = [], tc_receiver_alive = True\<rparr>"

definition entry_or_default :: "execution_id \<Rightarrow> telemetry_context \<Rightarrow> pipeline_telemetry" where
  "entry_or_default e t = (case tc_registry t e of None \<Rightarrow> PipelineTelemetry_default | Some p \<Rightarrow> p)"

definition record_start :: "instant \<Rightarrow> execution_id \<Rightarrow> telemetry_context \<Rightarrow> telemetry_context" where
  "record_start now e t =
     t\<lparr>tc_registry := (tc_registry t)(e \<mapsto> (entry_or_default e t)\<lparr>tm_start := Some now\<rparr>)\<rparr>"

definition stamp :: "telemetry_stage \<Rightarrow> instant \<Rightarrow> pipeline_telemetry \<Rightarrow> pipeline_telemetry" where
  "stamp stg now p =
     (case stg of
        Stage_RelayHost \<Rightarrow> p\<lparr>tm_relayhost := Some now\<rparr>
      | Stage_Nonce \<Rightarrow> p\<lparr>tm_nonce := Some now\<rparr>
      | Stage_Sign \<Rightarrow> p\<lparr>tm_sign := Some now\<rparr>
      | Stage_Broadcast \<Rightarrow> p\<lparr>tm_broadcast := Some now\<rparr>)"

definition record_stage :: "instant \<Rightarrow> telemetry_stage \<Rightarrow> execution_id \<Rightarrow> telemetry_context \<Rightarrow> telemetry_context" where
  "record_stage now stg e t =
     t\<lparr>tc_registry := (tc_registry t)(e \<mapsto> stamp stg now (entry_or_default e t))\<rparr>"

definition telemetry_finalize :: "execution_id \<Rightarrow> telemetry_context \<Rightarrow> telemetry_context" where
  "telemetry_finalize e t = (if tc_receiver_alive t then t\<lparr>tc_sent := tc_sent t @ [e]\<rparr> else t)"


section \<open>The exporter\<close>

record latency_record =
  lr_execution_id :: execution_id
  relayhost_duration_us :: u64
  nonce_duration_us :: u64
  sign_duration_us :: u64
  broadcast_duration_us :: u64
  total_pipeline_us :: u64

text \<open>\<open>b.duration_since(a).as_micros() as u64\<close>, for a \<open>duration_since\<close> in nanoseconds.\<close>

definition get_duration_us :: "(instant \<Rightarrow> instant \<Rightarrow> nat) \<Rightarrow> instant option \<Rightarrow> instant option \<Rightarrow> u64" where
  "get_duration_us since stage_a stage_b =
     (case (stage_a, stage_b) of (Some a, Some b) \<Rightarrow> word_of_nat (since b a div 1000) | _ \<Rightarrow> 0)"

definition latency_record_of ::
  "(instant \<Rightarrow> instant \<Rightarrow> nat) \<Rightarrow> execution_id \<Rightarrow> pipeline_telemetry \<Rightarrow> latency_record" where
  "latency_record_of since e p =
     \<lparr>lr_execution_id = e,
      relayhost_duration_us = get_duration_us since (tm_start p) (tm_relayhost p),
      nonce_duration_us = get_duration_us since (tm_relayhost p) (tm_nonce p),
      sign_duration_us = get_duration_us since (tm_nonce p) (tm_sign p),
      broadcast_duration_us = get_duration_us since (tm_sign p) (tm_broadcast p),
      total_pipeline_us = get_duration_us since (tm_start p) (tm_broadcast p)\<rparr>"

text \<open>What the exporter needs of the outside: the serialiser and the sink of the socket.\<close>

record 'k export_sink =
  sink_json :: "latency_record \<Rightarrow> string option"
  sink_send :: "string \<Rightarrow> 'k \<Rightarrow> bool \<times> 'k"

text \<open>
  The loop over the events received until the channel closes. It stops at the first failed send; the events
  behind it are never received.
\<close>

fun export_loop ::
  "(instant \<Rightarrow> instant \<Rightarrow> nat) \<Rightarrow> 'k export_sink \<Rightarrow> execution_id list \<Rightarrow>
   (execution_id \<Rightarrow> pipeline_telemetry option) \<times> 'k \<Rightarrow> (execution_id \<Rightarrow> pipeline_telemetry option) \<times> 'k" where
  "export_loop since sink [] (reg, k) = (reg, k)"
| "export_loop since sink (e # es) (reg, k) =
     (case reg e of
        None \<Rightarrow> export_loop since sink es (reg, k)
      | Some p \<Rightarrow>
          (case sink_json sink (latency_record_of since e p) of
             None \<Rightarrow> export_loop since sink es (reg(e := None), k)
           | Some line \<Rightarrow>
               (case sink_send sink line k of
                  (True, k') \<Rightarrow> export_loop since sink es (reg(e := None), k')
                | (False, k') \<Rightarrow> (reg(e := None), k'))))"

definition run_telemetry_exporter ::
  "(instant \<Rightarrow> instant \<Rightarrow> nat) \<Rightarrow> string + (string + 'k export_sink) \<Rightarrow> execution_id list \<Rightarrow>
   (execution_id \<Rightarrow> pipeline_telemetry option) \<times> 'k \<Rightarrow> (execution_id \<Rightarrow> pipeline_telemetry option) \<times> 'k" where
  "run_telemetry_exporter since listener events st =
     (case listener of
        Inl bind_err \<Rightarrow> st
      | Inr (Inl accept_err) \<Rightarrow> st
      | Inr (Inr sink) \<Rightarrow> export_loop since sink events st)"


section \<open>The instrumented pipeline\<close>

text \<open>
  Tasks over the world, the registry and the telemetry context. \<open>silent\<close> runs a stage that does not touch
  the telemetry; \<open>observe\<close> changes the context with the current instant of the clock.
\<close>

type_synonym ('s, 'a) observed = "(('s \<times> registry) \<times> telemetry_context, exit, 'a) sprog"

definition silent :: "('s, 'a) task \<Rightarrow> ('s, 'a) observed" where
  "silent m w = (case m (fst w) of (r, w') \<Rightarrow> (r, (w', snd w)))"

definition observe ::
  "('s \<times> registry \<Rightarrow> instant) \<Rightarrow> (instant \<Rightarrow> telemetry_context \<Rightarrow> telemetry_context) \<Rightarrow> ('s, unit) observed" where
  "observe clock f w = (Inr (), (fst w, f (clock (fst w)) (snd w)))"

definition pipeline_body_benchmark ::
  "('s \<times> registry \<Rightarrow> instant) \<Rightarrow> 's host \<Rightarrow> 's pipeline_context \<Rightarrow> ('s, unit) observed" where
  "pipeline_body_benchmark clock host ctx =
     (let e = ctx_execution_id ctx in
      andThen (observe clock (\<lambda>now. record_start now e)) (\<lambda>_.
      andThen (silent (relay_stage host ctx)) (\<lambda>_.
      andThen (observe clock (\<lambda>now. record_stage now Stage_RelayHost e)) (\<lambda>_.
      andThen (silent (nonce_stage host ctx)) (\<lambda>(nh, n).
      andThen (observe clock (\<lambda>now. record_stage now Stage_Nonce e)) (\<lambda>_.
      let txn = (ctx_txn ctx)\<lparr>nonce := n\<rparr> in
      andThen (silent (sign_stage host ctx nh txn)) (\<lambda>(sh, s).
      andThen (observe clock (\<lambda>now. record_stage now Stage_Sign e)) (\<lambda>_.
      andThen (silent (endpoint_stage host ctx nh)) (\<lambda>sticky_index.
      andThen (silent (broadcast_stage host ctx nh sh sticky_index txn s)) (\<lambda>h.
      andThen (observe clock (\<lambda>now. record_stage now Stage_Broadcast e)) (\<lambda>_.
      andThen (observe clock (\<lambda>now. telemetry_finalize e)) (\<lambda>_.
        silent (validate_routed host ctx (ByExecutionId e) nh sticky_index h)))))))))))))"

definition run_pipeline_benchmark ::
  "('s \<times> registry \<Rightarrow> instant) \<Rightarrow> 's host \<Rightarrow> 's pipeline_context \<Rightarrow> ('s \<times> registry) \<times> telemetry_context \<Rightarrow>
   unit run \<times> ('s \<times> registry) \<times> telemetry_context" where
  "run_pipeline_benchmark clock host ctx w =
     (case pipeline_body_benchmark clock host ctx w of
        (Inl (Panicked m), w') \<Rightarrow> (Panic m, w')
      | (_, w') \<Rightarrow> (Done (), w'))"



section \<open>The telemetry does not disturb the pipeline\<close>

text \<open>\<open>m'\<close> does what \<open>m\<close> does to the world and the registry, whatever happens to the telemetry.\<close>

definition erases :: "('s, 'a) observed \<Rightarrow> ('s, 'a) task \<Rightarrow> bool" where
  "erases m' m \<longleftrightarrow> (\<forall>w t. \<exists>t'. m' (w, t) = (fst (m w), (snd (m w), t')))"

named_theorems erasures

lemma erases_silent [erasures]: "erases (silent m) m"
  by (simp add: erases_def silent_def case_prod_beta)

lemma erases_andThen [erasures]:
  assumes "erases m' m" "\<And>x. erases (k' x) (k x)"
  shows "erases (andThen m' k') (andThen m k)"
  unfolding erases_def
proof (intro allI)
  fix w t
  obtain r w1 where m: "m w = (r, w1)" by (cases "m w")
  with assms(1) obtain t1 where m': "m' (w, t) = (r, (w1, t1))" unfolding erases_def by (metis fst_conv snd_conv)
  show "\<exists>t'. andThen m' k' (w, t) = (fst (andThen m k w), (snd (andThen m k w), t'))"
  proof (cases r)
    case (Inl x)
    with m m' show ?thesis by (simp add: andThen_def)
  next
    case (Inr x)
    from assms(2) [of x] obtain t' where "k' x (w1, t1) = (fst (k x w1), (snd (k x w1), t'))" unfolding erases_def by blast
    with m m' Inr show ?thesis by (simp add: andThen_def)
  qed
qed

lemma erases_observe [erasures]: "erases k' k \<Longrightarrow> erases (andThen (observe clock f) (\<lambda>_. k')) k"
  by (simp add: erases_def andThen_def observe_def)

lemma erases_case_prod [erasures]: "(\<And>a b. erases (k' a b) (k a b)) \<Longrightarrow> erases (case x of (a, b) \<Rightarrow> k' a b) (case x of (a, b) \<Rightarrow> k a b)"
  by (cases x) simp

text \<open>
  The pipeline without telemetry, whose validator shard is found by a given key. The default build routes the
  validation by the chain, the benchmark build by the execution (\<^verbatim>\<open>pipeline.rs\<close>, lines 496 to 499); every other
  stage is the same.
\<close>

definition pipeline_body_routed :: "'s host \<Rightarrow> 's pipeline_context \<Rightarrow> routing_key \<Rightarrow> ('s, unit) task" where
  "pipeline_body_routed host ctx key =
     andThen (relay_stage host ctx) (\<lambda>_.
     andThen (nonce_stage host ctx) (\<lambda>(nh, n).
     let txn = (ctx_txn ctx)\<lparr>nonce := n\<rparr> in
     andThen (sign_stage host ctx nh txn) (\<lambda>(sh, s).
     andThen (endpoint_stage host ctx nh) (\<lambda>sticky_index.
     andThen (broadcast_stage host ctx nh sh sticky_index txn s) (\<lambda>h.
       validate_routed host ctx key nh sticky_index h)))))"

definition run_pipeline_routed ::
  "'s host \<Rightarrow> 's pipeline_context \<Rightarrow> routing_key \<Rightarrow> 's \<times> registry \<Rightarrow> unit run \<times> 's \<times> registry" where
  "run_pipeline_routed host ctx key w =
     (case pipeline_body_routed host ctx key w of
        (Inl (Panicked m), w') \<Rightarrow> (Panic m, w')
      | (_, w') \<Rightarrow> (Done (), w'))"

lemma run_pipeline_by_chain: "run_pipeline host ctx = run_pipeline_routed host ctx (ByChainId (chain_id (ctx_txn ctx)))"
  by (rule ext) (simp add: run_pipeline_def run_pipeline_routed_def pipeline_body_def pipeline_body_routed_def validator_stage_def)

lemma routed_alike:
  assumes "ShardPool_get (host_hasher host) (validator_pool ctx) key = ShardPool_get (host_hasher host) (validator_pool ctx) key'"
  shows "validate_routed host ctx key nh sticky h = validate_routed host ctx key' nh sticky h"
  using assms by (simp add: validate_routed_def route_def)

lemma run_routed_alike:
  assumes "ShardPool_get (host_hasher host) (validator_pool ctx) key = ShardPool_get (host_hasher host) (validator_pool ctx) key'"
  shows "run_pipeline_routed host ctx key = run_pipeline_routed host ctx key'"
  by (rule ext) (simp add: run_pipeline_routed_def pipeline_body_routed_def routed_alike [OF assms])

lemma body_erases:
  "erases (pipeline_body_benchmark clock host ctx) (pipeline_body_routed host ctx (ByExecutionId (ctx_execution_id ctx)))"
  unfolding pipeline_body_benchmark_def pipeline_body_routed_def Let_def by (intro erasures)

text \<open>
  C28. What the benchmark measures is the pipeline that is shipped, up to one disclosed difference. With the telemetry
  compiled in, a task of any execution ends in the same way, with the same world and the same statuses, as the pipeline
  without telemetry whose validation is routed by the execution. The default pipeline is that pipeline with the
  validation routed by the chain; so, when both keys lead to the same validator shard, the benchmark's task
  does exactly what the default one does.
\<close>
theorem telemetry_is_transparent:
  "(\<exists>t'. run_pipeline_benchmark clock host ctx (w, t) =
      (fst (run_pipeline_routed host ctx (ByExecutionId (ctx_execution_id ctx)) w),
       (snd (run_pipeline_routed host ctx (ByExecutionId (ctx_execution_id ctx)) w), t'))) \<and>
   run_pipeline host ctx = run_pipeline_routed host ctx (ByChainId (chain_id (ctx_txn ctx))) \<and>
   (ShardPool_get (host_hasher host) (validator_pool ctx) (ByExecutionId (ctx_execution_id ctx)) =
      ShardPool_get (host_hasher host) (validator_pool ctx) (ByChainId (chain_id (ctx_txn ctx))) \<longrightarrow>
    (\<exists>t'. run_pipeline_benchmark clock host ctx (w, t) =
      (fst (run_pipeline host ctx w), (snd (run_pipeline host ctx w), t'))))"
proof -
  let ?e = "ByExecutionId (ctx_execution_id ctx)"
  obtain t' where "pipeline_body_benchmark clock host ctx (w, t) =
      (fst (pipeline_body_routed host ctx ?e w), (snd (pipeline_body_routed host ctx ?e w), t'))"
    using body_erases unfolding erases_def by blast
  then have run: "run_pipeline_benchmark clock host ctx (w, t) =
      (fst (run_pipeline_routed host ctx ?e w), (snd (run_pipeline_routed host ctx ?e w), t'))"
    by (auto simp: run_pipeline_benchmark_def run_pipeline_routed_def split: prod.splits sum.splits exit.splits)
  with run_routed_alike run_pipeline_by_chain [of host ctx] show ?thesis by metis
qed



section \<open>What the telemetry holds afterwards\<close>

text \<open>The stages up to the broadcast.\<close>

definition until_broadcast :: "'s host \<Rightarrow> 's pipeline_context \<Rightarrow> ('s, 's nonce_manager \<times> nat \<times> tx_hash) task" where
  "until_broadcast host ctx =
     andThen (relay_stage host ctx) (\<lambda>_.
     andThen (nonce_stage host ctx) (\<lambda>(nh, n).
     let txn = (ctx_txn ctx)\<lparr>nonce := n\<rparr> in
     andThen (sign_stage host ctx nh txn) (\<lambda>(sh, s).
     andThen (endpoint_stage host ctx nh) (\<lambda>sticky_index.
     andThen (broadcast_stage host ctx nh sh sticky_index txn s) (\<lambda>h. ret (nh, sticky_index, h))))))"

definition broadcast_reached :: "'s host \<Rightarrow> 's pipeline_context \<Rightarrow> 's \<times> registry \<Rightarrow> bool" where
  "broadcast_reached host ctx w \<longleftrightarrow> (case fst (until_broadcast host ctx w) of Inl x \<Rightarrow> False | Inr y \<Rightarrow> True)"

text \<open>One execution's entry is there and the others are untouched.\<close>

definition only_entry :: "execution_id \<Rightarrow> telemetry_context \<Rightarrow> telemetry_context \<Rightarrow> bool" where
  "only_entry e t t' \<longleftrightarrow> tc_registry t' e \<noteq> None \<and> (\<forall>e'. e' \<noteq> e \<longrightarrow> tc_registry t' e' = tc_registry t e')"

lemma recording_simps [simp]:
  "tc_sent (record_start now e t) = tc_sent t" "tc_sent (record_stage now stg e t) = tc_sent t"
  "tc_receiver_alive (record_start now e t) = tc_receiver_alive t" "tc_receiver_alive (record_stage now stg e t) = tc_receiver_alive t"
  "tc_registry (telemetry_finalize e t) = tc_registry t"
  "tc_sent (telemetry_finalize e t) = tc_sent t @ (if tc_receiver_alive t then [e] else [])"
  by (simp_all add: record_start_def record_stage_def telemetry_finalize_def)

lemma only_entry_start: "only_entry e t (record_start now e t)"
  by (simp add: only_entry_def record_start_def)

lemma only_entry_stage: "only_entry e t t' \<Longrightarrow> only_entry e t (record_stage now stg e t')"
  by (simp add: only_entry_def record_stage_def)

lemma only_entry_finalize: "only_entry e t t' \<Longrightarrow> only_entry e t (telemetry_finalize e t')"
  by (simp add: only_entry_def)

lemmas only_entry_rules = only_entry_start only_entry_stage only_entry_finalize

lemma body_benchmark_telemetry:
  fixes clock :: "'s \<times> registry \<Rightarrow> instant"
  assumes "pipeline_body_benchmark clock host ctx (w, t) = (r, (w', t'))"
  shows "only_entry (ctx_execution_id ctx) t t'"
    "tc_sent t' = tc_sent t @ (if broadcast_reached host ctx w \<and> tc_receiver_alive t then [ctx_execution_id ctx] else [])"
proof -
  have *: "only_entry (ctx_execution_id ctx) t t' \<and>
      tc_sent t' = tc_sent t @ (if broadcast_reached host ctx w \<and> tc_receiver_alive t then [ctx_execution_id ctx] else [])"
    using assms
    by (auto simp: pipeline_body_benchmark_def Let_def andThen_def silent_def observe_def broadcast_reached_def until_broadcast_def ret_def
        split: prod.splits sum.splits intro!: only_entry_rules)
  from * show "only_entry (ctx_execution_id ctx) t t'" by simp
  from * show "tc_sent t' = tc_sent t @ (if broadcast_reached host ctx w \<and> tc_receiver_alive t then [ctx_execution_id ctx] else [])" by simp
qed



section \<open>What the exporter does\<close>

lemma export_loop_keeps: "e \<notin> set es \<Longrightarrow> fst (export_loop since sink es (reg, k)) e = reg e"
  by (induction since sink es "(reg, k)" arbitrary: reg k rule: export_loop.induct)
    (auto split: option.splits prod.splits bool.splits)

lemma export_loop_drains:
  assumes "\<And>r. sink_json sink r \<noteq> None" "\<And>l k. fst (sink_send sink l k)"
  shows "fst (export_loop since sink es (reg, k)) = (\<lambda>e. if e \<in> set es then None else reg e)"
proof (induction es arbitrary: reg k)
  case Nil
  then show ?case by simp
next
  case (Cons e es)
  show ?case
  proof (cases "reg e")
    case None
    with Cons show ?thesis by auto
  next
    case (Some p)
    obtain line where line: "sink_json sink (latency_record_of since e p) = Some line" using assms(1) by blast
    moreover obtain k' where "sink_send sink line k = (True, k')" using assms(2) [of line k] by (cases "sink_send sink line k") auto
    ultimately show ?thesis using Some Cons by auto
  qed
qed

lemma div_sum4:
  fixes k :: nat
  assumes "0 < k"
  shows "x div k + y div k + z div k + w div k \<le> (x + y + z + w) div k"
    "(x + y + z + w) div k \<le> x div k + y div k + z div k + w div k + 3"
proof -
  have le: "a div k + b div k \<le> (a + b) div k" for a b unfolding div_add1_eq [of a b k] by linarith
  have ge: "(a + b) div k \<le> a div k + b div k + 1" for a b
  proof -
    have "a mod k + b mod k < 2 * k" using mod_less_divisor [OF assms, of a] mod_less_divisor [OF assms, of b] by linarith
    then have "(a mod k + b mod k) div k < 2" by (rule less_mult_imp_div_less)
    then show ?thesis unfolding div_add1_eq [of a b k] by linarith
  qed
  show "x div k + y div k + z div k + w div k \<le> (x + y + z + w) div k"
    using le [of x y] le [of "x + y" z] le [of "x + y + z" w] by linarith
  show "(x + y + z + w) div k \<le> x div k + y div k + z div k + w div k + 3"
    using ge [of x y] ge [of "x + y" z] ge [of "x + y + z" w] by linarith
qed

text \<open>
  The stage durations of a record add up to its total, up to the three microseconds that rounding down each of
  them can lose, when the time stamps are in order and the total fits in 64 bits.
\<close>

lemma latency_record_adds_up:
  assumes "\<And>x y. x \<le> y \<Longrightarrow> since y x = y - x" "a \<le> b" "b \<le> c" "c \<le> d" "d \<le> f" "(f - a) div 1000 < 2 ^ 64"
    and "p = \<lparr>tm_start = Some a, tm_relayhost = Some b, tm_nonce = Some c, tm_sign = Some d, tm_broadcast = Some f\<rparr>"
    and "lr = latency_record_of since e p"
  shows "unat (relayhost_duration_us lr) + unat (nonce_duration_us lr) + unat (sign_duration_us lr) + unat (broadcast_duration_us lr)
      \<le> unat (total_pipeline_us lr)"
    "unat (total_pipeline_us lr) \<le>
      unat (relayhost_duration_us lr) + unat (nonce_duration_us lr) + unat (sign_duration_us lr) + unat (broadcast_duration_us lr) + 3"
proof -
  have word: "unat (word_of_nat (k div 1000) :: u64) = k div 1000" if "k \<le> f - a" for k
  proof -
    have "k div 1000 < 2 ^ 64" using div_le_mono [OF that, of 1000] assms(6) by linarith
    then show ?thesis by (simp add: unat_of_nat)
  qed
  have lr: "unat (relayhost_duration_us lr) = (b - a) div 1000" "unat (nonce_duration_us lr) = (c - b) div 1000"
    "unat (sign_duration_us lr) = (d - c) div 1000" "unat (broadcast_duration_us lr) = (f - d) div 1000"
    "unat (total_pipeline_us lr) = (f - a) div 1000"
    using assms(1-5,7,8) by (auto simp: latency_record_of_def get_duration_us_def intro!: word)
  have "f - a = (b - a) + (c - b) + (d - c) + (f - d)" using assms(2-5) by simp
  with div_sum4 [of 1000 "b - a" "c - b" "d - c" "f - d"] show "unat (relayhost_duration_us lr) + unat (nonce_duration_us lr) + unat (sign_duration_us lr) + unat (broadcast_duration_us lr)
      \<le> unat (total_pipeline_us lr)"
    "unat (total_pipeline_us lr) \<le>
      unat (relayhost_duration_us lr) + unat (nonce_duration_us lr) + unat (sign_duration_us lr) + unat (broadcast_duration_us lr) + 3"
    unfolding lr by simp_all
qed

text \<open>
  C29. The telemetry entry of an execution leaves memory only if the execution was broadcast. When the task got that far,
  an exporter with a working socket removes the entry; when it failed before, no export is requested, and no
  exporter, whatever its socket does, ever removes the entry.
\<close>
theorem telemetry_export_outcome:
  assumes "run_pipeline_benchmark clock host ctx (w, t) = (res, (w', t'))" "tc_receiver_alive t"
    and "ctx_execution_id ctx \<notin> set (tc_sent t)"
  shows "if broadcast_reached host ctx w
    then \<forall>sink k. (\<forall>r. sink_json sink r \<noteq> None) \<longrightarrow> (\<forall>l k. fst (sink_send sink l k)) \<longrightarrow>
      fst (run_telemetry_exporter since (Inr (Inr sink)) (tc_sent t') (tc_registry t', k)) (ctx_execution_id ctx) = None
    else \<forall>listener k.
      fst (run_telemetry_exporter since listener (tc_sent t') (tc_registry t', k)) (ctx_execution_id ctx) \<noteq> None"
proof -
  obtain r where body: "pipeline_body_benchmark clock host ctx (w, t) = (r, (w', t'))"
    using assms(1) by (auto simp: run_pipeline_benchmark_def split: prod.splits sum.splits exit.splits)
  note out = body_benchmark_telemetry [OF body]
  show ?thesis
  proof (cases "broadcast_reached host ctx w")
    case True
    with out(2) assms(2) have "ctx_execution_id ctx \<in> set (tc_sent t')" by simp
    with True show ?thesis
      by (simp add: run_telemetry_exporter_def) (intro allI impI, subst export_loop_drains, auto)
  next
    case False
    with out(2) assms(3) have "ctx_execution_id ctx \<notin> set (tc_sent t')" by simp
    with False out(1) show ?thesis
      by (simp add: run_telemetry_exporter_def export_loop_keeps only_entry_def split: sum.splits)
  qed
qed


section \<open>Witnesses\<close>

text \<open>A pipeline whose relay host refuses every transaction.\<close>

definition refused_context :: "nat pipeline_context" where
  "refused_context = sample_context\<lparr>relayhost_pool :=
     \<lparr>shards = [\<lparr>register_transaction = (\<lambda>e txn cc s. (Inl (Relay_ValidationFailed ''gas''), Suc s))\<rparr>]\<rparr>\<rparr>"

lemma refused_not_reached: "\<not> broadcast_reached host refused_context w"
proof -
  have "wp (relay_stage host refused_context) (\<lambda>_ _. False) (\<lambda>_. True) w"
    unfolding relay_stage_def Let_def wp_andThen
    by (intro wp_route wp_retry_op) (auto simp: refused_context_def sample_context_def sample_default_retry)
  then obtain x w' where "relay_stage host refused_context w = (Inl x, w')"
    by (auto simp: wp_def split: prod.splits sum.splits)
  then show ?thesis by (simp add: broadcast_reached_def until_broadcast_def andThen_def)
qed

theorem telemetry_is_transparent_witness:
  "\<exists>t'. run_pipeline_benchmark (\<lambda>w. 7) sample_host sample_context ((0, empty_registry), TelemetryContext_new) =
     (fst (run_pipeline sample_host sample_context (0, empty_registry)),
      (snd (run_pipeline sample_host sample_context (0, empty_registry)), t'))"
  by (rule telemetry_is_transparent [THEN conjunct2, THEN conjunct2, THEN mp])
    (simp add: ShardPool_get_Done sample_host_def sample_context_def)

theorem telemetry_export_outcome_witness:
  "fst (run_telemetry_exporter (\<lambda>y x. y - x) (Inr (Inr \<lparr>sink_json = (\<lambda>r. Some ''{}''), sink_send = (\<lambda>l k. (True, Suc k))\<rparr>))
      (tc_sent (snd (snd (run_pipeline_benchmark (\<lambda>w. 7) sample_host refused_context ((0, empty_registry), TelemetryContext_new)))))
      (tc_registry (snd (snd (run_pipeline_benchmark (\<lambda>w. 7) sample_host refused_context ((0, empty_registry), TelemetryContext_new)))), 0 :: nat)) 5 \<noteq> None"
proof -
  let ?run = "run_pipeline_benchmark (\<lambda>w. 7) sample_host refused_context ((0, empty_registry), TelemetryContext_new)"
  have run: "?run = (fst ?run, (fst (snd ?run), snd (snd ?run)))" by simp
  have e: "ctx_execution_id refused_context = 5" by (simp add: refused_context_def sample_context_def)
  have new: "tc_receiver_alive TelemetryContext_new" "ctx_execution_id refused_context \<notin> set (tc_sent TelemetryContext_new)"
    by (simp_all add: TelemetryContext_new_def)
  show ?thesis
    by (rule telemetry_export_outcome [OF run new, unfolded e if_not_P [OF refused_not_reached], rule_format])
qed

end
