(* ===== verification/Boot.thy ===== *)
theory Boot
  imports Server Rpc_Layer
begin

text \<open>
  The boot sequence, \<^verbatim>\<open>lobby/src/main.rs\<close>, in the default build: logging, the environment, the database and its
  migrations, the registries and clients the components load, the orchestrator, the bots and the server. What
  the machine offers is a record: its environment, files and listening sockets, the database, Redis and the
  nodes it reaches, and the crates the components take as parameters. The serving itself is the running service
  of theory \<^verbatim>\<open>Server\<close>, of which the result of the boot is a start.
\<close>

section \<open>Outcomes\<close>

datatype boot_error =
    Boot_Database string
  | Boot_Migration string
  | Boot_ApiKeys env_api_key_error
  | Boot_Rpc lobby_rpc_error
  | Boot_Config config_error
  | Boot_Bind string

text \<open>A boot panics, returns an error, waits for Redis without an end, or serves.\<close>

datatype 'a boot = Boot_Panic string | Boot_Failed boot_error | Boot_Waits | Booted 'a

fun bind_boot :: "'a boot \<Rightarrow> ('a \<Rightarrow> 'b boot) \<Rightarrow> 'b boot" where
  "bind_boot (Boot_Panic m) k = Boot_Panic m"
| "bind_boot (Boot_Failed e) k = Boot_Failed e"
| "bind_boot Boot_Waits k = Boot_Waits"
| "bind_boot (Booted x) k = k x"

definition expect :: "string \<Rightarrow> 'a option \<Rightarrow> 'a boot" where
  "expect msg x = (case x of None \<Rightarrow> Boot_Panic msg | Some y \<Rightarrow> Booted y)"

definition of_run :: "'a run \<Rightarrow> 'a boot" where
  "of_run r = (case r of Panic m \<Rightarrow> Boot_Panic m | Done x \<Rightarrow> Booted x)"

definition question :: "('e \<Rightarrow> boot_error) \<Rightarrow> 'e + 'a \<Rightarrow> 'a boot" where
  "question into r = (case r of Inl e \<Rightarrow> Boot_Failed (into e) | Inr x \<Rightarrow> Booted x)"


section \<open>The machine\<close>

record ('u, 'p, 'w, 'r, 's, 'k, 'sig) machine =
  m_vars :: "(string \<times> string) list"
  m_log_file :: "unit option"
  m_socket_addr :: "string \<Rightarrow> 's option"
  m_bind :: "'s \<Rightarrow> string + unit"
  m_files :: file_system
  m_utils_dir :: string
  m_actors_dir :: string
  m_connect :: "string \<Rightarrow> string + db"
  m_migrate :: "db \<Rightarrow> string + db"
  m_redis :: "string \<Rightarrow> string + 'r redis \<times> 'r"
  m_network :: 'w
  m_rpc_env :: "'w rpc_env"
  m_factory :: "('u, 'p) provider_factory"
  m_provider :: "('p, 'w) alloy_provider"
  m_lag :: "nat \<Rightarrow> duration"
  m_draw :: "u64 \<Rightarrow> 'w \<Rightarrow> u64 \<times> 'w"
  m_link :: "nat \<Rightarrow> link"
  m_rlp :: rlp_crate
  m_crypto :: "('k, 'sig) crypto"
  m_key_text :: key_text
  m_address_text :: address_text
  m_text_crates :: text_crates
  m_crate_text :: crate_text
  m_status_text :: status_text
  m_debug_rpc :: "lobby_rpc_error \<Rightarrow> string"
  m_debug_address :: "address \<Rightarrow> string"
  m_debug_chain :: "chain_id \<Rightarrow> string"

definition env_var :: "('u, 'p, 'w, 'r, 's, 'k, 'sig) machine \<Rightarrow> environment" where
  "env_var m = map_of (m_vars m)"

definition unwrap_or :: "'a option \<Rightarrow> 'a \<Rightarrow> 'a" where
  "unwrap_or x d = (case x of None \<Rightarrow> d | Some y \<Rightarrow> y)"


section \<open>The sequence\<close>

definition boot_environment :: "('u, 'p, 'w, 'r, 's, 'k, 'sig) machine \<Rightarrow> (string \<times> 's) boot" where
  "boot_environment m =
     bind_boot (expect ''Failed to open LOG file'' (m_log_file m)) (\<lambda>_.
     bind_boot (expect ''DATABASE_URL must be set'' (env_var m ''DATABASE_URL'')) (\<lambda>database_url.
     bind_boot (expect ''SERVER_ADDR is not a valid socket address''
                 (m_socket_addr m (unwrap_or (env_var m ''SERVER_ADDR'') ''0.0.0.0:3000''))) (\<lambda>address.
       Booted (database_url, address))))"

definition boot_database :: "('u, 'p, 'w, 'r, 's, 'k, 'sig) machine \<Rightarrow> string \<Rightarrow> db boot" where
  "boot_database m database_url =
     bind_boot (question Boot_Database (m_connect m database_url)) (\<lambda>db_pool.
       question Boot_Migration (m_migrate m db_pool))"

definition boot_artifacts :: "('u, 'p, 'w, 'r, 's, 'k, 'sig) machine \<Rightarrow> (api_registry \<times> 'p rpc_client) boot" where
  "boot_artifacts m =
     bind_boot (question Boot_ApiKeys (load_api_key_from_env (m_key_text m) (m_vars m))) (\<lambda>api_registry.
     bind_boot (of_run (export_custody_key_count (m_address_text m) (m_files m) (m_utils_dir m) (env_var m))) (\<lambda>custody_keys_count.
     bind_boot (question Boot_Rpc (build_rpc_client (m_factory m) (m_lag m) (m_vars m))) (\<lambda>rpc_client.
     bind_boot (question Boot_Rpc (get_client_endpoint_hashmap (m_debug_chain m) rpc_client)) (\<lambda>endpoint_hashmap.
       Booted (api_registry, rpc_client)))))"

text \<open>What the actors are spawned with; the engine of every sign actor loads the keys.\<close>

definition boot_custody :: "('u, 'p, 'w, 'r, 's, 'k, 'sig) machine \<Rightarrow> custody_fn run" where
  "boot_custody m =
     bind_run (SignEngine_new (m_address_text m) (m_files m) (m_actors_dir m) (env_var m)) (\<lambda>custody_keys.
       Done (resolve_key (m_address_text m) (m_text_crates m) custody_keys))"

definition boot_services :: "('u, 'p, 'w, 'r, 's, 'k, 'sig) machine \<Rightarrow> ('p rpc_client \<times> 'w) services" where
  "boot_services m =
     client_services (m_rpc_env m) (m_provider m) (m_debug_rpc m) (m_draw m) (boot_custody m)
       (sign_eip1559_transaction (m_rlp m) (m_crypto m)) (m_link m)"

text \<open>The registry is loaded from Redis; the scan follows its cursor for at most \<open>pages\<close> pages.\<close>

definition boot_registry :: "nat \<Rightarrow> ('u, 'p, 'w, 'r, 's, 'k, 'sig) machine \<Rightarrow> (string + registry) option" where
  "boot_registry pages m =
     (case m_redis m (unwrap_or (env_var m ''REDIS_URL'') ''redis://localhost:6379'') of
        Inl e \<Rightarrow> Some (Inl e)
      | Inr (rd, s) \<Rightarrow> map_option fst (StatusRegistry_new pages (m_status_text m) rd s))"

text \<open>\<open>spawn_cortex\<close> reaches Redis only after the pools and the semaphore, so what panics before does not wait for it.\<close>

definition boot_cortex ::
  "nat \<Rightarrow> ('u, 'p, 'w, 'r, 's, 'k, 'sig) machine \<Rightarrow>
   (cortex_config \<times> ('p rpc_client \<times> 'w) cortex \<times> nat \<times> registry) boot" where
  "boot_cortex pages m =
     bind_boot (question Boot_Config (CortexConfig_from_env (env_var m))) (\<lambda>config.
     bind_boot (of_run (spawn_cortex (boot_services m) config (Inr empty_registry))) (\<lambda>_.
       case boot_registry pages m of
         None \<Rightarrow> Boot_Waits
       | Some loaded \<Rightarrow>
           bind_boot (of_run (spawn_cortex (boot_services m) config loaded)) (\<lambda>(cortex_handler, permits, status_registry).
             Booted (config, cortex_handler, permits, status_registry))))"

definition AppState_new ::
  "('u, 'p, 'w, 'r, 's, 'k, 'sig) machine \<Rightarrow> api_registry \<Rightarrow> ('p rpc_client \<times> 'w) cortex \<Rightarrow> ('p rpc_client \<times> 'w) app_state" where
  "AppState_new m registry cortex =
     \<lparr>api_registry = registry, cortex_services = boot_services m, cortex_handler = cortex,
      app_text_crates = m_text_crates m, app_crate_text = m_crate_text m,
      app_uuid_parse = uuid_parse_str (m_key_text m), app_debug_address = m_debug_address m\<rparr>"

definition main ::
  "nat \<Rightarrow> ('u, 'p, 'w, 'r, 's, 'k, 'sig) machine \<Rightarrow>
   (('p rpc_client \<times> 'w) app_state \<times> cortex_config \<times> ('p rpc_client \<times> 'w) system) boot" where
  "main pages m =
     bind_boot (boot_environment m) (\<lambda>(database_url, address).
     bind_boot (boot_database m database_url) (\<lambda>db_pool.
     bind_boot (boot_artifacts m) (\<lambda>(api_registry, rpc_client).
     bind_boot (boot_cortex pages m) (\<lambda>(config, cortex_handler, permits, status_registry).
     bind_boot (question Boot_Bind (m_bind m address)) (\<lambda>listener.
       Booted (AppState_new m api_registry cortex_handler, config,
               \<lparr>sys_world = (db_pool, (rpc_client, m_network m)), sys_registry = status_registry,
                sys_permits = permits, sys_tasks = []\<rparr>))))))"


section \<open>What each step needs\<close>

datatype boot_step =
    Open_Log | Read_Database_Url | Read_Server_Addr | Connect_Database | Migrate_Database | Load_Api_Keys
  | Count_Custody_Keys | Build_Rpc_Client | Read_Cortex_Config | Spawn_Actors | Load_Registry | Bind_Listener

definition boot_steps :: "boot_step list" where
  "boot_steps = [Open_Log, Read_Database_Url, Read_Server_Addr, Connect_Database, Migrate_Database, Load_Api_Keys,
     Count_Custody_Keys, Build_Rpc_Client, Read_Cortex_Config, Spawn_Actors, Load_Registry, Bind_Listener]"

definition keys_load :: "('u, 'p, 'w, 'r, 's, 'k, 'sig) machine \<Rightarrow> string \<Rightarrow> bool" where
  "keys_load m manifest_dir \<longleftrightarrow>
     (\<exists>raw. file_accounts (m_files m) (keys_path manifest_dir (env_var m)) = Some raw \<and> accounts_ok (m_address_text m) raw)"

definition spawnable :: "cortex_config \<Rightarrow> bool" where
  "spawnable config \<longleftrightarrow>
     0 < relay_host_shards config \<and> 0 < nonce_shards config \<and> 0 < sign_shards config \<and> 0 < broadcast_shards config \<and>
     0 < validator_shards config \<and> actor_buffer config \<noteq> 0 \<and> unat (pipeline_concurrency config) \<le> 2 ^ 61 - 1"

definition server_addr :: "('u, 'p, 'w, 'r, 's, 'k, 'sig) machine \<Rightarrow> 's option" where
  "server_addr m = m_socket_addr m (unwrap_or (env_var m ''SERVER_ADDR'') ''0.0.0.0:3000'')"

fun passes :: "nat \<Rightarrow> ('u, 'p, 'w, 'r, 's, 'k, 'sig) machine \<Rightarrow> boot_step \<Rightarrow> bool" where
  "passes pages m Open_Log \<longleftrightarrow> m_log_file m \<noteq> None"
| "passes pages m Read_Database_Url \<longleftrightarrow> env_var m ''DATABASE_URL'' \<noteq> None"
| "passes pages m Read_Server_Addr \<longleftrightarrow> server_addr m \<noteq> None"
| "passes pages m Connect_Database \<longleftrightarrow> \<not> isl (m_connect m (the (env_var m ''DATABASE_URL'')))"
| "passes pages m Migrate_Database \<longleftrightarrow> \<not> isl (m_migrate m (projr (m_connect m (the (env_var m ''DATABASE_URL'')))))"
| "passes pages m Load_Api_Keys \<longleftrightarrow>
     api_key_vars (m_vars m) \<noteq> [] \<and>
     list_all (\<lambda>v. \<not> isl (parse_api_key (m_key_text m) (fst v) (snd v))) (api_key_vars (m_vars m))"
| "passes pages m Count_Custody_Keys \<longleftrightarrow> keys_load m (m_utils_dir m)"
| "passes pages m Build_Rpc_Client \<longleftrightarrow> env_usable (m_factory m) (m_vars m)"
| "passes pages m Read_Cortex_Config \<longleftrightarrow> list_all (readable (env_var m)) config_keys"
| "passes pages m Spawn_Actors \<longleftrightarrow>
     spawnable (projr (CortexConfig_from_env (env_var m))) \<and>
     fs_try_exists (m_files m) (keys_path (m_actors_dir m) (env_var m)) = Some True \<and> keys_load m (m_actors_dir m)"
| "passes pages m Load_Registry \<longleftrightarrow> (\<exists>registry. boot_registry pages m = Some (Inr registry))"
| "passes pages m Bind_Listener \<longleftrightarrow> \<not> isl (m_bind m (the (server_addr m)))"

text \<open>How a failed step ends the boot.\<close>

fun reports :: "boot_step \<Rightarrow> 'a boot \<Rightarrow> bool" where
  "reports Open_Log out \<longleftrightarrow> out = Boot_Panic ''Failed to open LOG file''"
| "reports Read_Database_Url out \<longleftrightarrow> out = Boot_Panic ''DATABASE_URL must be set''"
| "reports Read_Server_Addr out \<longleftrightarrow> out = Boot_Panic ''SERVER_ADDR is not a valid socket address''"
| "reports Connect_Database out \<longleftrightarrow> (\<exists>e. out = Boot_Failed (Boot_Database e))"
| "reports Migrate_Database out \<longleftrightarrow> (\<exists>e. out = Boot_Failed (Boot_Migration e))"
| "reports Load_Api_Keys out \<longleftrightarrow> (\<exists>e. out = Boot_Failed (Boot_ApiKeys e))"
| "reports Count_Custody_Keys out \<longleftrightarrow> (\<exists>msg. out = Boot_Panic msg)"
| "reports Build_Rpc_Client out \<longleftrightarrow> (\<exists>e. out = Boot_Failed (Boot_Rpc e))"
| "reports Read_Cortex_Config out \<longleftrightarrow> (\<exists>e. out = Boot_Failed (Boot_Config e))"
| "reports Spawn_Actors out \<longleftrightarrow> (\<exists>msg. out = Boot_Panic msg)"
| "reports Load_Registry out \<longleftrightarrow> out = Boot_Waits \<or> out = Boot_Panic ''StatusRegistry: failed to connect to Redis server''"
| "reports Bind_Listener out \<longleftrightarrow> (\<exists>e. out = Boot_Failed (Boot_Bind e))"

text \<open>
  A part of the sequence that runs some steps: it ends as its first failed step reports, or it succeeds and
  they all pass.
\<close>

definition runs :: "(boot_step \<Rightarrow> bool) \<Rightarrow> boot_step list \<Rightarrow> 'a boot \<Rightarrow> bool" where
  "runs ok steps out \<longleftrightarrow>
     (case find (\<lambda>s. \<not> ok s) steps of None \<Rightarrow> (\<exists>x. out = Booted x) | Some s \<Rightarrow> reports s out)"

lemma reports_bind: "reports s out \<Longrightarrow> reports s (bind_boot out k)"
  by (cases s) auto

lemma find_append: "find P (xs @ ys) = (case find P xs of None \<Rightarrow> find P ys | Some x \<Rightarrow> Some x)"
  by (induction xs) auto

lemma runs_bind:
  assumes "runs ok steps out" "\<And>x. out = Booted x \<Longrightarrow> runs ok steps' (k x)"
  shows "runs ok (steps @ steps') (bind_boot out k)"
  using assms by (auto simp: runs_def find_append reports_bind split: option.splits)

lemma runs_done: "runs ok [] (Booted x)"
  by (simp add: runs_def)

lemma runs_expect:
  "(ok s \<longleftrightarrow> y \<noteq> None) \<Longrightarrow> reports s (Boot_Panic msg :: 'b boot) \<Longrightarrow> (\<And>x. y = Some x \<Longrightarrow> runs ok steps (k x)) \<Longrightarrow>
   runs ok (s # steps) (bind_boot (expect msg y) (k :: 'a \<Rightarrow> 'b boot))"
  by (cases y) (auto simp: runs_def expect_def)

lemma runs_question:
  "(ok s \<longleftrightarrow> \<not> isl r) \<Longrightarrow> (\<And>e. reports s (Boot_Failed (into e) :: 'b boot)) \<Longrightarrow> (\<And>x. r = Inr x \<Longrightarrow> runs ok steps (k x)) \<Longrightarrow>
   runs ok (s # steps) (bind_boot (question into r) (k :: 'a \<Rightarrow> 'b boot))"
  by (cases r) (auto simp: runs_def question_def)

lemma runs_of_run:
  "(ok s \<longleftrightarrow> (\<exists>x. q = Done x)) \<Longrightarrow> (\<And>msg. reports s (Boot_Panic msg :: 'b boot)) \<Longrightarrow> (\<And>x. q = Done x \<Longrightarrow> runs ok steps (k x)) \<Longrightarrow>
   runs ok (s # steps) (bind_boot (of_run q) (k :: 'a \<Rightarrow> 'b boot))"
  by (cases q) (auto simp: runs_def of_run_def)

lemma not_isl_iff: "\<not> isl r \<longleftrightarrow> (\<exists>x. r = Inr x)"
  by (cases r) simp_all

lemma load_api_key_passes:
  "passes pages m Load_Api_Keys \<longleftrightarrow> \<not> isl (load_api_key_from_env (m_key_text m) (m_vars m))"
proof
  assume "passes pages m Load_Api_Keys"
  then have p: "\<exists>x. parse_api_key (m_key_text m) (fst v) (snd v) = Inr x" if "v \<in> set (api_key_vars (m_vars m))" for v
    using that by (simp add: list_all_iff not_isl_iff)
  have "api_key_vars (m_vars m) \<noteq> []" using \<open>passes pages m Load_Api_Keys\<close> by simp
  then obtain reg where "load_api_key_from_env (m_key_text m) (m_vars m) = Inr reg"
    using load_succeeds [of "m_vars m" "m_key_text m"] p by blast
  then show "\<not> isl (load_api_key_from_env (m_key_text m) (m_vars m))" by simp
next
  assume "\<not> isl (load_api_key_from_env (m_key_text m) (m_vars m))"
  then obtain reg where reg: "load_api_key_from_env (m_key_text m) (m_vars m) = Inr reg" unfolding not_isl_iff ..
  have "api_key_vars (m_vars m) \<noteq> []"
  proof
    assume "api_key_vars (m_vars m) = []"
    then have "load_keys_loop (m_key_text m) (m_vars m) [] = Inr []"
      using load_keys_loop_filter [of "m_key_text m" "m_vars m" "[]"] by simp
    with reg show False by (simp add: load_api_key_from_env_def)
  qed
  then show "passes pages m Load_Api_Keys"
    using load_api_key_map(2) [OF reg] by (simp add: list_all_iff not_isl_iff)
qed

lemma custody_passes:
  "passes pages m Count_Custody_Keys \<longleftrightarrow>
     (\<exists>n. export_custody_key_count (m_address_text m) (m_files m) (m_utils_dir m) (env_var m) = Done n)"
  by (simp add: keys_load_def export_custody_key_count_def bind_run_Done_iff flip: load_file_Done_iff)

lemma build_passes: "passes pages m Build_Rpc_Client \<longleftrightarrow> \<not> isl (build_rpc_client (m_factory m) (m_lag m) (m_vars m))"
  using build_cases [where pf = "m_factory m" and lag = "m_lag m" and vars = "m_vars m"]
  by (auto split: sum.splits)

lemma count_endpoints_returns:
  "\<forall>c \<in> set cs. get_pool Broadcast c stack \<noteq> None \<Longrightarrow> \<not> isl (count_endpoints debug stack cs counts)"
  by (induction debug stack cs counts rule: count_endpoints.induct) (auto split: option.splits)

lemma endpoint_hashmap_returns: "\<not> isl (get_client_endpoint_hashmap debug client)"
  unfolding get_client_endpoint_hashmap_def get_endpoint_hashmap_def get_registred_chains_def
  by (rule count_endpoints_returns) (simp add: map_of_eq_None_iff)

lemma config_passes: "passes pages m Read_Cortex_Config \<longleftrightarrow> \<not> isl (CortexConfig_from_env (env_var m))"
  using from_env_outcome [of "env_var m"]
  by (auto simp: list_all_iff find_None_iff split: sum.splits config_error.splits) (metis find_None_iff option.distinct(1))

lemma spawn_passes:
  assumes "CortexConfig_from_env (env_var m) = Inr config"
  shows "passes pages m Spawn_Actors \<longleftrightarrow> (\<exists>x. spawn_cortex (boot_services m) config (Inr r) = Done x)"
proof -
  have "(\<exists>custody. sv_custody (boot_services m) = Done custody) \<longleftrightarrow>
      fs_try_exists (m_files m) (keys_path (m_actors_dir m) (env_var m)) = Some True \<and> keys_load m (m_actors_dir m)"
    by (auto simp: boot_services_def client_services_def boot_custody_def bind_run_Done_iff keys_load_def SignEngine_new_def
        Let_def simp flip: load_file_Done_iff split: option.splits bool.splits)
  with assms show ?thesis unfolding spawn_cortex_outcome by (auto simp: spawnable_def)
qed

lemma spawn_cortex_loaded:
  "spawn_cortex sv config (Inr r0) = Done (cx, n, r) \<Longrightarrow>
   spawn_cortex sv config loaded =
     (case loaded of Inl e \<Rightarrow> Panic ''StatusRegistry: failed to connect to Redis server'' | Inr r \<Rightarrow> Done (cx, n, r))"
  by (auto simp: spawn_cortex_def bind_run_def split: run.splits sum.splits)


section \<open>How a boot ends\<close>

lemma boot_environment_runs:
  "runs (passes pages m) [Open_Log, Read_Database_Url, Read_Server_Addr] (boot_environment m)"
  unfolding boot_environment_def
  by (intro runs_expect runs_done) (simp_all add: server_addr_def)

lemma boot_environment_Booted:
  "boot_environment m = Booted (url, address) \<Longrightarrow> env_var m ''DATABASE_URL'' = Some url \<and> server_addr m = Some address"
  by (auto simp: boot_environment_def server_addr_def expect_def split: option.splits)

lemma boot_database_runs:
  assumes "env_var m ''DATABASE_URL'' = Some url"
  shows "runs (passes pages m) [Connect_Database, Migrate_Database] (boot_database m url)"
proof -
  have "runs (passes pages m) [Migrate_Database] (question Boot_Migration (m_migrate m d))" if "m_connect m url = Inr d" for d
    using assms that by (cases "m_migrate m d") (simp_all add: runs_def question_def)
  then show ?thesis unfolding boot_database_def by (intro runs_question) (simp_all add: assms)
qed

lemma boot_artifacts_runs:
  "runs (passes pages m) [Load_Api_Keys, Count_Custody_Keys, Build_Rpc_Client] (boot_artifacts m)"
proof -
  have "runs (passes pages m) [] (bind_boot (question Boot_Rpc (get_client_endpoint_hashmap (m_debug_chain m) client)) (\<lambda>h. Booted (reg, client)))"
    for client and reg :: api_registry
    using endpoint_hashmap_returns [of "m_debug_chain m" client] by (auto simp: not_isl_iff runs_def question_def)
  then show ?thesis unfolding boot_artifacts_def
    by (intro runs_question runs_of_run load_api_key_passes custody_passes build_passes) simp_all
qed

lemma boot_cortex_runs:
  "runs (passes pages m) [Read_Cortex_Config, Spawn_Actors, Load_Registry] (boot_cortex pages m)"
  unfolding boot_cortex_def
proof (intro runs_question runs_of_run config_passes spawn_passes)
  fix config x assume "spawn_cortex (boot_services m) config (Inr empty_registry) = Done x"
  then obtain cx n r where "spawn_cortex (boot_services m) config (Inr empty_registry) = Done (cx, n, r)" by (cases x) auto
  note loaded = spawn_cortex_loaded [OF this]
  show "runs (passes pages m) [Load_Registry]
      (case boot_registry pages m of None \<Rightarrow> Boot_Waits
       | Some loaded \<Rightarrow> bind_boot (of_run (spawn_cortex (boot_services m) config loaded))
           (\<lambda>(cortex_handler, permits, status_registry). Booted (config, cortex_handler, permits, status_registry)))"
    by (auto simp: runs_def loaded of_run_def split: option.splits sum.splits)
qed simp_all

lemma main_runs: "runs (passes pages m) boot_steps (main pages m)"
proof -
  have listen: "runs (passes pages m) [Bind_Listener] (bind_boot (question Boot_Bind (m_bind m address)) (\<lambda>listener. Booted x))"
    if "server_addr m = Some address" for address and x :: "('p rpc_client \<times> 'w) app_state \<times> cortex_config \<times> ('p rpc_client \<times> 'w) system"
    by (intro runs_question runs_done) (simp_all add: that)
  have "runs (passes pages m)
      ([Open_Log, Read_Database_Url, Read_Server_Addr] @ [Connect_Database, Migrate_Database] @
       [Load_Api_Keys, Count_Custody_Keys, Build_Rpc_Client] @ [Read_Cortex_Config, Spawn_Actors, Load_Registry] @ [Bind_Listener])
      (main pages m)"
    unfolding main_def case_prod_unfold
    by (intro runs_bind boot_environment_runs boot_database_runs boot_artifacts_runs boot_cortex_runs listen)
      (simp_all add: boot_environment_Booted [of m "fst x" "snd x" for x])
  then show ?thesis by (simp add: boot_steps_def)
qed

text \<open>
  C27. How a boot ends: it serves exactly when every step finds what it needs, the log file, the variables, the
  database, the API keys, the custody accounts, usable endpoints, readable settings, shards that spawn, a registry
  that loads and a free socket; otherwise the first step in that order that fails decides which
  panic or error ends the process, or that it waits for Redis. Counting the endpoints of the client just built never fails.
\<close>
theorem boot_outcome:
  "case find (\<lambda>s. \<not> passes pages m s) boot_steps of
     None \<Rightarrow> (\<exists>x. main pages m = Booted x)
   | Some s \<Rightarrow> reports s (main pages m)"
  using main_runs by (simp add: runs_def)


section \<open>The service that was booted\<close>

lemma bind_boot_Booted_iff: "bind_boot out k = Booted y \<longleftrightarrow> (\<exists>x. out = Booted x \<and> k x = Booted y)"
  by (cases out) simp_all

lemma step_Booted_iff:
  "question into r = Booted x \<longleftrightarrow> r = Inr x" "of_run q = Booted y \<longleftrightarrow> q = Done y"
  by (auto simp: question_def of_run_def split: sum.splits run.splits)

lemma spawn_cortex_registry: "spawn_cortex sv config loaded = Done (cx, n, r) \<Longrightarrow> loaded = Inr r"
  by (cases loaded) (auto simp: spawn_cortex_def bind_run_Done_iff)

lemma boot_cortex_Booted:
  assumes "boot_cortex pages m = Booted (config, cx, permits, registry)"
  shows "CortexConfig_from_env (env_var m) = Inr config" "boot_registry pages m = Some (Inr registry)"
    "spawn_cortex (boot_services m) config (Inr registry) = Done (cx, permits, registry)"
proof -
  obtain loaded where config: "CortexConfig_from_env (env_var m) = Inr config" and loaded: "boot_registry pages m = Some loaded"
    and spawn: "spawn_cortex (boot_services m) config loaded = Done (cx, permits, registry)"
    using assms by (auto simp: boot_cortex_def bind_boot_Booted_iff step_Booted_iff split: option.splits)
  from config loaded spawn spawn_cortex_registry [OF spawn]
  show "CortexConfig_from_env (env_var m) = Inr config" "boot_registry pages m = Some (Inr registry)"
    "spawn_cortex (boot_services m) config (Inr registry) = Done (cx, permits, registry)"
    by simp_all
qed

lemma main_Booted:
  assumes "main pages m = Booted (app, config, sys0)"
  shows "app = AppState_new m (api_registry app) (cortex_handler app)"
    "build_rpc_client (m_factory m) (m_lag m) (m_vars m) = Inr (fst (snd (sys_world sys0)))"
    "CortexConfig_from_env (env_var m) = Inr config"
    "spawn_cortex (boot_services m) config (Inr (sys_registry sys0)) = Done (cortex_handler app, sys_permits sys0, sys_registry sys0)"
    "sys_tasks sys0 = []"
    "load_api_key_from_env (m_key_text m) (m_vars m) = Inr (api_registry app)"
  using assms
  by (auto simp: main_def boot_artifacts_def bind_boot_Booted_iff step_Booted_iff AppState_new_def split: prod.splits
      dest: boot_cortex_Booted)

lemma AppState_new_simps [simp]:
  "cortex_services (AppState_new m reg cx) = boot_services m" "cortex_handler (AppState_new m reg cx) = cx"
  "app_crate_text (AppState_new m reg cx) = m_crate_text m"
  by (simp_all add: AppState_new_def)

lemma main_starts:
  assumes "main pages m = Booted (app, config, sys0)"
  shows "http_reachable drift app hash_of config sys0 T sys0"
  using main_Booted [OF assms] by (metis AppState_new_simps(1) http_boot)

text \<open>What holds of a state of the service.\<close>

definition sound_service :: "('u, 'p, 'w, 'r, 's, 'k, 'sig) machine \<Rightarrow> ('p rpc_client \<times> 'w) app_state \<Rightarrow> hasher \<Rightarrow>
    cortex_config \<Rightarrow> ('p rpc_client \<times> 'w) system \<Rightarrow> bool" where
  "sound_service m app hash_of config sys \<longleftrightarrow>
     client_ok (fst (snd (sys_world sys))) \<and>
     served (fst (snd (sys_world sys))) = env_endpoints (m_factory m) (m_vars m) \<and>
     length (sys_tasks sys) + sys_permits sys = unat (pipeline_concurrency config) \<and>
     (\<forall>ctx \<in> set (sys_tasks sys). owned_task app ctx) \<and>
     (\<forall>i < length (sys_tasks sys). \<exists>sys' st.
        finish_task (cortex_host (cortex_services app) hash_of (app_crate_text app)) i sys = (Done (), sys') \<and>
        registry_get (ctx_execution_id (sys_tasks sys ! i)) (sys_registry sys') = Some st \<and> terminal st)"

text \<open>
  C6. What is booted serves soundly: the state that the boot leaves is a start of the service, and in every state
  it reaches, whatever requests arrive and however the database, the mailboxes and the nodes behave, the RPC
  client serves the endpoints of the environment with all its permits free, permits and pipelines add up to the configured
  number, every pipeline belongs to a client of the registry, which is exactly what the keys of the environment load as,
  and every pipeline ends with a terminal status;
  the invariants of the tables hold from the start on if the migrated database has them.
\<close>
theorem booted_service_sound:
  assumes "main pages m = Booted (app, config, sys0)" "env_ok (m_rpc_env m)"
  shows "load_api_key_from_env (m_key_text m) (m_vars m) = Inr (api_registry app) \<and>
     http_reachable network_drift app hash_of config sys0 T sys0 \<and>
     (\<forall>sys. http_reachable network_drift app hash_of config sys0 T sys \<longrightarrow>
        sound_service m app hash_of config sys \<and>
        (store_inv ns bs xs (fst (sys_world sys0)) \<longrightarrow> store_inv ns bs xs (fst (sys_world sys))))"
proof (intro conjI allI impI)
  show "load_api_key_from_env (m_key_text m) (m_vars m) = Inr (api_registry app)" using main_Booted(6) [OF assms(1)] .
next
  show "http_reachable network_drift app hash_of config sys0 T sys0" using main_starts [OF assms(1)] .
next
  fix sys assume "http_reachable network_drift app hash_of config sys0 T sys"
  note steps = serve_refines [OF this]
  note run = steps [THEN conjunct1]
  have app: "cortex_services app = boot_services m" using main_Booted(1) [OF assms(1)] AppState_new_simps(1) by metis
  have retry: "max_attempts (cc_retry config) \<noteq> - 1"
    using from_env_retry [OF main_Booted(3) [OF assms(1)]] by (simp add: RetryConfig_default_def)
  have "client_ok (fst (snd (sys_world sys))) \<and> served (fst (snd (sys_world sys))) = env_endpoints (m_factory m) (m_vars m)"
    using client_stays_ok [OF run [unfolded app boot_services_def] main_Booted(2) [OF assms(1)] assms(2)] .
  then show "sound_service m app hash_of config sys"
    using reachable_tasks [OF run] steps task_finishes [OF run retry] by (simp add: sound_service_def) metis
  show "store_inv ns bs xs (fst (sys_world sys))" if "store_inv ns bs xs (fst (sys_world sys0))"
    using inv.reachable_keeps [OF run that] .
qed


section \<open>Witness\<close>

definition sample_boot_vars :: "(string \<times> string) list" where
  "sample_boot_vars = [(''DATABASE_URL'', ''postgres://db''), (''LOBBY_API_KEY_1'', ''lobby_live_x:c0:0x07''),
     (''RPC_ENDPOINT_1'', ''https://a, https://b'')]"

definition sample_machine :: "(string, string, nat, (string, string \<times> nat) fmap, string, bytes, bytes) machine" where
  "sample_machine =
     \<lparr>m_vars = sample_boot_vars, m_log_file = Some (), m_socket_addr = Some, m_bind = (\<lambda>a. Inr ()),
      m_files = sample_files, m_utils_dir = ''utils'', m_actors_dir = ''actors'',
      m_connect = (\<lambda>url. Inr init_db), m_migrate = Inr, m_redis = (\<lambda>url. Inr (sample_redis, fmempty)),
      m_network = 0, m_rpc_env = sample_env, m_factory = sample_factory, m_provider = sample_provider, m_lag = (\<lambda>i. 0),
      m_draw = (\<lambda>u n. (drop_bit 1 u, n)), m_link = (\<lambda>i. LinkUp), m_rlp = sample_crate, m_crypto = sample_crypto,
      m_key_text = sample_key_text, m_address_text = sample_address_text, m_text_crates = sample_hex,
      m_crate_text = host_text sample_host, m_status_text = sample_status_text, m_debug_rpc = show_lobby_rpc_error,
      m_debug_address = (\<lambda>a. ''0x''), m_debug_chain = show_chain_id\<rparr>"

lemma sample_machine_vars: "m_vars sample_machine = sample_boot_vars" "env_var sample_machine = map_of sample_boot_vars"
  by (simp_all add: sample_machine_def env_var_def)

lemma sample_keys_load: "keys_load sample_machine manifest_dir"
  by (simp add: keys_load_def sample_machine_def file_accounts_def sample_files_def accounts_ok_def sample_address_text_def)

lemma sample_api_keys: "passes 1 sample_machine Load_Api_Keys"
proof -
  have "api_key_vars sample_boot_vars = [(''LOBBY_API_KEY_1'', ''lobby_live_x:c0:0x07'')]" by code_simp
  moreover have "split_on CHR '':'' ''lobby_live_x:c0:0x07'' = [''lobby_live_x'', ''c0'', ''0x07'']" by code_simp
  ultimately show ?thesis
    by (simp add: sample_machine_vars parse_api_key_def) (simp add: sample_machine_def sample_key_text_def)
qed

lemma sample_rpc_vars: "passes 1 sample_machine Build_Rpc_Client"
proof -
  have "endpoint_vars sample_boot_vars = endpoint_vars sample_vars" by code_simp
  then show ?thesis using sample_env_usable by (simp add: sample_machine_def env_usable_def)
qed

lemma sample_config: "CortexConfig_from_env (env_var sample_machine) =
    Inr \<lparr>relay_host_shards = 17, nonce_shards = 17, sign_shards = 17, broadcast_shards = 17, validator_shards = 17,
      actor_buffer = 256, pipeline_concurrency = 200, pipeline_semaphore_timeout = from_millis 5000, cc_retry = RetryConfig_default\<rparr>"
  by (simp add: CortexConfig_from_env_def parse_env_def sample_machine_vars sample_boot_vars_def)

lemma sample_registry: "passes 1 sample_machine Load_Registry"
proof -
  have "sorted_list_of_fset ({||} :: string fset) = []" by (simp add: sorted_list_of_fset.rep_eq)
  then show ?thesis by (simp add: boot_registry_def sample_machine_def StatusRegistry_new_def sample_redis_def)
qed

lemma sample_passes: "passes 1 sample_machine s"
proof (cases s)
  case Read_Cortex_Config
  then show ?thesis unfolding Read_Cortex_Config config_passes sample_config by simp
next
  case Spawn_Actors
  have "fs_try_exists (m_files sample_machine) path = Some True" for path by (simp add: sample_machine_def sample_files_def)
  then show ?thesis using Spawn_Actors by (simp add: sample_config spawnable_def sample_keys_load)
qed (use sample_keys_load sample_api_keys sample_rpc_vars sample_registry in
     \<open>simp_all add: env_var_def server_addr_def\<close>, simp_all add: sample_machine_def sample_boot_vars_def)

theorem booted_service_sound_witness:
  "\<exists>app config sys0. main 1 sample_machine = Booted (app, config, sys0) \<and>
     http_reachable network_drift app (\<lambda>k. 3) config sys0 TYPE(nat) sys0 \<and>
     sound_service sample_machine app (\<lambda>k. 3) config sys0"
proof -
  have "find (\<lambda>s. \<not> passes 1 sample_machine s) boot_steps = None" unfolding find_None_iff using sample_passes by blast
  then obtain app config sys0 where boot: "main 1 sample_machine = Booted (app, config, sys0)"
    using main_runs [of 1 sample_machine] by (auto simp: runs_def)
  have "env_ok (m_rpc_env sample_machine)" by (simp add: sample_machine_def sample_env_ok)
  from booted_service_sound [OF boot this, of "\<lambda>k. 3" "TYPE(nat)"] boot show ?thesis by blast
qed

end
