(* ===== verification/Scanner.thy ===== *)
theory Scanner
  imports Rpc_Calls Validator_Engine Status_Registry
begin

text \<open>
  The scanner bot, \<^verbatim>\<open>lobby/src/bots/scanner.rs\<close>, which looks again for transactions whose validation timed out. The
  module is commented out of the build since the RPC crate changed: the pool of endpoints it asks for, with the
  health of each, is a parameter, and so is the \<open>Debug\<close> rendering of hashes.
\<close>

section \<open>The statements\<close>

record timed_out_transaction =
  to_execution_id :: execution_id
  to_txn_hash :: tx_hash
  to_chain_id :: chain_id

definition timed_out :: "validation_row \<Rightarrow> bool" where
  "timed_out r \<longleftrightarrow> v_state r = V_TimedOut"

text \<open>\<open>DISTINCT ON (execution_id) ... ORDER BY execution_id, revision DESC LIMIT 100\<close>, and \<open>fetch_optional\<close>.\<close>

definition timed_out_executions :: "validation_row list \<Rightarrow> execution_id list" where
  "timed_out_executions rows = sort (remdups (map v_execution_id (filter timed_out rows)))"

definition timed_out_rows :: "validation_row list \<Rightarrow> validation_row list" where
  "timed_out_rows rows =
     List.map_filter (\<lambda>e. latest_row v_execution_id v_revision timed_out e rows)
       (take 100 (timed_out_executions rows))"

definition scan_target :: "validation_row list \<Rightarrow> validation_row option" where
  "scan_target rows = (case timed_out_rows rows of [] \<Rightarrow> None | row # _ \<Rightarrow> Some row)"

definition timed_out_stmt :: "validation_row option stmt" where
  "timed_out_stmt locked d = Inr (scan_target (validation_requests d), d)"

text \<open>The update hits the highest revision of the execution; the trigger stamps it.\<close>

definition scan_update_stmt :: "execution_id \<Rightarrow> validation_state \<Rightarrow> nat stmt" where
  "scan_update_stmt e s locked d =
     (case latest_row v_execution_id v_revision (\<lambda>_. True) e (validation_requests d) of
        None \<Rightarrow> Inr (0, d)
      | Some t \<Rightarrow>
          Inr (1, d\<lparr>validation_requests := update_row v_execution_id v_revision (v_execution_id t, v_revision t)
                      (set_validation_state (db_clock d, s)) (validation_requests d)\<rparr>))"


section \<open>The bot\<close>

text \<open>A scan ends with a database error, which is logged, or with a panic, which ends the bot.\<close>

datatype scan_exit = ScanError sql_error | ScanPanic string

type_synonym 'w scan_world = "(db \<times> 'w) \<times> registry"

definition over_world :: "('n, 'e, 'a) wprog \<Rightarrow> ('n scan_world, 'e, 'a) sprog" where
  "over_world m w = (case m (fst w) of (r, w') \<Rightarrow> (r, (w', snd w)))"

definition fetch_timed_out_txn :: "(scan_exit, timed_out_transaction list) prog" where
  "fetch_timed_out_txn =
     andThen (sql ScanError timed_out_stmt) (\<lambda>row.
       case row of
         None \<Rightarrow> ret []
       | Some r \<Rightarrow>
           (case ChainId_try_from (v_chain_id r) of
              Inl e \<Rightarrow> throw (ScanPanic ''called `Result::unwrap()` on an `Err` value'')
            | Inr c \<Rightarrow> ret [\<lparr>to_execution_id = v_execution_id r, to_txn_hash = v_tx_hash r, to_chain_id = c\<rparr>]))"

fun group_by_chain ::
  "timed_out_transaction list \<Rightarrow> (chain_id \<times> timed_out_transaction list) list \<Rightarrow> (chain_id \<times> timed_out_transaction list) list" where
  "group_by_chain [] by_chain_id = by_chain_id"
| "group_by_chain (tx # txns) by_chain_id =
     group_by_chain txns
       (AList.update (to_chain_id tx)
          ((case map_of by_chain_id (to_chain_id tx) of None \<Rightarrow> [] | Some txs \<Rightarrow> txs) @ [tx]) by_chain_id)"

definition choose_provider :: "('p \<times> bool) list \<Rightarrow> 'p option" where
  "choose_provider endpoints =
     (case find snd endpoints of
        Some entry \<Rightarrow> Some (fst entry)
      | None \<Rightarrow> (case endpoints of [] \<Rightarrow> None | entry # _ \<Rightarrow> Some (fst entry)))"

definition update_state :: "(tx_hash \<Rightarrow> string) \<Rightarrow> timed_out_transaction \<Rightarrow> validation_state \<Rightarrow> registry \<Rightarrow> registry" where
  "update_state debug_hash txn new_state state =
     (let put = (\<lambda>status. if registry_get (to_execution_id txn) state \<noteq> None
                           then registry_set (to_execution_id txn) status state else state) in
      case new_state of
        V_Included \<Rightarrow> put (ConfirmedOnChain (debug_hash (to_txn_hash txn)))
      | V_NotIncluded \<Rightarrow> put (Failed ''validation'' ''txn reverted on chain'')
      | _ \<Rightarrow> state)"

definition process_txn ::
  "('p, 'w) alloy_provider \<Rightarrow> (tx_hash \<Rightarrow> string) \<Rightarrow> timed_out_transaction \<Rightarrow> 'p \<Rightarrow> ('w scan_world, sql_error, unit) sprog" where
  "process_txn pv debug_hash txn provider =
     andThen (attempt (over_world (rpc_call (pv_get_transaction_receipt pv provider (to_txn_hash txn))))) (\<lambda>receipt_option.
       case receipt_option of
         Inl e \<Rightarrow> ret ()
       | Inr None \<Rightarrow> ret ()
       | Inr (Some receipt) \<Rightarrow>
           (let new_state = (if rcpt_status receipt then V_Included else V_NotIncluded) in
            andThen (over_world (on_db (sql id (scan_update_stmt (to_execution_id txn) new_state)))) (\<lambda>_ w.
              (Inr (), (fst w, update_state debug_hash txn new_state (snd w))))))"

fun process_txns ::
  "('p, 'w) alloy_provider \<Rightarrow> (tx_hash \<Rightarrow> string) \<Rightarrow> 'p \<Rightarrow> timed_out_transaction list \<Rightarrow> 'w scan_world \<Rightarrow> 'w scan_world" where
  "process_txns pv debug_hash provider [] w = w"
| "process_txns pv debug_hash provider (txn # txns) w =
     process_txns pv debug_hash provider txns (snd (process_txn pv debug_hash txn provider w))"

definition process_chain ::
  "(chain_id \<Rightarrow> ('p \<times> bool) list option) \<Rightarrow> ('p, 'w) alloy_provider \<Rightarrow> (tx_hash \<Rightarrow> string) \<Rightarrow>
   chain_id \<times> timed_out_transaction list \<Rightarrow> 'w scan_world \<Rightarrow> 'w scan_world" where
  "process_chain rpc pv debug_hash entry w =
     (case rpc (fst entry) of
        None \<Rightarrow> w
      | Some endpoints \<Rightarrow>
          (case choose_provider endpoints of
             None \<Rightarrow> w
           | Some provider \<Rightarrow> process_txns pv debug_hash provider (snd entry) w))"

text \<open>The chains are processed by concurrent tasks; a scan never has more than one (lemma \<open>fetch_one\<close>).\<close>

definition scanner_handler ::
  "(chain_id \<Rightarrow> ('p \<times> bool) list option) \<Rightarrow> ('p, 'w) alloy_provider \<Rightarrow> (tx_hash \<Rightarrow> string) \<Rightarrow>
   ('w scan_world, scan_exit, unit) sprog" where
  "scanner_handler rpc pv debug_hash =
     andThen (over_world (on_db fetch_timed_out_txn)) (\<lambda>timed_out_txn.
       if timed_out_txn = [] then ret ()
       else (\<lambda>w. (Inr (), fold (process_chain rpc pv debug_hash) (group_by_chain timed_out_txn []) w)))"

definition scan_pause :: "'w scan_world \<Rightarrow> 'w scan_world" where
  "scan_pause w = ((elapse (nat (seconds 30)) (db_script (fst (fst w))) (fst (fst w)), snd (fst w)), snd w)"

fun scanner_ticks ::
  "nat \<Rightarrow> (chain_id \<Rightarrow> ('p \<times> bool) list option) \<Rightarrow> ('p, 'w) alloy_provider \<Rightarrow> (tx_hash \<Rightarrow> string) \<Rightarrow> 'w scan_world \<Rightarrow>
   (scan_exit + unit) list \<times> 'w scan_world" where
  "scanner_ticks 0 rpc pv debug_hash w = ([], w)"
| "scanner_ticks (Suc n) rpc pv debug_hash w =
     (case scanner_handler rpc pv debug_hash w of
        (Inl (ScanPanic m), w1) \<Rightarrow> ([Inl (ScanPanic m)], w1)
      | (r, w1) \<Rightarrow> (case scanner_ticks n rpc pv debug_hash (scan_pause w1) of (rs, w2) \<Rightarrow> (r # rs, w2)))"


section \<open>The row a scan takes\<close>

lemma timed_out_executions:
  "sorted (timed_out_executions rows)" "set (timed_out_executions rows) = v_execution_id ` {r \<in> set rows. timed_out r}"
  by (auto simp: timed_out_executions_def)

lemma scan_target_eq:
  "scan_target rows =
     (case timed_out_executions rows of [] \<Rightarrow> None | e # _ \<Rightarrow> latest_row v_execution_id v_revision timed_out e rows)"
proof (cases "timed_out_executions rows")
  case Nil
  then show ?thesis by (simp add: scan_target_def timed_out_rows_def List.map_filter_simps)
next
  case (Cons e es)
  then have "e \<in> v_execution_id ` {r \<in> set rows. timed_out r}" using timed_out_executions(2) by (metis list.set_intros(1))
  then have "latest_row v_execution_id v_revision timed_out e rows \<noteq> None" by (auto simp: latest_row_None)
  with Cons show ?thesis
    by (auto simp: scan_target_def timed_out_rows_def List.map_filter_simps)
qed

lemma scan_target_Some:
  assumes "scan_target rows = Some r"
  shows "r \<in> set rows" "timed_out r" "\<And>r'. r' \<in> set rows \<Longrightarrow> timed_out r' \<Longrightarrow> v_execution_id r \<le> v_execution_id r'"
    "\<And>r'. r' \<in> set rows \<Longrightarrow> timed_out r' \<Longrightarrow> v_execution_id r' = v_execution_id r \<Longrightarrow> v_revision r' \<le> v_revision r"
proof -
  obtain e es where es: "timed_out_executions rows = e # es"
    and latest: "latest_row v_execution_id v_revision timed_out e rows = Some r"
    using assms by (auto simp: scan_target_eq split: list.splits)
  note row = latest_row_Some [OF latest]
  show "r \<in> set rows" "timed_out r" using row by auto
  show "v_revision r' \<le> v_revision r" if "r' \<in> set rows" "timed_out r'" "v_execution_id r' = v_execution_id r" for r'
    using row(2,4) that by simp
  show "v_execution_id r \<le> v_execution_id r'" if "r' \<in> set rows" "timed_out r'" for r'
  proof -
    have "v_execution_id r' \<in> set (e # es)" using that timed_out_executions(2) [of rows] es by auto
    moreover have "sorted (e # es)" using timed_out_executions(1) [of rows] es by simp
    ultimately show ?thesis using row(2) by auto
  qed
qed

lemma scan_target_None: "scan_target rows = None \<longleftrightarrow> (\<forall>r \<in> set rows. \<not> timed_out r)"
proof
  assume none: "scan_target rows = None"
  show "\<forall>r \<in> set rows. \<not> timed_out r"
  proof (rule ccontr)
    assume "\<not> ?thesis"
    then have "set (timed_out_executions rows) \<noteq> {}" unfolding timed_out_executions(2) by blast
    then obtain e es where es: "timed_out_executions rows = e # es" by (cases "timed_out_executions rows") auto
    then have "e \<in> v_execution_id ` {r \<in> set rows. timed_out r}" using timed_out_executions(2) by (metis list.set_intros(1))
    then have "latest_row v_execution_id v_revision timed_out e rows \<noteq> None" by (auto simp: latest_row_None)
    with none es show False by (simp add: scan_target_eq)
  qed
qed (use scan_target_Some(1,2) in \<open>metis not_None_eq\<close>)


section \<open>What a scan does\<close>

lemma fetch_one: "fst (fetch_timed_out_txn d) = Inr txns \<Longrightarrow> length txns \<le> 1"
  by (auto simp: fetch_timed_out_txn_def andThen_def ret_def throw_def split: prod.splits sum.splits option.splits)

lemma group_one: "group_by_chain [txn] [] = [(to_chain_id txn, [txn])]"
  by simp

lemma scanner_handler_quiet:
  assumes "quiet d" "scan_target (validation_requests d) = Some r" "0 \<le> v_chain_id r"
  shows "scanner_handler rpc pv debug_hash ((d, n), reg) =
     (Inr (), process_chain rpc pv debug_hash (ChainId (word_of_int (v_chain_id r)),
        [\<lparr>to_execution_id = v_execution_id r, to_txn_hash = v_tx_hash r, to_chain_id = ChainId (word_of_int (v_chain_id r))\<rparr>]) ((d, n), reg))"
  using assms
  by (simp add: scanner_handler_def over_world_def fetch_timed_out_txn_def engine_simps timed_out_stmt_def ChainId_try_from_def)

lemma scan_update_keeps [invariant_intros]:
  assumes "s \<noteq> V_Pending"
  shows "stmt_keeps validator_inv (scan_update_stmt e s)"
  using assms vl.update_keeps_inv [of "db_clock d" "validation_requests d" "(db_clock d, s)" for d]
  by (auto simp: stmt_keeps_def scan_update_stmt_def validator_inv_def v_pending_def set_validation_state_def
      split: option.splits)

text \<open>
  The endpoint a scan is to ask about a chain: the first healthy one of the pool, and when all are
  unhealthy simply the first.
\<close>

definition asked_provider :: "(chain_id \<Rightarrow> ('p \<times> bool) list option) \<Rightarrow> validation_row \<Rightarrow> 'p option" where
  "asked_provider rpc r =
     (case rpc (ChainId (word_of_int (v_chain_id r))) of
        None \<Rightarrow> None
      | Some endpoints \<Rightarrow>
          (case map fst (filter snd endpoints) @ map fst endpoints of [] \<Rightarrow> None | p # _ \<Rightarrow> Some p))"

lemma choose_provider_first:
  "choose_provider endpoints = (case map fst (filter snd endpoints) @ map fst endpoints of [] \<Rightarrow> None | p # _ \<Rightarrow> Some p)"
proof -
  have "find P xs = (case filter P xs of [] \<Rightarrow> None | x # _ \<Rightarrow> Some x)" for P and xs :: "('a \<times> bool) list"
    by (induction xs) auto
  then show ?thesis by (auto simp: choose_provider_def split: list.splits)
qed

lemma asked_provider_eq:
  "asked_provider rpc r =
     (case rpc (ChainId (word_of_int (v_chain_id r))) of None \<Rightarrow> None | Some endpoints \<Rightarrow> choose_provider endpoints)"
  unfolding asked_provider_def choose_provider_first ..

text \<open>
  C37. The complete outcome of a scan of an undisturbed store. It takes at most one transaction, that of the latest
  timed-out row of the smallest execution with one, and asks one endpoint of its chain: the first healthy one of the
  pool, or the first when none is healthy. Only when the endpoint returns a receipt
  does anything change: the execution's latest row, whatever its state, is settled as included or not included by the receipt's
  status, and the registry is told if it knows the execution.
\<close>
theorem scan_outcome:
  assumes "quiet d" "\<forall>r \<in> set (validation_requests d). 0 \<le> v_chain_id r"
    and "scanner_handler rpc pv debug_hash ((d, n), reg) = (res, ((d', n'), reg'))"
  shows "res = Inr () \<and>
    (case scan_target (validation_requests d) of
       None \<Rightarrow> (\<forall>r \<in> set (validation_requests d). v_state r \<noteq> V_TimedOut) \<and> ((d', n'), reg') = ((d, n), reg)
     | Some r \<Rightarrow>
         r \<in> set (validation_requests d) \<and> v_state r = V_TimedOut \<and>
         (\<forall>r' \<in> set (validation_requests d). v_state r' = V_TimedOut \<longrightarrow> v_execution_id r \<le> v_execution_id r') \<and>
         (\<forall>r' \<in> set (validation_requests d).
            v_state r' = V_TimedOut \<and> v_execution_id r' = v_execution_id r \<longrightarrow> v_revision r' \<le> v_revision r) \<and>
         (case asked_provider rpc r of
            None \<Rightarrow> ((d', n'), reg') = ((d, n), reg)
          | Some p \<Rightarrow>
              (case pv_get_transaction_receipt pv p (v_tx_hash r) n of
                 (Inr (Some receipt), k, n1) \<Rightarrow>
                   (let e = v_execution_id r; new_state = (if rcpt_status receipt then V_Included else V_NotIncluded) in
                    n' = n1 \<and>
                    (\<exists>t. latest_row v_execution_id v_revision (\<lambda>_. True) e (validation_requests d) = Some t \<and>
                       validation_requests d' = update_row v_execution_id v_revision (e, v_revision t)
                         (set_validation_state (db_clock d + int k, new_state)) (validation_requests d)) \<and>
                    reg' = (if registry_get e reg = None then reg
                            else registry_set e (if rcpt_status receipt then ConfirmedOnChain (debug_hash (v_tx_hash r))
                                                 else Failed ''validation'' ''txn reverted on chain'') reg))
               | (_, k, n1) \<Rightarrow> n' = n1 \<and> validation_requests d' = validation_requests d \<and> reg' = reg)))"
proof (cases "scan_target (validation_requests d)")
  case None
  with assms(1,3) show ?thesis
    using scan_target_None [of "validation_requests d"]
    by (auto simp: scanner_handler_def over_world_def fetch_timed_out_txn_def engine_simps timed_out_stmt_def timed_out_def)
next
  case (Some r)
  note row = scan_target_Some [OF Some]
  have "0 \<le> v_chain_id r" using assms(2) row(1) by blast
  note run = assms(3) [unfolded scanner_handler_quiet [OF assms(1) Some this]]
  obtain t where t: "latest_row v_execution_id v_revision (\<lambda>_. True) (v_execution_id r) (validation_requests d) = Some t"
    using latest_row_None [of v_execution_id v_revision "\<lambda>_. True" "v_execution_id r" "validation_requests d"] row(1) by fastforce
  have key: "v_execution_id t = v_execution_id r" using latest_row_Some(2) [OF t] .
  have quiet: "quiet (elapse k (db_script d) d)" for k using assms(1) by (simp add: quiet_def elapse_def)
  show ?thesis
    using run row t quiet
    by (auto simp: Some asked_provider_eq process_chain_def process_txn_def over_world_def engine_simps scan_update_stmt_def
        elapse_def key update_state_def timed_out_def Let_def split: option.splits prod.splits sum.splits if_splits)
qed

lemma fetch_rows:
  assumes "fetch_timed_out_txn d = (res, d1)"
  shows "validation_requests d1 = validation_requests d"
    "res = Inr txns \<Longrightarrow> txn \<in> set txns \<Longrightarrow> scan_target (validation_requests d) = Some r \<Longrightarrow> to_txn_hash txn = v_tx_hash r"
  using assms
  by (auto simp: fetch_timed_out_txn_def andThen_def sql_def ret_def throw_def run_stmt_def timed_out_stmt_def elapse_def Let_def
      split: prod.splits sum.splits option.splits db_fault.splits)

lemma process_txns_idle:
  assumes "\<And>txn p n receipt. txn \<in> set txns \<Longrightarrow> fst (pv_get_transaction_receipt pv p (to_txn_hash txn) n) \<noteq> Inr (Some receipt)"
  shows "validation_requests (fst (fst (process_txns pv debug_hash p txns w))) = validation_requests (fst (fst w)) \<and>
    snd (process_txns pv debug_hash p txns w) = snd w"
  using assms
proof (induction txns arbitrary: w)
  case (Cons txn txns)
  obtain answer k n1 where rpc: "pv_get_transaction_receipt pv p (to_txn_hash txn) (snd (fst w)) = (answer, k, n1)"
    by (metis prod.collapse)
  then have "answer \<noteq> Inr (Some receipt)" for receipt using Cons.prems [of txn p "snd (fst w)" receipt] by simp
  then have "validation_requests (fst (fst (snd (process_txn pv debug_hash txn p w)))) = validation_requests (fst (fst w))"
    "snd (snd (process_txn pv debug_hash txn p w)) = snd w"
    using rpc by (auto simp: process_txn_def over_world_def engine_simps elapse_def split: sum.splits option.splits)
  with Cons show ?case by simp
qed simp

lemma process_chain_idle:
  assumes "\<And>p n receipt. fst (pv_get_transaction_receipt pv p (to_txn_hash txn) n) \<noteq> Inr (Some receipt)"
  shows "validation_requests (fst (fst (process_chain rpc pv debug_hash (c, [txn]) w))) = validation_requests (fst (fst w)) \<and>
    snd (process_chain rpc pv debug_hash (c, [txn]) w) = snd w"
proof -
  have "validation_requests (fst (fst (process_txns pv debug_hash p [txn] w))) = validation_requests (fst (fst w)) \<and>
    snd (process_txns pv debug_hash p [txn] w) = snd w" for p
    by (rule process_txns_idle) (use assms in auto)
  then show ?thesis unfolding process_chain_def by (simp del: process_txns.simps split: option.splits)
qed

lemma handler_of_fetch:
  assumes "fetch_timed_out_txn (fst (fst w)) = (res, d1)"
  shows "snd (scanner_handler rpc pv debug_hash w) =
    (case res of Inr (txn # txns) \<Rightarrow> fold (process_chain rpc pv debug_hash) (group_by_chain (txn # txns) []) ((d1, snd (fst w)), snd w)
     | _ \<Rightarrow> ((d1, snd (fst w)), snd w))"
  unfolding scanner_handler_def over_world_def andThen_def on_db_def assms
  by (simp add: ret_def split: sum.splits list.splits)

lemma scan_idle:
  assumes "scan_target (validation_requests (fst (fst w))) = Some r"
    and "\<And>p n receipt. fst (pv_get_transaction_receipt pv p (v_tx_hash r) n) \<noteq> Inr (Some receipt)"
  shows "validation_requests (fst (fst (snd (scanner_handler rpc pv debug_hash w)))) = validation_requests (fst (fst w)) \<and>
    snd (snd (scanner_handler rpc pv debug_hash w)) = snd w"
proof -
  obtain res d1 where fetch: "fetch_timed_out_txn (fst (fst w)) = (res, d1)" by fastforce
  note rows = fetch_rows [OF fetch]
  show ?thesis
  proof (cases "\<exists>txn. res = Inr [txn]")
    case True
    then obtain txn where txn: "res = Inr [txn]" ..
    then have "to_txn_hash txn = v_tx_hash r" using rows(2) assms(1) by simp
    then have "fst (pv_get_transaction_receipt pv p (to_txn_hash txn) n) \<noteq> Inr (Some receipt)" for p n receipt
      using assms(2) by simp
    from process_chain_idle [of pv txn, OF this] rows(1) show ?thesis
      unfolding handler_of_fetch [OF fetch] txn by simp
  next
    case False
    moreover have "length txns \<le> 1" if "res = Inr txns" for txns using fetch_one [of "fst (fst w)" txns] fetch that by simp
    ultimately have "res = Inr [] \<or> (\<exists>e. res = Inl e)"
      by (cases res) (auto simp: le_Suc_eq length_Suc_conv)
    then show ?thesis unfolding handler_of_fetch [OF fetch] using rows(1) by auto
  qed
qed

text \<open>
  C38. A scan that finds no receipt for the transaction it takes starves all others: as long as no endpoint returns a receipt
  for the transaction of the smallest timed-out execution, no number of ticks, whatever the database and the
  network do, changes a validation or a status, though other timed-out transactions may have been included.
\<close>
theorem scan_starves:
  assumes "scan_target (validation_requests (fst (fst w))) = Some r"
    and "\<And>p n receipt. fst (pv_get_transaction_receipt pv p (v_tx_hash r) n) \<noteq> Inr (Some receipt)"
  shows "validation_requests (fst (fst (snd (scanner_ticks k rpc pv debug_hash w)))) = validation_requests (fst (fst w)) \<and>
    snd (snd (scanner_ticks k rpc pv debug_hash w)) = snd w"
  using assms(1)
proof (induction k arbitrary: w)
  case 0
  then show ?case by simp
next
  case (Suc k)
  let ?run = "scanner_handler rpc pv debug_hash w"
  note idle = scan_idle [OF Suc.prems assms(2), of rpc debug_hash]
  have "scan_target (validation_requests (fst (fst (scan_pause (snd ?run))))) = Some r"
    using idle Suc.prems by (simp add: scan_pause_def elapse_def)
  from Suc.IH [OF this] idle show ?case
    by (auto simp: scan_pause_def elapse_def split: prod.splits sum.splits scan_exit.splits)
qed


section \<open>Witnesses\<close>

definition sample_timed_out :: "execution_id \<Rightarrow> tx_hash \<Rightarrow> validation_row" where
  "sample_timed_out e h = (new_validation_row 0 e 1 h 1)\<lparr>v_state := V_TimedOut\<rparr>"

definition sample_scan_db :: db where
  "sample_scan_db = init_db\<lparr>validation_requests := [sample_timed_out 5 50, sample_timed_out 3 30]\<rparr>"

definition fresh_registry :: registry where
  "fresh_registry = \<lparr>status_book = (\<lambda>_. None), spawned = []\<rparr>"

text \<open>A node that has included one transaction.\<close>

definition sample_scan_provider :: "tx_hash \<Rightarrow> (string, nat) alloy_provider" where
  "sample_scan_provider included =
     \<lparr>pv_send_raw_transaction = (\<lambda>p bs n. (Inr 99, 5, Suc n)), pv_get_transaction_count_pending = (\<lambda>p a n. (Inr 4, 1, Suc n)),
      pv_get_transaction_receipt = (\<lambda>p h n.
        (Inr (if h = included then Some \<lparr>rcpt_status = True, rcpt_block_number = Some 10\<rparr> else None), 1, Suc n)),
      pv_get_block_number = (\<lambda>p n. (Inr 12, 1, Suc n))\<rparr>"

lemma sample_scan_rows: "validation_requests sample_scan_db = [sample_timed_out 5 50, sample_timed_out 3 30]"
  by (simp add: sample_scan_db_def)

lemma sample_timed_out_simps [simp]:
  "v_execution_id (sample_timed_out e h) = e" "v_revision (sample_timed_out e h) = 1" "v_tx_hash (sample_timed_out e h) = h"
  "v_chain_id (sample_timed_out e h) = 1" "timed_out (sample_timed_out e h)" "v_state (sample_timed_out e h) = V_TimedOut"
  by (simp_all add: sample_timed_out_def new_validation_row_def timed_out_def)

lemma sample_scan_target: "scan_target (validation_requests sample_scan_db) = Some (sample_timed_out 3 30)"
  by (simp add: scan_target_eq timed_out_executions_def sample_scan_rows latest_row_def)

theorem scan_outcome_witness:
  "\<exists>d' n' reg'. scanner_handler (\<lambda>c. Some [(''down'', False), (''node'', True)]) (sample_scan_provider 30) (\<lambda>h. ''0x'')
       ((sample_scan_db, 0), fresh_registry) = (Inr (), ((d', n'), reg')) \<and>
     map v_state (validation_requests d') = [V_TimedOut, V_Included]"
proof -
  obtain res d' n' reg' where run: "scanner_handler (\<lambda>c. Some [(''down'', False), (''node'', True)]) (sample_scan_provider 30) (\<lambda>h. ''0x'')
      ((sample_scan_db, 0), fresh_registry) = (res, ((d', n'), reg'))" by (metis prod.collapse)
  have side: "quiet sample_scan_db" "\<forall>r \<in> set (validation_requests sample_scan_db). 0 \<le> v_chain_id r"
    by (simp_all add: sample_scan_rows) (simp add: sample_scan_db_def quiet_def init_db_def)
  from scan_outcome [OF side run] show ?thesis unfolding run sample_scan_target
    by (auto simp: asked_provider_def sample_scan_provider_def Let_def sample_scan_rows latest_row_def
        update_row_def set_validation_state_def)
qed

theorem scan_starves_witness:
  "validation_requests (fst (fst (snd (scanner_ticks 10 (\<lambda>c. Some [(''node'', True)]) (sample_scan_provider 50) (\<lambda>h. ''0x'')
     ((sample_scan_db, 0), fresh_registry))))) = [sample_timed_out 5 50, sample_timed_out 3 30]"
proof -
  have target: "scan_target (validation_requests (fst (fst ((sample_scan_db, 0 :: nat), fresh_registry)))) = Some (sample_timed_out 3 30)"
    by (simp add: sample_scan_target)
  have "fst (pv_get_transaction_receipt (sample_scan_provider 50) p (v_tx_hash (sample_timed_out 3 30)) n) \<noteq> Inr (Some receipt)"
    for p n receipt
    by (simp add: sample_scan_provider_def)
  from scan_starves [OF target this] show ?thesis by (simp add: sample_scan_rows)
qed

end
