(* ===== verification/Retry_Tests.thy ===== *)
theory Retry_Tests
  imports Retry
begin

text \<open>
  The unit tests of \<^verbatim>\<open>crate/cortex/src/artifacts/retry.rs\<close>. Their operations count their calls in an atomic shared with
  the test, so the number of calls is observable; here the counter is the first component of the state. The tests
  hold for every runtime that leaves the counter alone, whatever it draws and however long it sleeps.
\<close>

section \<open>Operations that count their calls\<close>

definition counted :: "(u32 \<Rightarrow> 'e retry_decision + 'a) \<Rightarrow> (u32 \<times> 't, 'e retry_decision, 'a) sprog" where
  "counted f s = (f (fst s), (fst s + 1, snd s))"

definition leaves_counter :: "(u32 \<times> 't) runtime \<Rightarrow> bool" where
  "leaves_counter rt \<longleftrightarrow> (\<forall>w s. fst (snd (gen_range rt w s)) = fst s) \<and> (\<forall>k s. fst (sleep_for rt k s) = fst s)"

lemma jittered_counter:
  assumes "leaves_counter rt"
  shows "fst (snd (jittered_delay rt base mx a s)) = fst s"
proof -
  have "fst (snd (gen_range rt w s)) = fst s" for w using assms by (cases s) (simp add: leaves_counter_def)
  then show ?thesis by (auto simp: jittered_delay_def Let_def split: prod.splits) (metis fst_conv snd_conv)
qed

lemma attempt_counted:
  assumes "leaves_counter rt"
  shows "fst (attempt_state rt cfg (counted f) k (c, t)) = c + of_nat k"
proof (induction k)
  case 0
  then show ?case by simp
next
  case (Suc k)
  let ?s = "snd (counted f (attempt_state rt cfg (counted f) k (c, t)))"
  obtain delay s2 where d: "jittered_delay rt (base_delay cfg) (max_delay cfg) (of_nat (Suc k)) ?s = (delay, s2)" by (rule prod.exhaust)
  then have "fst s2 = fst ?s" using jittered_counter [OF assms] by (metis snd_conv)
  moreover have "fst (sleep_for rt delay s2) = fst s2" using assms by (cases s2) (simp add: leaves_counter_def)
  moreover have "fst ?s = fst (attempt_state rt cfg (counted f) k (c, t)) + 1" by (simp add: counted_def)
  ultimately have "fst (sleep_for rt delay s2) = c + of_nat (Suc k)" using Suc.IH by simp
  then show ?case by (simp only: attempt_state.simps d prod.case)
qed

text \<open>The number of calls is the number of the decisive attempt.\<close>

lemma counted_outcome:
  assumes "max_attempts cfg \<noteq> - 1" "leaves_counter rt"
  obtains n t' where "n \<le> unat (max_attempts cfg)" "\<forall>j < n. asks_retry (f (of_nat j))"
    "asks_retry (f (of_nat n)) \<Longrightarrow> n = unat (max_attempts cfg)"
    "retry_with_backoff rt cfg (counted f) (0, t) = (Inr (strip_decision (f (of_nat n))), (of_nat n + 1, t'))"
proof -
  have calls: "counted f (attempt_state rt cfg (counted f) k (0, t)) =
      (f (of_nat k), (of_nat k + 1, snd (attempt_state rt cfg (counted f) k (0, t))))" for k
    by (simp add: counted_def attempt_counted [OF assms(2)])
  from retry_loop_spec [of "unat (max_attempts cfg + 1)" 0 "max_attempts cfg + 1" "counted f" rt cfg "(0, t)"]
  show ?thesis
    unfolding calls using that by (auto simp: retry_with_backoff_def wrap_at_max [OF assms(1)] less_Suc_eq_le)
qed


section \<open>The tests\<close>

datatype test_error = Failuire | First

definition test_cfg :: retry_config where
  "test_cfg = \<lparr>max_attempts = 2, base_delay = from_millis 1, max_delay = from_millis 5\<rparr>"

definition always_fail :: "u32 \<Rightarrow> test_error retry_decision + unit" where
  "always_fail n = Inl (Retry Failuire)"

definition succeed_second :: "u32 \<Rightarrow> test_error retry_decision + u32" where
  "succeed_second n = (if n = 0 then Inl (Retry First) else Inr 42)"

definition not_retryable :: "u32 \<Rightarrow> test_error retry_decision + unit" where
  "not_retryable n = Inl (FailImmediately Failuire)"

lemma retries_correct_number_of_times:
  assumes "leaves_counter rt"
  shows "\<exists>t'. retry_with_backoff rt test_cfg (counted always_fail) (0, t) = (Inr (Inl Failuire), (3, t'))"
proof -
  have "max_attempts test_cfg \<noteq> - 1" by (simp add: test_cfg_def)
  from counted_outcome [OF this assms, of always_fail t] show ?thesis
    by (auto simp: test_cfg_def always_fail_def asks_retry_def strip_decision_def)
qed

lemma succeeds_on_second_attempt:
  assumes "leaves_counter rt"
  shows "\<exists>t'. retry_with_backoff rt test_cfg (counted succeed_second) (0, t) = (Inr (Inr 42), (2, t'))"
proof -
  have "max_attempts test_cfg \<noteq> - 1" by (simp add: test_cfg_def)
  from counted_outcome [OF this assms, of succeed_second t] obtain n t' where
    n: "n \<le> 2" "\<forall>j < n. asks_retry (succeed_second (of_nat j))" "asks_retry (succeed_second (of_nat n)) \<Longrightarrow> n = 2"
    and run: "retry_with_backoff rt test_cfg (counted succeed_second) (0, t) =
      (Inr (strip_decision (succeed_second (of_nat n))), (of_nat n + 1, t'))"
    by (auto simp: test_cfg_def)
  have "n = 1"
  proof -
    have "n = 0 \<Longrightarrow> n = 2" using n(3) by (simp add: succeed_second_def asks_retry_def)
    moreover have "n \<noteq> 2" using n(2) by (auto simp: succeed_second_def asks_retry_def dest: spec [of _ 1])
    ultimately show ?thesis using n(1) by linarith
  qed
  with run show ?thesis by (simp add: succeed_second_def strip_decision_def)
qed

lemma fail_immediately:
  assumes "leaves_counter rt"
  shows "\<exists>t'. retry_with_backoff rt RetryConfig_default (counted not_retryable) (0, t) = (Inr (Inl Failuire), (1, t'))"
proof -
  have "max_attempts RetryConfig_default \<noteq> - 1" by (simp add: RetryConfig_default_def)
  from counted_outcome [OF this assms, of not_retryable t] obtain n t' where
    "\<forall>j < n. asks_retry (not_retryable (of_nat j))"
    and run: "retry_with_backoff rt RetryConfig_default (counted not_retryable) (0, t) =
      (Inr (strip_decision (not_retryable (of_nat n))), (of_nat n + 1, t'))" .
  then have "n = 0" by (auto simp: not_retryable_def asks_retry_def)
  with run show ?thesis by (simp add: not_retryable_def strip_decision_def)
qed

end
