(* ===== verification/Mock_Node.thy ===== *)
theory Mock_Node
  imports Delivery
begin

text \<open>
  The mock node of the benchmark, \<^verbatim>\<open>benchmark/src/mockrpc\<close>: one server per chain that counts the transactions of
  every address and keeps a receipt for each accepted one. The JSON of the requests, the decoding of a
  transaction envelope and the parser of addresses are parameters. A map of \<open>dashmap\<close> holds the lock of an entry while
  the compare-and-swap loop runs, so the exchange fails only spuriously; the list of booleans says how often.
  Counters are \<open>u64\<close> and wrap.
\<close>

section \<open>The state of a chain\<close>

definition BLOCK_NUMBER :: u64 where
  "BLOCK_NUMBER = 18000000"

datatype nonce_update_outcome = NonceAdvanced u64 | Mock_NonceTooLow

record static_receipt =
  sr_status :: bool
  sr_cumulative_gas_used :: u64
  sr_transaction_hash :: tx_hash
  sr_transaction_index :: "u64 option"
  sr_block_hash :: "tx_hash option"
  sr_block_number :: "u64 option"
  sr_gas_used :: u64
  sr_effective_gas_price :: nat
  sr_from :: address
  sr_to :: "address option"

definition gen_receipt :: "address \<Rightarrow> tx_hash \<Rightarrow> static_receipt" where
  "gen_receipt recipient tx_hash =
     \<lparr>sr_status = True, sr_cumulative_gas_used = 21000, sr_transaction_hash = tx_hash, sr_transaction_index = Some 1,
      sr_block_hash = Some 0, sr_block_number = Some BLOCK_NUMBER, sr_gas_used = 21000, sr_effective_gas_price = 1000000000,
      sr_from = recipient, sr_to = Some 0\<rparr>"

record chain_state =
  nonce_collection :: "address \<rightharpoonup> u64"
  receipt_collection :: "tx_hash \<rightharpoonup> static_receipt"

definition ChainState_new :: "address list \<Rightarrow> chain_state" where
  "ChainState_new addresses =
     \<lparr>nonce_collection = fold (\<lambda>a m. m(a \<mapsto> 0)) addresses Map.empty, receipt_collection = Map.empty\<rparr>"

definition update_receipt :: "address \<Rightarrow> tx_hash \<Rightarrow> chain_state \<Rightarrow> chain_state" where
  "update_receipt recipient tx_hash cs =
     cs\<lparr>receipt_collection := (receipt_collection cs)(tx_hash \<mapsto> gen_receipt recipient tx_hash)\<rparr>"

text \<open>\<open>entry(address).or_insert_with(0)\<close>.\<close>

definition nonce_entry :: "address \<Rightarrow> chain_state \<Rightarrow> u64 \<times> chain_state" where
  "nonce_entry address cs =
     (case nonce_collection cs address of
        Some n \<Rightarrow> (n, cs)
      | None \<Rightarrow> (0, cs\<lparr>nonce_collection := (nonce_collection cs)(address \<mapsto> 0)\<rparr>))"

definition get_pending_nonce :: "address \<Rightarrow> chain_state \<Rightarrow> u64 \<times> chain_state" where
  "get_pending_nonce address cs = (case nonce_entry address cs of (n, cs1) \<Rightarrow> (n + 1, cs1))"

fun advance_loop :: "bool list \<Rightarrow> u64 \<Rightarrow> u64 \<Rightarrow> nonce_update_outcome \<times> u64" where
  "advance_loop spurious nonce_rlp current_nonce =
     (if nonce_rlp < current_nonce then (Mock_NonceTooLow, current_nonce)
      else case spurious of
          True # spurious' \<Rightarrow> advance_loop spurious' nonce_rlp current_nonce
        | _ \<Rightarrow> (NonceAdvanced current_nonce, current_nonce + 1))"

definition update_nonce :: "bool list \<Rightarrow> address \<Rightarrow> u64 \<Rightarrow> chain_state \<Rightarrow> nonce_update_outcome \<times> chain_state" where
  "update_nonce spurious address nonce_rlp cs =
     (case nonce_entry address cs of (current_nonce, cs1) \<Rightarrow>
        (case advance_loop spurious nonce_rlp current_nonce of (outcome, n) \<Rightarrow>
           (outcome, cs1\<lparr>nonce_collection := (nonce_collection cs1)(address \<mapsto> n)\<rparr>)))"

definition fetch_receipt :: "tx_hash \<Rightarrow> chain_state \<Rightarrow> static_receipt option" where
  "fetch_receipt tx_hash cs = receipt_collection cs tx_hash"

text \<open>One state per chain.\<close>

definition RpcAppState_new :: "u64 list \<Rightarrow> address list \<Rightarrow> (u64 \<rightharpoonup> chain_state)" where
  "RpcAppState_new chain_ids addresses = fold (\<lambda>c m. m(c \<mapsto> ChainState_new addresses)) chain_ids Map.empty"


section \<open>The handlers\<close>

record envelope =
  env_nonce :: u64
  env_signer :: "address option"
  env_hash :: tx_hash

record 'v mock_crates =
  mc_null :: 'v
  mc_send_params :: "'v \<Rightarrow> bytes list option"
  mc_receipt_params :: "'v \<Rightarrow> tx_hash list option"
  mc_count_params :: "'v \<Rightarrow> (string \<times> string) option"
  mc_decode_2718 :: "bytes \<Rightarrow> envelope option"
  mc_address :: "string \<Rightarrow> string + address"
  mc_recipient :: address

datatype rpc_result =
    Res_TxHash tx_hash
  | Res_ReceiptFound static_receipt
  | Res_ReceiptNotFound
  | Res_BlockNumber u64
  | Res_PendingNonce u64

record 'v rpc_response =
  rr_jsonrpc :: string
  rr_result :: "rpc_result option"
  rr_error :: "(int \<times> string) option"
  rr_id :: "'v option"

definition rpc_success :: "'v option \<Rightarrow> rpc_result \<Rightarrow> 'v rpc_response" where
  "rpc_success rid result = \<lparr>rr_jsonrpc = ''2.0'', rr_result = Some result, rr_error = None, rr_id = rid\<rparr>"

definition rpc_error :: "'v option \<Rightarrow> int \<Rightarrow> string \<Rightarrow> 'v rpc_response" where
  "rpc_error rid code message = \<lparr>rr_jsonrpc = ''2.0'', rr_result = None, rr_error = Some (code, message), rr_id = rid\<rparr>"

definition method_not_found :: "'v option \<Rightarrow> 'v rpc_response" where
  "method_not_found rid = rpc_error rid (-32601) ''Method not found''"

definition invalid_params :: "'v option \<Rightarrow> string \<Rightarrow> 'v rpc_response" where
  "invalid_params rid message = rpc_error rid (-32602) message"

definition handle_send_raw_transaction ::
  "'v mock_crates \<Rightarrow> bool list \<Rightarrow> 'v option \<Rightarrow> 'v option \<Rightarrow> chain_state \<Rightarrow> 'v rpc_response \<times> chain_state" where
  "handle_send_raw_transaction mc spurious params rid cs =
     (case mc_send_params mc (case params of None \<Rightarrow> mc_null mc | Some v \<Rightarrow> v) of
        Some (raw_bytes # _) \<Rightarrow>
          (case mc_decode_2718 mc raw_bytes of
             None \<Rightarrow> (invalid_params rid ''Invalid RLP encoding for eth_sendRawTransaction params'', cs)
           | Some envelope \<Rightarrow>
               (case env_signer envelope of
                  None \<Rightarrow> (invalid_params rid ''Failed to recover signature'', cs)
                | Some sender \<Rightarrow>
                    (case update_nonce spurious sender (env_nonce envelope) cs of
                       (NonceAdvanced _, cs1) \<Rightarrow>
                         (rpc_success rid (Res_TxHash (env_hash envelope)), update_receipt (mc_recipient mc) (env_hash envelope) cs1)
                     | (Mock_NonceTooLow, cs1) \<Rightarrow> (rpc_error rid (-32000) ''nonce too low'', cs1))))
      | _ \<Rightarrow> (invalid_params rid ''Invalid sendRawTransaction params.'', cs))"

definition handle_get_transaction_receipt ::
  "'v mock_crates \<Rightarrow> 'v option \<Rightarrow> 'v option \<Rightarrow> chain_state \<Rightarrow> 'v rpc_response" where
  "handle_get_transaction_receipt mc params rid cs =
     (case mc_receipt_params mc (case params of None \<Rightarrow> mc_null mc | Some v \<Rightarrow> v) of
        Some (tx_hash # _) \<Rightarrow>
          (case fetch_receipt tx_hash cs of
             Some receipt \<Rightarrow> rpc_success rid (Res_ReceiptFound receipt)
           | None \<Rightarrow> rpc_success rid Res_ReceiptNotFound)
      | _ \<Rightarrow> invalid_params rid ''Invalid GetTransactionReceipt params.'')"

definition handle_get_block_number :: "'v option \<Rightarrow> 'v rpc_response" where
  "handle_get_block_number rid = rpc_success rid (Res_BlockNumber BLOCK_NUMBER)"

definition handle_get_transaction_count ::
  "'v mock_crates \<Rightarrow> 'v option \<Rightarrow> 'v option \<Rightarrow> chain_state \<Rightarrow> 'v rpc_response \<times> chain_state" where
  "handle_get_transaction_count mc params rid cs =
     (case mc_count_params mc (case params of None \<Rightarrow> mc_null mc | Some v \<Rightarrow> v) of
        Some (address_str, block_tag) \<Rightarrow>
          (case mc_address mc address_str of
             Inl e \<Rightarrow> (invalid_params rid (''Invalid from Address: '' @ e), cs)
           | Inr sender \<Rightarrow>
               (case get_pending_nonce sender cs of
                  (pending_nonce, cs1) \<Rightarrow> (rpc_success rid (Res_PendingNonce pending_nonce), cs1)))
      | None \<Rightarrow> (invalid_params rid ''Invalid GetTransactionCount params.'', cs))"

definition handle_jsonrpc ::
  "'v mock_crates \<Rightarrow> bool list \<Rightarrow> string \<Rightarrow> 'v option \<Rightarrow> 'v option \<Rightarrow> chain_state \<Rightarrow> 'v rpc_response \<times> chain_state" where
  "handle_jsonrpc mc spurious req_method params rid cs =
     (if req_method = ''eth_sendRawTransaction'' then handle_send_raw_transaction mc spurious params rid cs
      else if req_method = ''eth_getTransactionReceipt'' then (handle_get_transaction_receipt mc params rid cs, cs)
      else if req_method = ''eth_blockNumber'' then (handle_get_block_number rid, cs)
      else if req_method = ''eth_getTransactionCount'' then handle_get_transaction_count mc params rid cs
      else (method_not_found rid, cs))"


section \<open>The counters\<close>

definition counter :: "address \<Rightarrow> chain_state \<Rightarrow> u64" where
  "counter a cs = (case nonce_collection cs a of None \<Rightarrow> 0 | Some n \<Rightarrow> n)"

lemma nonce_entry_counter:
  "fst (nonce_entry a cs) = counter a cs" "counter b (snd (nonce_entry a cs)) = counter b cs"
  "receipt_collection (snd (nonce_entry a cs)) = receipt_collection cs"
  by (auto simp: nonce_entry_def counter_def split: option.splits)

declare advance_loop.simps [simp del]

text \<open>Spurious failures of the exchange change nothing.\<close>

lemma advance_loop_eq:
  "advance_loop spurious nonce_rlp current =
     (if nonce_rlp < current then (Mock_NonceTooLow, current) else (NonceAdvanced current, current + 1))"
proof (induction spurious)
  case Nil
  then show ?case by (simp add: advance_loop.simps)
next
  case (Cons b spurious)
  then show ?case by (subst advance_loop.simps) (cases b; simp)
qed

lemma update_nonce_outcome:
  "fst (update_nonce spurious a n cs) = (if n < counter a cs then Mock_NonceTooLow else NonceAdvanced (counter a cs))"
  "counter b (snd (update_nonce spurious a n cs)) =
     (if b = a \<and> \<not> n < counter a cs then counter a cs + 1 else counter b cs)"
  "receipt_collection (snd (update_nonce spurious a n cs)) = receipt_collection cs"
proof -
  obtain cur cs1 where entry: "nonce_entry a cs = (cur, cs1)" by fastforce
  then have "cur = counter a cs" "\<And>b. counter b cs1 = counter b cs" "receipt_collection cs1 = receipt_collection cs"
    using nonce_entry_counter(1,3) [of a cs] nonce_entry_counter(2) [where a = a and cs = cs] by auto
  then show "fst (update_nonce spurious a n cs) = (if n < counter a cs then Mock_NonceTooLow else NonceAdvanced (counter a cs))"
    "counter b (snd (update_nonce spurious a n cs)) =
       (if b = a \<and> \<not> n < counter a cs then counter a cs + 1 else counter b cs)"
    "receipt_collection (snd (update_nonce spurious a n cs)) = receipt_collection cs"
    by (auto simp: update_nonce_def entry advance_loop_eq counter_def)
qed

text \<open>A request that carries a well-formed transaction.\<close>

definition carries :: "'v mock_crates \<Rightarrow> 'v option \<Rightarrow> envelope \<Rightarrow> address \<Rightarrow> bool" where
  "carries mc params env a \<longleftrightarrow>
     (\<exists>raw rest. mc_send_params mc (case params of None \<Rightarrow> mc_null mc | Some v \<Rightarrow> v) = Some (raw # rest) \<and>
        mc_decode_2718 mc raw = Some env) \<and> env_signer env = Some a"

lemma send_outcome:
  assumes "carries mc params env a"
  shows "handle_jsonrpc mc spurious ''eth_sendRawTransaction'' params rid cs =
    (let cs1 = snd (update_nonce spurious a (env_nonce env) cs) in
     if env_nonce env < counter a cs then (rpc_error rid (-32000) ''nonce too low'', cs1)
     else (rpc_success rid (Res_TxHash (env_hash env)), update_receipt (mc_recipient mc) (env_hash env) cs1))"
  using assms update_nonce_outcome(1) [of spurious a "env_nonce env" cs]
  by (auto simp: handle_jsonrpc_def handle_send_raw_transaction_def carries_def Let_def split: prod.splits)

lemma counter_update_receipt [simp]: "counter a (update_receipt recipient h cs) = counter a cs"
  by (simp add: counter_def update_receipt_def)

definition resend :: "'v mock_crates \<Rightarrow> 'v option \<Rightarrow> chain_state \<Rightarrow> chain_state" where
  "resend mc params cs = snd (handle_jsonrpc mc [] ''eth_sendRawTransaction'' params None cs)"

lemma counter_resend:
  assumes "carries mc params env a"
  shows "counter a (resend mc params cs) = (if env_nonce env < counter a cs then counter a cs else counter a cs + 1)"
  unfolding resend_def send_outcome [OF assms] by (simp add: Let_def update_nonce_outcome)

lemma counter_resends:
  assumes "carries mc params env a" "env_nonce env \<noteq> - 1"
  shows "unat (counter a ((resend mc params ^^ i) cs)) =
    min (unat (counter a cs) + i) (max (unat (counter a cs)) (unat (env_nonce env) + 1))"
proof (induction i)
  case 0
  then show ?case by simp
next
  case (Suc i)
  let ?c = "counter a ((resend mc params ^^ i) cs)"
  have "unat (env_nonce env) < 2 ^ 64 - 1"
  proof -
    have "unat (env_nonce env) \<noteq> unat (- 1 :: u64)" using assms(2) by (simp only: word_unat_eq_iff not_False_eq_True)
    then show ?thesis using unsigned_less [of "env_nonce env", where 'a = nat] by (simp add: unsigned_minus_1_eq_mask mask_eq_exp_minus_1)
  qed
  then have "unat (?c + 1) = unat ?c + 1" if "\<not> env_nonce env < ?c"
    using that by (intro unat_add_lem [THEN iffD1, THEN trans]) (auto simp: word_less_nat_alt)
  then show ?case using Suc by (auto simp: counter_resend [OF assms(1)] word_less_nat_alt)
qed

text \<open>
  The mock node counts transactions and ignores their nonces: while the same signed transaction is sent again
  and again, it is accepted as long as the number of earlier acceptances has not carried the counter beyond its nonce.
  A transaction whose nonce is ahead of the counter by \<open>k\<close> is thus accepted \<open>k + 1\<close> times.
\<close>
theorem mock_accepts_replays:
  assumes "carries mc params env a" "env_nonce env \<noteq> - 1"
  shows "rr_error (fst (handle_jsonrpc mc spurious ''eth_sendRawTransaction'' params rid ((resend mc params ^^ i) cs))) = None \<longleftrightarrow>
    (if env_nonce env < counter a cs then False else i \<le> unat (env_nonce env) - unat (counter a cs))"
proof -
  let ?cs = "(resend mc params ^^ i) cs"
  have "rr_error (fst (handle_jsonrpc mc spurious ''eth_sendRawTransaction'' params rid ?cs)) = None \<longleftrightarrow>
      \<not> env_nonce env < counter a ?cs"
    unfolding send_outcome [OF assms(1)] by (simp add: Let_def rpc_success_def rpc_error_def)
  then show ?thesis
    using counter_resends [OF assms, of i cs] by (auto simp: word_less_nat_alt)
qed


section \<open>The pipeline over the mock node\<close>

text \<open>
  What the client's crate writes and reads of the wire: the parameters of a request, with the laws that the server reads
  back what the client wrote. A reply with an error is an error, a reply with a result of the requested kind is that result.
\<close>

record 'v wire =
  wire_send :: "bytes \<Rightarrow> 'v"
  wire_receipt :: "tx_hash \<Rightarrow> 'v"
  wire_block :: 'v
  wire_count :: "address \<Rightarrow> 'v"

definition wire_faithful :: "'v mock_crates \<Rightarrow> 'v wire \<Rightarrow> bool" where
  "wire_faithful mc wr \<longleftrightarrow>
     (\<forall>raw. mc_send_params mc (wire_send wr raw) = Some [raw]) \<and> (\<forall>h. mc_receipt_params mc (wire_receipt wr h) = Some [h])"

definition reply :: "(rpc_result \<Rightarrow> 'a option) \<Rightarrow> 'v rpc_response \<Rightarrow> string + 'a" where
  "reply read r =
     (case rr_error r of
        Some (code, message) \<Rightarrow> Inl message
      | None \<Rightarrow> (case rr_result r of None \<Rightarrow> Inl ''null'' | Some x \<Rightarrow> (case read x of None \<Rightarrow> Inl ''unexpected'' | Some y \<Rightarrow> Inr y)))"

definition read_receipt :: "rpc_result \<Rightarrow> receipt option option" where
  "read_receipt x =
     (case x of
        Res_ReceiptFound r \<Rightarrow> Some (Some \<lparr>rcpt_status = sr_status r, rcpt_block_number = sr_block_number r\<rparr>)
      | Res_ReceiptNotFound \<Rightarrow> Some None
      | _ \<Rightarrow> None)"

text \<open>The four calls, answered by the server of the chain after \<open>lag\<close> units of time.\<close>

definition ask ::
  "'v mock_crates \<Rightarrow> nat \<Rightarrow> (rpc_result \<Rightarrow> 'a option) \<Rightarrow> string \<Rightarrow> 'v \<Rightarrow> chain_id \<Rightarrow>
   (chain_id \<Rightarrow> chain_state) \<Rightarrow> (string + 'a) \<times> nat \<times> (chain_id \<Rightarrow> chain_state)" where
  "ask mc lag read req_method params c n =
     (case handle_jsonrpc mc [] req_method (Some params) None (n c) of (r, cs) \<Rightarrow> (reply read r, lag, n(c := cs)))"

definition mock_port :: "'v mock_crates \<Rightarrow> 'v wire \<Rightarrow> nat \<Rightarrow> (chain_id \<Rightarrow> chain_state) rpc_port" where
  "mock_port mc wr lag =
     \<lparr>rpc_send_raw_transaction = (\<lambda>c sticky raw t.
        ask mc lag (\<lambda>x. case x of Res_TxHash h \<Rightarrow> Some h | _ \<Rightarrow> None) ''eth_sendRawTransaction'' (wire_send wr raw) c),
      rpc_get_transaction_count = (\<lambda>c sticky a t.
        ask mc lag (\<lambda>x. case x of Res_PendingNonce u \<Rightarrow> Some (TxNonce (ucast u)) | _ \<Rightarrow> None) ''eth_getTransactionCount'' (wire_count wr a) c),
      rpc_get_transaction_receipt = (\<lambda>c sticky h t. ask mc lag read_receipt ''eth_getTransactionReceipt'' (wire_receipt wr h) c),
      rpc_get_block_number = (\<lambda>c sticky t.
        ask mc lag (\<lambda>x. case x of Res_BlockNumber b \<Rightarrow> Some b | _ \<Rightarrow> None) ''eth_blockNumber'' (wire_block wr) c)\<rparr>"

lemma mock_send:
  assumes "wire_faithful mc wr" "mc_decode_2718 mc raw = Some env" "env_signer env = Some a" "counter a (n c) \<le> env_nonce env"
  shows "\<exists>n1. rpc_send_raw_transaction (mock_port mc wr lag) c sticky raw t n = (Inr (env_hash env), lag, n1) \<and>
    fetch_receipt (env_hash env) (n1 c) = Some (gen_receipt (mc_recipient mc) (env_hash env))"
proof -
  have "carries mc (Some (wire_send wr raw)) env a"
    using assms(1-3) by (auto simp: carries_def wire_faithful_def)
  moreover have "\<not> env_nonce env < counter a (n c)" using assms(4) by simp
  ultimately show ?thesis
    by (simp add: send_outcome mock_port_def ask_def reply_def Let_def rpc_success_def fetch_receipt_def update_receipt_def)
qed

lemma mock_mined:
  assumes "wire_faithful mc wr" "fetch_receipt h (n c) = Some (gen_receipt recipient h)"
  shows "mined_within (Suc 0) (mock_port mc wr lag) default_validator_config c sticky h 0 n"
  using assms
  by (simp add: mock_port_def ask_def reply_def wire_faithful_def handle_jsonrpc_def handle_get_transaction_receipt_def
      handle_get_block_number_def rpc_success_def read_receipt_def gen_receipt_def default_validator_config_def)

definition sample_crates :: "(bytes + tx_hash) mock_crates" where
  "sample_crates =
     \<lparr>mc_null = Inl [], mc_send_params = case_sum (\<lambda>raw. Some [raw]) (\<lambda>_. None),
      mc_receipt_params = case_sum (\<lambda>_. None) (\<lambda>h. Some [h]), mc_count_params = (\<lambda>_. None),
      mc_decode_2718 = (\<lambda>raw. if raw = [] then None
        else Some \<lparr>env_nonce = (if raw = [2, 192] then 0 else 2), env_signer = Some 7, env_hash = 99\<rparr>),
      mc_address = (\<lambda>_. Inl ''odd''), mc_recipient = 8\<rparr>"

definition sample_wire :: "(bytes + tx_hash) wire" where
  "sample_wire = \<lparr>wire_send = Inl, wire_receipt = Inr, wire_block = Inl [], wire_count = (\<lambda>_. Inl [])\<rparr>"

lemma sample_carries: "carries sample_crates (Some (Inl [2])) \<lparr>env_nonce = 2, env_signer = Some 7, env_hash = 99\<rparr> 7"
  by (simp add: carries_def sample_crates_def)

lemma sample_wire_faithful: "wire_faithful sample_crates sample_wire"
  by (simp add: wire_faithful_def sample_crates_def sample_wire_def)

text \<open>A transaction with nonce two, sent to a fresh counter, is accepted a third time and refused a fourth time.\<close>

theorem mock_accepts_replays_witness:
  "rr_error (fst (handle_jsonrpc sample_crates [True] ''eth_sendRawTransaction'' (Some (Inl [2])) None
     ((resend sample_crates (Some (Inl [2])) ^^ 2) (ChainState_new [7])))) = None \<and>
   rr_error (fst (handle_jsonrpc sample_crates [True] ''eth_sendRawTransaction'' (Some (Inl [2])) None
     ((resend sample_crates (Some (Inl [2])) ^^ 3) (ChainState_new [7])))) \<noteq> None"
  unfolding mock_accepts_replays [OF sample_carries, simplified] by (simp add: counter_def ChainState_new_def)

text \<open>
  C36. The mock node is enough of a chain. When the actors answer, the store has not seen the execution and is not
  disturbed, the lint passes, the sender's next nonce is free and its key is held, and the signed payload is
  an envelope of the sender whose nonce is not behind the mock node's counter, a submission through the mock
  node ends as \<open>ConfirmedOnChain\<close> with the envelope's hash at the validator's first poll, and the tables record the delivery.
\<close>
theorem mock_delivers:
  assumes "spawn_cortex sv config loaded = Done (cx, permits, r0)" "\<And>i. sv_link sv i = LinkUp"
    and "max_attempts (cc_retry config) \<noteq> - 1" "0 < sys_permits sys" "sys_world sys = (d, n)"
    and "store_inv ns bs xs d" "quiet d" "unseen e d" "roomy d"
    and "transaction_lint txn = Inr ()" "ci = uint (chain_u256 (chain_id txn))"
    and "m = next_nonce ci (from_address cc) (nonce_assignments d)" "m \<le> i64_max"
    and "m \<notin> active_nonces ci (from_address cc) (nonce_assignments d)"
    and "run_value (sv_custody sv) (from_address cc) = Inr key" "sv_signing sv (txn\<lparr>nonce := TxNonce (word_of_int m)\<rparr>) key = Inr stx"
    and "sv_acquire sv (chain_id txn) endpoint_timeout n = (Inr (Some sticky), k0, n)"
    and "sv_port sv = mock_port mc wr lag" "wire_faithful mc wr"
    and "mc_decode_2718 mc (rlp stx) = Some env" "env_signer env = Some (from_address cc)"
    and "counter (from_address cc) (n (chain_id txn)) \<le> env_nonce env"
  shows "\<exists>sys'. finish_task (cortex_host sv hash_of ct) (length (sys_tasks sys)) (snd (submit sv cx e txn cc sys)) = (Done (), sys') \<and>
    registry_get e (sys_registry sys') = Some (ConfirmedOnChain (hex_hash ct (env_hash env))) \<and>
    delivered e ci cc m stx (env_hash env) (fst (sys_world sys'))"
proof -
  obtain n1 where sent: "rpc_send_raw_transaction (sv_port sv) (chain_id txn) sticky (rlp stx) rpc_timeout n = (Inr (env_hash env), lag, n1)"
    and "fetch_receipt (env_hash env) (n1 (chain_id txn)) = Some (gen_receipt (mc_recipient mc) (env_hash env))"
    using mock_send [OF assms(19-21), of n "chain_id txn"] assms(22) unfolding assms(18) by blast
  then have "mined_within (Suc 0) (sv_port sv) default_validator_config (chain_id txn) sticky (env_hash env) 0 n1"
    unfolding assms(18) by (intro mock_mined assms(19))
  from submission_confirmed [OF assms(1-17) sent this] show ?thesis by blast
qed

definition mock_services :: "(chain_id \<Rightarrow> chain_state) services" where
  "mock_services =
     \<lparr>sv_port = mock_port sample_crates sample_wire 5, sv_acquire = (\<lambda>c t n. (Inr (Some 0), 1, n)),
      sv_draw = (\<lambda>u n. (drop_bit 1 u, n)), sv_custody = Done sample_custody, sv_signing = sample_signing, sv_link = (\<lambda>i. LinkUp)\<rparr>"

definition mock_system :: "(chain_id \<Rightarrow> chain_state) system" where
  "mock_system =
     \<lparr>sys_world = (init_db, \<lambda>c. ChainState_new [7]), sys_registry = empty_registry, sys_permits = 1, sys_tasks = []\<rparr>"

definition mock_cortex :: "(chain_id \<Rightarrow> chain_state) cortex" where
  "mock_cortex = (case spawn_cortex mock_services sample_config (Inr empty_registry) of Done (cx, k, r) \<Rightarrow> cx)"

lemma mock_services_parts:
  "sv_link mock_services i = LinkUp" "sv_custody mock_services = Done sample_custody"
  "sv_port mock_services = mock_port sample_crates sample_wire 5"
  by (simp_all add: mock_services_def)

lemma mock_boot:
  "spawn_cortex mock_services sample_config (Inr (sys_registry mock_system)) =
     Done (mock_cortex, sys_permits mock_system, sys_registry mock_system)"
  by (simp add: mock_cortex_def mock_system_def sample_config_def spawn_cortex_def bind_run_def spawn_pool_def
      ShardPool_new_def semaphore_new_def upt_rec [of 0] mock_services_parts)

lemma mock_side:
  "0 < sys_permits mock_system" "sys_world mock_system = (init_db, \<lambda>c. ChainState_new [7])" "length (sys_tasks mock_system) = 0"
  by (simp_all add: mock_system_def)

lemma mock_net:
  "run_value (sv_custody mock_services) 7 = Inr (replicate 32 1)"
  "sv_signing mock_services t k = Inr \<lparr>rlp = [2, 192], with_nonce = nonce t\<rparr>"
  "sv_acquire mock_services c endpoint_timeout n = (Inr (Some 0), 1, n)"
  by (simp_all add: mock_services_def sample_custody_def sample_signing_def)

lemma mock_envelope:
  "mc_decode_2718 sample_crates [2, 192] = Some \<lparr>env_nonce = 0, env_signer = Some 7, env_hash = 99\<rparr>"
  "counter 7 (ChainState_new [7]) \<le> env_nonce \<lparr>env_nonce = 0, env_signer = Some 7, env_hash = 99\<rparr>"
  by (simp_all add: sample_crates_def counter_def ChainState_new_def)

theorem mock_delivers_witness:
  "\<exists>sys'. finish_task (cortex_host mock_services (\<lambda>k. 3) (host_text sample_host)) 0
      (snd (submit mock_services mock_cortex 5 sample_tx \<lparr>client_id = 1, from_address = 7\<rparr> mock_system)) = (Done (), sys') \<and>
    registry_get 5 (sys_registry sys') = Some (ConfirmedOnChain (hex_hash (host_text sample_host) 99)) \<and>
    list_ex (\<lambda>r. n_execution_id r = 5 \<and> n_slot r = (1, 7, 0) \<and> n_state r = N_Finalized) (nonce_assignments (fst (sys_world sys')))"
proof -
  let ?cc = "\<lparr>client_id = 1, from_address = 7\<rparr>" and ?stx = "\<lparr>rlp = [2, 192], with_nonce = TxNonce 0\<rparr>"
    and ?env = "\<lparr>env_nonce = 0, env_signer = Some 7, env_hash = 99\<rparr>"
  have "run_value (sv_custody mock_services) (from_address ?cc) = Inr (replicate 32 1)"
    "sv_signing mock_services (sample_tx\<lparr>nonce := TxNonce (word_of_int 0)\<rparr>) (replicate 32 1) = Inr ?stx"
    "mc_decode_2718 sample_crates (rlp ?stx) = Some ?env" "env_signer ?env = Some (from_address ?cc)"
    "counter (from_address ?cc) (ChainState_new [7]) \<le> env_nonce ?env"
    using mock_net(1) mock_envelope by (simp_all add: mock_net(2))
  then show ?thesis
    using mock_delivers [OF mock_boot mock_services_parts(1) sample_side(2) mock_side(1,2) init_store_inv init_quiet sample_side(5,6)
        sample_chain sample_nonce _ _ mock_net(3) mock_services_parts(3) sample_wire_faithful, of ?cc "replicate 32 1" ?stx ?env]
    unfolding mock_side(3) delivered_def by fastforce
qed

end
