(* ===== verification/Bench_Client.thy ===== *)
theory Bench_Client
  imports Server
begin

text \<open>
  The client side of the benchmark harness: the keys of \<^verbatim>\<open>benchmark/src/loadgen/keys.rs\<close>, the payloads and the dispatch of
  \<^verbatim>\<open>loadgen/trigger.rs\<close>, and the environment the harness assembles for the server in \<^verbatim>\<open>benchmark/src/main.rs\<close>. A payload is the
  record of its JSON fields; what the server's JSON reader makes of it is \<open>request_of\<close>, over the same parser of addresses
  the key loader uses. Text is ASCII. The order in which a hash map is traversed is left open by taking association lists.
\<close>

section \<open>Keys\<close>

definition api_key_text :: "fresh_ids \<Rightarrow> string \<Rightarrow> string" where
  "api_key_text ids addr = generated_token ids @ '':'' @ fi_client_id ids @ '':'' @ addr"

fun build_apistack ::
  "(nat \<Rightarrow> fresh_ids) \<Rightarrow> nat \<Rightarrow> (string \<times> string option) list \<Rightarrow> (u64 \<times> string) list \<Rightarrow> string + (u64 \<times> string) list" where
  "build_apistack ids i [] api_stack = Inr api_stack"
| "build_apistack ids i ((account_name, address) # accounts) api_stack =
     (case strip_prefix ''account'' account_name of
        None \<Rightarrow> Inl ''invalid account naming''
      | Some num_str \<Rightarrow>
          (case parse_u64 num_str of
             Inl _ \<Rightarrow> Inl ''invalid account naming''
           | Inr num \<Rightarrow>
               (case address of
                  None \<Rightarrow> Inl ''invalid account address''
                | Some from_addr \<Rightarrow>
                    build_apistack ids (Suc i) accounts (AList.update num (api_key_text (ids i) from_addr) api_stack))))"

definition build_apistack_file ::
  "string + string \<Rightarrow> (string \<Rightarrow> string + (string \<times> string option) list option) \<Rightarrow> (nat \<Rightarrow> fresh_ids) \<Rightarrow> string + (u64 \<times> string) list" where
  "build_apistack_file content from_str ids =
     (case read_accounts content from_str of Inl e \<Rightarrow> Inl e | Inr accounts \<Rightarrow> build_apistack ids 0 accounts [])"

fun get_addresses :: "key_text \<Rightarrow> (u64 \<times> string) list \<Rightarrow> address list run" where
  "get_addresses kt [] = Done []"
| "get_addresses kt ((n, api_key) # api_stack) =
     (let api_key_elements = split_on CHR '':'' api_key in
      if length api_key_elements \<le> 2 then Panic ''index out of bounds''
      else case address_from_str kt (api_key_elements ! 2) of
          None \<Rightarrow> Panic ''called `Result::unwrap()` on an `Err` value''
        | Some evm_address \<Rightarrow> bind_run (get_addresses kt api_stack) (\<lambda>addresses. Done (evm_address # addresses)))"


section \<open>Payloads\<close>

definition RECIPIENT_ADDRESS :: string where
  "RECIPIENT_ADDRESS = ''0x430b3af2c718497fe0add817c8ead48c8bd2ef61''"

record rpc_payload =
  pl_jsonrpc :: string
  pl_method :: string
  pl_from :: string
  pl_to :: string
  pl_value :: string
  pl_chain_id :: string
  pl_gas :: string
  pl_max_fee_per_gas :: string
  pl_max_priority_fee_per_gas :: string
  pl_id :: nat

record payload_entry =
  pe_api_key :: string
  pe_payload :: rpc_payload

definition hex_char :: "nat \<Rightarrow> char" where
  "hex_char n = (if n < 10 then char_of (48 + n) else char_of (87 + n))"

fun show_hex :: "nat \<Rightarrow> string" where
  "show_hex n = (if n < 16 then [hex_char n] else show_hex (n div 16) @ [hex_char (n mod 16)])"

declare show_hex.simps [simp del]

definition payload_for :: "u64 list \<Rightarrow> u64 \<Rightarrow> string \<Rightarrow> rpc_payload" where
  "payload_for chain_ids index sender =
     \<lparr>pl_jsonrpc = ''2.0'', pl_method = ''eth_sendRawTransaction'', pl_from = sender, pl_to = RECIPIENT_ADDRESS,
      pl_value = ''0x2386f26fc10000'', pl_chain_id = ''0x'' @ show_hex (unat (chain_ids ! (unat index mod length chain_ids))),
      pl_gas = ''0x5208'', pl_max_fee_per_gas = ''0xba43b7400'', pl_max_priority_fee_per_gas = ''0x77359400'', pl_id = 1\<rparr>"

fun build_entries :: "u64 list \<Rightarrow> (u64 \<times> string) list \<Rightarrow> payload_entry list run" where
  "build_entries chain_ids [] = Done []"
| "build_entries chain_ids ((index, api_key) # api_stack) =
     (let pieces = split_on CHR '':'' api_key in
      if length pieces \<le> 2 then Panic ''Invalid API key format: expected <token>:<client_id>:<from_address>''
      else bind_run (build_entries chain_ids api_stack) (\<lambda>entries.
        Done (\<lparr>pe_api_key = api_key, pe_payload = payload_for chain_ids index (pieces ! 2)\<rparr> # entries)))"

definition build_payloads :: "(u64 \<times> string) list \<Rightarrow> u64 list \<Rightarrow> payload_entry list run" where
  "build_payloads api_stack chain_ids =
     (if chain_ids = [] then Panic ''chain_ids cannot be empty'' else build_entries chain_ids api_stack)"


section \<open>Dispatch\<close>

datatype trigger_error = Trigger_Http string | UnexpectedStatus nat

definition request_of :: "key_text \<Rightarrow> rpc_payload \<Rightarrow> nat + nat json_rpc_request" where
  "request_of kt p =
     (case address_from_str kt (pl_from p) of
        None \<Rightarrow> Inl 422
      | Some f \<Rightarrow>
          (case address_from_str kt (pl_to p) of
             None \<Rightarrow> Inl 422
           | Some t \<Rightarrow> Inr \<lparr>jr_jsonrpc = pl_jsonrpc p, jr_method = pl_method p,
               jr_params = [\<lparr>p_from = f, p_to = Some t, p_gas = Some (pl_gas p), p_max_fee_per_gas = Some (pl_max_fee_per_gas p),
                 p_max_priority_fee_per_gas = Some (pl_max_priority_fee_per_gas p), p_value = Some (pl_value p), p_data = None,
                 p_chain_id = pl_chain_id p, p_access_list = None\<rparr>],
               jr_id = pl_id p\<rparr>))"

text \<open>The random choice is the index \<open>pick\<close>; a handler that panics closes the connection.\<close>

definition execute_dispatch ::
  "'n app_state \<Rightarrow> key_text \<Rightarrow> execution_id \<Rightarrow> nat \<Rightarrow> payload_entry list \<Rightarrow> 'n system \<Rightarrow> (trigger_error + unit) run \<times> 'n system" where
  "execute_dispatch app kt fresh pick payloads sys =
     (if payloads = [] then (Panic ''called `Option::unwrap()` on a `None` value'', sys)
      else let entry = payloads ! (pick mod length payloads) in
        case serve app fresh
            \<lparr>rq_authorization = Some (''Bearer '' @ pe_api_key entry), rq_route = Route_Submit (request_of kt (pe_payload entry))\<rparr> sys of
          (Panic m, sys') \<Rightarrow> (Done (Inl (Trigger_Http ''connection closed before message completed'')), sys')
        | (Done response, sys') \<Rightarrow>
            (Done (if http_status response \<noteq> 200 then Inl (UnexpectedStatus (http_status response)) else Inr ()), sys'))"


section \<open>The environment of the server\<close>

definition is_white :: "char \<Rightarrow> bool" where
  "is_white c \<longleftrightarrow> (let n = (of_char c :: nat) in 9 \<le> n \<and> n \<le> 13 \<or> n = 32)"

definition trim_while :: "(char \<Rightarrow> bool) \<Rightarrow> string \<Rightarrow> string" where
  "trim_while P s = rev (dropWhile P (rev (dropWhile P s)))"

definition str_lines :: "string \<Rightarrow> string list" where
  "str_lines s =
     (let ls = split_on newline s; kept = (if last ls = [] then butlast ls else ls)
      in map (\<lambda>l. if l \<noteq> [] \<and> last l = CHR 0x0D then butlast l else l) kept)"

definition split_once :: "char \<Rightarrow> string \<Rightarrow> (string \<times> string) option" where
  "split_once d s = (if d \<in> set s then Some (takeWhile (\<lambda>c. c \<noteq> d) s, tl (dropWhile (\<lambda>c. c \<noteq> d) s)) else None)"

definition env_entry :: "string \<Rightarrow> (string \<times> string) option" where
  "env_entry raw =
     (let line = trim_while is_white raw in
      if line = [] \<or> hd line = CHR ''#'' then None
      else case split_once CHR ''='' (case strip_prefix ''export '' line of None \<Rightarrow> line | Some rest \<Rightarrow> rest) of
          None \<Rightarrow> None
        | Some (k, v) \<Rightarrow> Some (trim_while is_white k,
            trim_while (\<lambda>c. c = CHR 0x27) (trim_while (\<lambda>c. c = CHR 0x22) (trim_while is_white v))))"

definition insert_entry :: "string \<Rightarrow> (string \<rightharpoonup> string) \<Rightarrow> (string \<rightharpoonup> string)" where
  "insert_entry line env_variables = (case env_entry line of None \<Rightarrow> env_variables | Some (k, v) \<Rightarrow> env_variables(k \<mapsto> v))"

definition parse_env_file :: "string + string \<Rightarrow> (string \<rightharpoonup> string)" where
  "parse_env_file content =
     (case content of Inl e \<Rightarrow> Map.empty | Inr env_file \<Rightarrow> fold insert_entry (str_lines env_file) Map.empty)"

definition assemble_env ::
  "(string \<rightharpoonup> string) \<Rightarrow> string \<Rightarrow> string \<Rightarrow> (u64 \<times> nat) list \<Rightarrow> (u64 \<times> string) list \<Rightarrow> (string \<rightharpoonup> string)" where
  "assemble_env static pg_url redis_url port_map api_stack =
     (let base = static(''DATABASE_URL'' \<mapsto> pg_url, ''REDIS_URL'' \<mapsto> redis_url);
          ports = fold (\<lambda>(c, port) m. m(''RPC_ENDPOINT_'' @ show_nat (unat c) \<mapsto> ''http://localhost:'' @ show_nat port)) port_map base
      in fold (\<lambda>(n, key) m. m(''LOBBY_API_KEY_'' @ show_nat (unat n) \<mapsto> key)) api_stack ports)"



section \<open>Hexadecimal text\<close>

lemma hex_digit_hex_char: "n < 16 \<Longrightarrow> hex_digit (hex_char n) = Some n"
  by (cases "n < 10") (simp_all add: hex_char_def hex_digit_def Let_def)

lemma show_hex_nonempty [simp]: "show_hex n \<noteq> []"
  by (subst show_hex.simps) simp

lemma read_show_hex: "read_digits hex_digit 16 0 (show_hex n) = Some n"
proof (induction n rule: show_hex.induct)
  case (1 n)
  show ?case
  proof (cases "n < 16")
    case True
    then show ?thesis by (subst show_hex.simps) (simp add: hex_digit_hex_char)
  next
    case False
    with "1.IH" show ?thesis by (subst show_hex.simps) (simp add: read_digits_append hex_digit_hex_char)
  qed
qed

lemma hd_show_hex: "hd (show_hex n) \<noteq> CHR ''+''"
  using read_show_hex [of n] by (cases "show_hex n") (auto simp: hex_digit_def split: option.splits)

lemma parse_show_hex: "parse_hex_u64 (''0x'' @ show_hex (unat c)) = Some c"
proof -
  have "unat c < 2 ^ 64" using unsigned_less [of c, where 'a = nat] by simp
  then show ?thesis
    using hd_show_hex [of "unat c"] read_show_hex [of "unat c"]
    by (cases "show_hex (unat c)") (auto simp: parse_hex_u64_def strip_0x_def parse_hex_digits_u64_def)
qed


section \<open>The stack\<close>

lemma api_key_text_generated: "snd (generated_var account ids) = api_key_text ids (snd account)"
  by (simp add: api_key_text_def generated_var_def)

lemma build_apistack_entries:
  assumes "build_apistack ids i accounts acc = Inr stack" "(n, v) \<in> set stack"
  shows "(n, v) \<in> set acc \<or> (\<exists>k a. k < length accounts \<and> snd (accounts ! k) = Some a \<and> v = api_key_text (ids (i + k)) a)"
  using assms
proof (induction ids i accounts acc rule: build_apistack.induct)
  case (1 ids i acc)
  then show ?case by simp
next
  case (2 ids i name addr accounts acc)
  then obtain num_str num a where step: "strip_prefix ''account'' name = Some num_str" "parse_u64 num_str = Inr num" "addr = Some a"
    and rest: "build_apistack ids (Suc i) accounts (AList.update num (api_key_text (ids i) a) acc) = Inr stack"
    by (auto split: option.splits sum.splits)
  from "2.IH" [OF step(1,2,3) rest "2.prems"(2)] show ?case
  proof
    assume "(n, v) \<in> set (AList.update num (api_key_text (ids i) a) acc)"
    then have "(n, v) \<in> set acc \<or> v = api_key_text (ids (i + 0)) a"
      by (induction acc) (auto split: if_splits)
    then show ?thesis using step(3) by fastforce
  next
    assume "\<exists>k a. k < length accounts \<and> snd (accounts ! k) = Some a \<and> v = api_key_text (ids (Suc i + k)) a"
    then obtain k a' where "k < length accounts" "snd (accounts ! k) = Some a'" "v = api_key_text (ids (Suc i + k)) a'" by blast
    then show ?thesis by (intro disjI2 exI [of _ "Suc k"] exI [of _ a']) simp
  qed
qed

lemma build_apistack_distinct:
  "build_apistack ids i accounts acc = Inr stack \<Longrightarrow> distinct (map fst acc) \<Longrightarrow> distinct (map fst stack)"
  by (induction ids i accounts acc rule: build_apistack.induct) (auto simp: distinct_update split: option.splits sum.splits)


text \<open>The environment holds exactly the stack's keys, when the static file has none.\<close>

lemma fold_entries:
  assumes "\<And>n n'. f n = f n' \<Longrightarrow> n = n'" "distinct (map fst xs)"
  shows "fold (\<lambda>(n, v) m. m(f n \<mapsto> g v)) xs m k = Some v \<longleftrightarrow>
    (\<exists>n w. (n, w) \<in> set xs \<and> k = f n \<and> v = g w) \<or> ((\<forall>n w. (n, w) \<in> set xs \<longrightarrow> k \<noteq> f n) \<and> m k = Some v)"
  using assms(2)
proof (induction xs arbitrary: m)
  case Nil
  then show ?case by simp
next
  case (Cons x xs)
  obtain n w where x: "x = (n, w)" by fastforce
  have "n' \<noteq> n" if "(n', w') \<in> set xs" for n' w' using Cons.prems that x by force
  then have fresh: "f n' \<noteq> f n" if "(n', w') \<in> set xs" for n' w' using assms(1) that by blast
  show ?case
  proof (cases "k = f n")
    case True
    then show ?thesis using Cons x fresh by (auto simp: eq_commute [of "f n"])
  next
    case False
    then show ?thesis using Cons x by auto
  qed
qed

lemma fold_other:
  "\<forall>x \<in> set xs. k \<noteq> f (fst x) \<Longrightarrow> fold (\<lambda>(n, v) m. m(f n \<mapsto> g v)) xs m k = m k"
  by (induction xs arbitrary: m) (auto split: prod.splits)

lemma assembled_keys:
  assumes "distinct (map fst stack)" "starts_with ''LOBBY_API_KEY_'' k" "static k = None"
  shows "assemble_env static pg redis ports stack k = Some v \<longleftrightarrow>
    (\<exists>n. (n, v) \<in> set stack \<and> k = ''LOBBY_API_KEY_'' @ show_nat (unat n))"
proof -
  let ?name = "\<lambda>n :: u64. ''LOBBY_API_KEY_'' @ show_nat (unat n)"
  have inj: "n = n'" if "?name n = ?name n'" for n n' using that by (simp add: show_nat_inject word_unat_eq_iff)
  obtain t where k: "k = ''LOBBY_API_KEY_'' @ t" using assms(2) by (auto simp: starts_with_def strip_prefix_Some_iff)
  have "fold (\<lambda>(c :: u64, port) m. m(''RPC_ENDPOINT_'' @ show_nat (unat c) \<mapsto> ''http://localhost:'' @ show_nat port)) ports
      (static(''DATABASE_URL'' \<mapsto> pg, ''REDIS_URL'' \<mapsto> redis)) k = None"
    using fold_other [where f = "\<lambda>c :: u64. ''RPC_ENDPOINT_'' @ show_nat (unat c)" and g = "\<lambda>port. ''http://localhost:'' @ show_nat port" and k = k]
      assms(3) unfolding k by simp
  then show ?thesis
    using fold_entries [of ?name stack "\<lambda>v. v", OF inj assms(1)] by (auto simp: assemble_env_def Let_def)
qed


section \<open>Payloads are accepted\<close>

lemma build_entries_set:
  assumes "build_entries chain_ids stack = Done entries" "entry \<in> set entries"
  shows "\<exists>n v. (n, v) \<in> set stack \<and> 2 < length (split_on CHR '':'' v) \<and>
    entry = \<lparr>pe_api_key = v, pe_payload = payload_for chain_ids n (split_on CHR '':'' v ! 2)\<rparr>"
  using assms
proof (induction chain_ids stack arbitrary: entries rule: build_entries.induct)
  case (1 chain_ids)
  then show ?case by simp
next
  case (2 chain_ids n v stack)
  let ?pieces = "split_on CHR '':'' v"
  have len: "\<not> length ?pieces \<le> 2" using "2.prems"(1) by (auto simp: Let_def)
  then obtain rest where rest: "build_entries chain_ids stack = Done rest"
    using "2.prems"(1) by (cases "build_entries chain_ids stack") (auto simp: Let_def bind_run_def)
  show ?case
  proof (cases "entry \<in> set rest")
    case True
    with "2.IH" [OF refl len rest] show ?thesis by (metis list.set_intros(2))
  next
    case False
    with "2.prems" len rest show ?thesis by (intro exI [of _ n] exI [of _ v]) (auto simp: Let_def bind_run_def)
  qed
qed

text \<open>What the crates read of the harness's fixed texts.\<close>

definition reads_payload :: "text_crates \<Rightarrow> key_text \<Rightarrow> bool" where
  "reads_payload tc kt \<longleftrightarrow>
     u256_from_hex tc ''2386f26fc10000'' \<noteq> None \<and> u256_from_hex tc ''5208'' \<noteq> None \<and>
     u256_from_hex tc ''ba43b7400'' \<noteq> None \<and> u256_from_hex tc ''77359400'' \<noteq> None \<and>
     address_from_str kt RECIPIENT_ADDRESS \<noteq> None"

lemma normalize_payload:
  fixes c :: u64
  assumes "reads_payload tc kt" "uint c < 2 ^ 63"
  shows "\<exists>txn. normalize_eip1193_transaction tc
      \<lparr>p_from = f, p_to = t, p_gas = Some ''0x5208'', p_max_fee_per_gas = Some ''0xba43b7400'',
       p_max_priority_fee_per_gas = Some ''0x77359400'', p_value = Some ''0x2386f26fc10000'', p_data = None,
       p_chain_id = ''0x'' @ show_hex (unat c), p_access_list = None\<rparr> = Done (Inr (txn, f)) \<and>
    chain_id txn = ChainId (word_of_int (uint c)) \<and> to_addr txn = t"
  using assms parse_show_hex [of c]
  by (auto simp: normalize_eip1193_transaction_def ChainId_of_u64 bindE_def opt_quantity_def opt_bytes_def
      parse_hex_u256_def strip_0x_def reads_payload_def)


text \<open>The keys of the stack load, and each token gives the client of the account it was generated for.\<close>

lemma stack_loads:
  assumes "build_apistack ids 0 accounts [] = Inr stack" "load_api_key_from_env kt env = Inr reg"
    and "map_of env = assemble_env static pg redis ports stack" "distinct (map fst env)"
    and "\<And>k. starts_with ''LOBBY_API_KEY_'' k \<Longrightarrow> static k = None"
    and "\<And>k a. k < length accounts \<Longrightarrow> snd (accounts ! k) = Some a \<Longrightarrow> key_text_ok kt (ids k) a (cfg k)"
    and "\<And>j k. j < length accounts \<Longrightarrow> k < length accounts \<Longrightarrow> generated_token (ids j) = generated_token (ids k) \<Longrightarrow> j = k"
    and "(n, v) \<in> set stack"
  obtains k a where "k < length accounts" "key_text_ok kt (ids k) a (cfg k)" "v = api_key_text (ids k) a"
    "map_of reg (generated_token (ids k)) = Some (cfg k)"
proof -
  have dist: "distinct (map fst stack)" using build_apistack_distinct [OF assms(1)] by simp
  have from_account: "\<exists>k a. k < length accounts \<and> key_text_ok kt (ids k) a (cfg k) \<and> v = api_key_text (ids k) a" if "(n, v) \<in> set stack" for n v
    using build_apistack_entries [OF assms(1) that] assms(6) by auto
  have mem: "(key, val) \<in> set (api_key_vars env) \<longleftrightarrow>
      (\<exists>n. (n, val) \<in> set stack \<and> key = ''LOBBY_API_KEY_'' @ show_nat (unat n))" for key val
  proof -
    have "(key, val) \<in> set (api_key_vars env) \<longleftrightarrow> starts_with ''LOBBY_API_KEY_'' key \<and> map_of env key = Some val"
      using assms(4) by (auto simp: api_key_vars_def)
    also have "\<dots> \<longleftrightarrow> starts_with ''LOBBY_API_KEY_'' key \<and> (\<exists>n. (n, val) \<in> set stack \<and> key = ''LOBBY_API_KEY_'' @ show_nat (unat n))"
      using assembled_keys [of stack key static, OF dist] assms(5) [of key] unfolding assms(3) by blast
    finally show ?thesis by (auto simp: starts_with_def)
  qed
  have parse: "parse_api_key kt key (api_key_text (ids k) a) = Inr (generated_token (ids k), cfg k)"
    if "key_text_ok kt (ids k) a (cfg k)" for key k a
    using parse_generated [OF that] by (simp add: api_key_text_generated)
  obtain k a where k: "k < length accounts" "key_text_ok kt (ids k) a (cfg k)" "v = api_key_text (ids k) a"
    using from_account [OF assms(8)] by blast
  have "map_of reg (generated_token (ids k)) = Some (cfg k)"
  proof (rule load_lookup [OF assms(2)])
    show "(''LOBBY_API_KEY_'' @ show_nat (unat n), v) \<in> set (api_key_vars env)" using mem assms(8) by blast
    show "parse_api_key kt (fst (''LOBBY_API_KEY_'' @ show_nat (unat n), v)) (snd (''LOBBY_API_KEY_'' @ show_nat (unat n), v)) =
        Inr (generated_token (ids k), cfg k)" using parse [OF k(2)] k(3) by simp
    fix u cfg' assume u: "u \<in> set (api_key_vars env)" "parse_api_key kt (fst u) (snd u) = Inr (generated_token (ids k), cfg')"
    obtain key val where uv: "u = (key, val)" by fastforce
    then obtain n' where "(n', val) \<in> set stack" using u(1) mem by blast
    then obtain j b where j: "j < length accounts" "key_text_ok kt (ids j) b (cfg j)" "val = api_key_text (ids j) b"
      using from_account by blast
    then have "generated_token (ids j) = generated_token (ids k)" "cfg' = cfg j" using parse [OF j(2), of key] u(2) uv by simp_all
    then show "cfg' = cfg k" using assms(7) [OF j(1) k(1)] by blast
  qed
  with k that show ?thesis by blast
qed

text \<open>
  C39. Every dispatch of the benchmark is accepted while a permit is free. When the server has loaded the environment the
  harness assembles, the generated keys print and parse, their tokens differ and the crates read the fixed
  texts, then whatever payload the generator picks, the server authenticates it as the account's client, accepts
  it under the fresh identifier and answers 200: the orchestrator takes over a transaction for one of the
  harness's chains to the recipient, and the dispatch reports success.
\<close>
theorem dispatch_accepted:
  assumes "build_apistack ids 0 accounts [] = Inr stack" "load_api_key_from_env kt env = Inr (api_registry app)"
    and "map_of env = assemble_env static pg redis ports stack" "distinct (map fst env)"
    and "\<And>k. starts_with ''LOBBY_API_KEY_'' k \<Longrightarrow> static k = None"
    and "\<And>k a. k < length accounts \<Longrightarrow> snd (accounts ! k) = Some a \<Longrightarrow> key_text_ok kt (ids k) a (cfg k)"
    and "\<And>j k. j < length accounts \<Longrightarrow> k < length accounts \<Longrightarrow> generated_token (ids j) = generated_token (ids k) \<Longrightarrow> j = k"
    and "build_payloads stack chain_ids = Done entries" "entries \<noteq> []" "\<And>c. c \<in> set chain_ids \<Longrightarrow> uint c < 2 ^ 63"
    and "reads_payload (app_text_crates app) kt" "0 < sys_permits sys"
  shows "\<exists>k < length accounts. \<exists>c \<in> set chain_ids. \<exists>txn sys'.
    submit (cortex_services app) (cortex_handler app) fresh txn (cfg k) sys = (Inr (), sys') \<and>
    chain_id txn = ChainId (word_of_int (uint c)) \<and> to_addr txn = address_from_str kt RECIPIENT_ADDRESS \<and>
    execute_dispatch app kt fresh pick entries sys = (Done (Inr ()), sys')"
proof -
  let ?entry = "entries ! (pick mod length entries)"
  have chains: "chain_ids \<noteq> []" "build_entries chain_ids stack = Done entries"
    using assms(8) by (auto simp: build_payloads_def split: if_splits)
  have "?entry \<in> set entries" using assms(9) by simp
  then obtain n v where v: "(n, v) \<in> set stack" "2 < length (split_on CHR '':'' v)"
    and entry: "?entry = \<lparr>pe_api_key = v, pe_payload = payload_for chain_ids n (split_on CHR '':'' v ! 2)\<rparr>"
    using build_entries_set [OF chains(2)] by blast
  obtain k a where k: "k < length accounts" "key_text_ok kt (ids k) a (cfg k)" "v = api_key_text (ids k) a"
    and reg: "map_of (api_registry app) (generated_token (ids k)) = Some (cfg k)"
    using stack_loads [OF assms(1-7) v(1)] by blast
  have pieces: "split_on CHR '':'' v ! 2 = a"
    using split_generated [OF k(2)] by (simp add: k(3) api_key_text_generated)
  have auth: "auth_middleware (api_registry app) (Some (''Bearer '' @ v)) = Inr (cfg k)"
    using auth_generated [OF k(2) reg] by (simp add: k(3) api_key_text_generated)
  let ?c = "chain_ids ! (unat n mod length chain_ids)"
  have c: "?c \<in> set chain_ids" using chains(1) by simp
  obtain r where r: "address_from_str kt RECIPIENT_ADDRESS = Some r" using assms(11) by (auto simp: reads_payload_def)
  have a: "address_from_str kt a = Some (from_address (cfg k))" using k(2) by (simp add: key_text_ok_def)
  obtain txn where norm: "normalize_eip1193_transaction (app_text_crates app)
      \<lparr>p_from = from_address (cfg k), p_to = Some r, p_gas = Some ''0x5208'', p_max_fee_per_gas = Some ''0xba43b7400'',
       p_max_priority_fee_per_gas = Some ''0x77359400'', p_value = Some ''0x2386f26fc10000'', p_data = None,
       p_chain_id = ''0x'' @ show_hex (unat ?c), p_access_list = None\<rparr> = Done (Inr (txn, from_address (cfg k)))"
    and txn: "chain_id txn = ChainId (word_of_int (uint ?c))" "to_addr txn = Some r"
    using normalize_payload [OF assms(11) assms(10) [OF c]] by blast
  obtain sys' where sub: "submit (cortex_services app) (cortex_handler app) fresh txn (cfg k) sys = (Inr (), sys')"
    using assms(12) by (auto simp: submit_def Let_def)
  have "execute_dispatch app kt fresh pick entries sys = (Done (Inr ()), sys')"
    using assms(9) auth a r norm sub
    by (simp add: execute_dispatch_def entry serve_def submit_transaction_def request_of_def payload_for_def pieces respond_def)
  with k(1) c sub txn r show ?thesis by metis
qed


section \<open>The environment file\<close>

text \<open>The lines the key generator writes are read back by the harness's parser.\<close>

definition plain_text :: "string \<Rightarrow> bool" where
  "plain_text s \<longleftrightarrow> list_all (\<lambda>c. \<not> is_white c \<and> c \<noteq> CHR ''='' \<and> c \<noteq> CHR 0x22 \<and> c \<noteq> CHR 0x27) s"

lemma dropWhile_none: "list_all (\<lambda>c. \<not> P c) s \<Longrightarrow> dropWhile P s = s"
  by (cases s) simp_all

lemma trim_while_none: "list_all (\<lambda>c. \<not> P c) s \<Longrightarrow> trim_while P s = s"
  by (simp add: trim_while_def dropWhile_none)

lemma trim_while_inner: "\<not> P c \<Longrightarrow> \<not> P d \<Longrightarrow> trim_while P (c # s @ [d]) = c # s @ [d]"
  by (simp add: trim_while_def)

lemma trim_while_quoted: "list_all (\<lambda>c. \<not> P c) s \<Longrightarrow> P d \<Longrightarrow> trim_while P (d # s @ [d]) = s"
  using dropWhile_none [of P "rev s"]
  by (cases s) (simp_all add: trim_while_def dropWhile_append)

lemma env_entry_line:
  assumes "plain_text k" "plain_text v"
  shows "env_entry (env_line (k, v)) = Some (k, v)"
proof -
  have white: "\<not> is_white (CHR ''e'')" "\<not> is_white (CHR 0x22)" by (simp_all add: is_white_def)
  have line: "env_line (k, v) = CHR ''e'' # (''xport '' @ k @ [CHR ''='', CHR 0x22] @ v) @ [CHR 0x22]"
    by (simp add: env_line_def)
  have "trim_while is_white (env_line (k, v)) = ''export '' @ k @ CHR ''='' # CHR 0x22 # v @ [CHR 0x22]"
    unfolding line trim_while_inner [of is_white, OF white] by simp
  moreover have "split_once CHR ''='' (k @ CHR ''='' # CHR 0x22 # v @ [CHR 0x22]) = Some (k, CHR 0x22 # v @ [CHR 0x22])"
  proof -
    have "\<forall>c \<in> set k. c \<noteq> CHR ''=''" using assms(1) by (auto simp: plain_text_def list_all_iff)
    then show ?thesis by (simp add: split_once_def takeWhile_append2 dropWhile_append2)
  qed
  moreover have "trim_while is_white k = k" using assms(1) by (intro trim_while_none) (auto simp: plain_text_def list_all_iff)
  moreover have "trim_while (\<lambda>c. c = CHR 0x22) (CHR 0x22 # v @ [CHR 0x22]) = v"
    using assms(2) by (intro trim_while_quoted) (auto simp: plain_text_def list_all_iff)
  moreover have "trim_while (\<lambda>c. c = CHR 0x27) v = v" using assms(2) by (intro trim_while_none) (auto simp: plain_text_def list_all_iff)
  ultimately show ?thesis by (simp add: env_entry_def Let_def trim_while_inner [of is_white, OF white(2,2)])
qed


lemma split_lines:
  "\<forall>l \<in> set ls. newline \<notin> set l \<Longrightarrow> split_on newline (concat (map (\<lambda>line. line @ [newline]) ls)) = ls @ [[]]"
  by (induction ls) (simp_all add: split_on_append_sep)

lemma env_output_lines:
  assumes "\<forall>l \<in> set ls. newline \<notin> set l \<and> l \<noteq> [] \<and> last l \<noteq> CHR 0x0D"
  shows "str_lines (env_output ls) = [] # ls"
proof -
  have "split_on newline (env_output ls) = [] # ls @ [[]]" using assms by (simp add: env_output_def split_lines)
  moreover have "map (\<lambda>l. if l \<noteq> [] \<and> last l = CHR 0x0D then butlast l else l) ls = ls" using assms by (intro map_idI) auto
  ultimately show ?thesis by (simp add: str_lines_def Let_def butlast_append)
qed

lemma insert_entries:
  assumes "\<forall>v \<in> set vars. plain_text (fst v) \<and> plain_text (snd v)"
  shows "fold insert_entry (map env_line vars) m = m ++ map_of (rev vars)"
  using assms
proof (induction vars arbitrary: m)
  case Nil
  then show ?case by simp
next
  case (Cons x vars)
  then have "insert_entry (env_line x) m = m(fst x \<mapsto> snd x)" using env_entry_line [of "fst x" "snd x"] by (cases x) (simp add: insert_entry_def)
  with Cons show ?case by (cases x) (simp add: map_add_assoc [symmetric])
qed

lemma env_file_read_back:
  assumes "\<forall>v \<in> set vars. plain_text (fst v) \<and> plain_text (snd v)"
  shows "parse_env_file (Inr (env_output (map env_line vars))) = map_of (rev vars)"
proof -
  have "is_white (CHR 0x0A)" by (simp add: is_white_def)
  then have plain: "CHR 0x0A \<notin> set s" if "plain_text s" for s
    using that unfolding plain_text_def list_all_iff by blast
  have "newline \<notin> set (env_line v) \<and> env_line v \<noteq> [] \<and> last (env_line v) \<noteq> CHR 0x0D" if v: "v \<in> set vars" for v
  proof -
    have "CHR 0x0A \<notin> set (fst v)" "CHR 0x0A \<notin> set (snd v)" using assms v by (simp_all add: plain)
    then show ?thesis by (simp add: env_line_def newline_def)
  qed
  then have "str_lines (env_output (map env_line vars)) = [] # map env_line vars" by (intro env_output_lines) simp
  moreover have "insert_entry [] m = m" for m by (simp add: insert_entry_def env_entry_def trim_while_def)
  ultimately have "parse_env_file (Inr (env_output (map env_line vars))) = fold insert_entry (map env_line vars) Map.empty"
    by (simp only: parse_env_file_def sum.case fold_Cons comp_apply)
  then show ?thesis using insert_entries [OF assms, of Map.empty] by (simp only: empty_map_add)
qed


section \<open>Witness\<close>

definition bench_key_text :: key_text where
  "bench_key_text = \<lparr>uuid_parse_str = (\<lambda>s. if s = ''c0'' then Some 8 else None),
     address_from_str = (\<lambda>s. if s = ''0x07'' then Some 7 else if s = RECIPIENT_ADDRESS then Some 9 else None)\<rparr>"

definition bench_stack :: "(u64 \<times> string) list" where
  "bench_stack = [(1, ''lobby_live_012345678:c0:0x07'')]"

definition bench_env :: "(string \<times> string) list" where
  "bench_env = [(''LOBBY_API_KEY_1'', ''lobby_live_012345678:c0:0x07''), (''REDIS_URL'', ''redis''), (''DATABASE_URL'', ''pg'')]"

definition bench_app :: "nat app_state" where
  "bench_app = sample_app\<lparr>api_registry := [(''lobby_live_012345678'', \<lparr>client_id = 8, from_address = 7\<rparr>)]\<rparr>"

lemma bench_stack_built: "build_apistack sample_ids 0 [(''account1'', Some ''0x07'')] [] = Inr bench_stack"
  by (simp add: bench_stack_def parse_u64_def dec_digit_def api_key_text_def generated_token_def sample_ids_def)

lemma bench_env_loads:
  "load_api_key_from_env bench_key_text bench_env = Inr (api_registry bench_app)"
  by (simp add: load_api_key_from_env_def bench_env_def bench_app_def parse_api_key_def bench_key_text_def RECIPIENT_ADDRESS_def)

lemma bench_env_assembled: "map_of bench_env = assemble_env Map.empty ''pg'' ''redis'' [] bench_stack"
proof -
  have "char_of (49 :: nat) = CHR ''1''" by code_simp
  then have "show_nat (unat (1 :: u64)) = ''1''" by (simp add: show_nat.simps digit_char_def)
  then show ?thesis by (auto simp: assemble_env_def bench_env_def bench_stack_def)
qed

lemma bench_texts:
  "distinct (map fst bench_env)" "reads_payload (app_text_crates bench_app) bench_key_text" "0 < sys_permits sample_system"
  by (simp_all add: bench_env_def reads_payload_def bench_app_def sample_app_def sample_text_def bench_key_text_def sample_system_def
      hex_digit_def RECIPIENT_ADDRESS_def)

lemma bench_entries: "\<exists>entry. build_payloads bench_stack [137] = Done [entry]"
  by (simp add: build_payloads_def bench_stack_def bind_run_def)

theorem dispatch_accepted_witness:
  "\<exists>entry txn sys'. build_payloads bench_stack [137] = Done [entry] \<and>
     submit (cortex_services bench_app) (cortex_handler bench_app) 5 txn \<lparr>client_id = 8, from_address = 7\<rparr> sample_system = (Inr (), sys') \<and>
     chain_id txn = ChainId 137 \<and> to_addr txn = Some 9 \<and>
     execute_dispatch bench_app bench_key_text 5 3 [entry] sample_system = (Done (Inr ()), sys')"
proof -
  obtain entry where entry: "build_payloads bench_stack [137] = Done [entry]" using bench_entries by blast
  have ok: "key_text_ok bench_key_text (sample_ids k) a \<lparr>client_id = 8, from_address = 7\<rparr>"
    if "k < length [(''account1'', Some ''0x07'')]" "snd ([(''account1'', Some ''0x07'')] ! k) = Some a" for k a
    using that by (auto simp: key_text_ok_def bench_key_text_def sample_ids_def RECIPIENT_ADDRESS_def)
  have "uint (137 :: u64) < 2 ^ 63" "address_from_str bench_key_text RECIPIENT_ADDRESS = Some 9"
    by (simp_all add: bench_key_text_def RECIPIENT_ADDRESS_def)
  then show ?thesis
    using entry dispatch_accepted [OF bench_stack_built bench_env_loads bench_env_assembled bench_texts(1) _ ok _ entry _ _ bench_texts(2,3), of 5 3]
    by auto
qed

end
