(* ===== verification/Load_Pacer.thy ===== *)
theory Load_Pacer
  imports F64
begin

text \<open>
  The pacing of the benchmark's load generator: \<open>DynamicRateController\<close> of \<^verbatim>\<open>benchmark/src/loadgen/trigger.rs\<close> and the
  worker of \<open>run_load_generator\<close> in \<^verbatim>\<open>loadgen/mod.rs\<close>, over the 64-bit floats of \<open>F64\<close>. Instants and durations are in
  nanoseconds, the virtual clock is in microseconds. A worker's view of its environment is, for each turn, how many
  slots the other workers claim before it and how late its sleep wakes it.
\<close>

section \<open>The rate controller\<close>

record rate_controller =
  ramp_duration_us :: f64
  min_inter_arrival_us :: f64
  max_inter_arrival_us :: f64
  next_virtual_time_us :: f64

definition DynamicRateController_new :: "f64 \<Rightarrow> f64 \<Rightarrow> f64 \<Rightarrow> rate_controller" where
  "DynamicRateController_new ramp_secs target_tps initial_delay_us =
     \<lparr>ramp_duration_us = f64_mul ramp_secs 1000000, min_inter_arrival_us = f64_div 1000000 target_tps,
      max_inter_arrival_us = initial_delay_us, next_virtual_time_us = 0\<rparr>"

definition f64_sub :: "f64 \<Rightarrow> f64 \<Rightarrow> f64" where
  "f64_sub x y = f64_round (x - y)"

definition current_delay :: "rate_controller \<Rightarrow> f64" where
  "current_delay p =
     (if next_virtual_time_us p < ramp_duration_us p
      then f64_sub (max_inter_arrival_us p)
        (f64_mul (f64_div (next_virtual_time_us p) (ramp_duration_us p))
          (f64_sub (max_inter_arrival_us p) (min_inter_arrival_us p)))
      else min_inter_arrival_us p)"

definition claim_slot :: "rate_controller \<Rightarrow> f64 \<times> rate_controller" where
  "claim_slot p =
     (next_virtual_time_us p, p\<lparr>next_virtual_time_us := f64_add (next_virtual_time_us p) (current_delay p)\<rparr>)"

text \<open>The cast of a non-negative float to \<open>u64\<close> truncates and saturates.\<close>

definition f64_as_u64 :: "f64 \<Rightarrow> nat" where
  "f64_as_u64 x = min (nat \<lfloor>x\<rfloor>) (2 ^ 64 - 1)"

definition wait_for_next_slot :: "nat \<Rightarrow> nat \<Rightarrow> nat \<Rightarrow> rate_controller \<Rightarrow> nat \<times> rate_controller" where
  "wait_for_next_slot start late now p =
     (case claim_slot p of (target_virtual_time, p') \<Rightarrow>
        let target_instant = start + f64_as_u64 target_virtual_time * 1000 in
        (if target_instant > now then target_instant + late else now, p'))"

text \<open>A worker: the number of its dispatches, the time it stops at and the controller it leaves.\<close>

fun load_worker ::
  "nat \<Rightarrow> (nat \<Rightarrow> nat \<times> nat) \<Rightarrow> nat \<Rightarrow> nat \<Rightarrow> nat \<Rightarrow> nat \<Rightarrow> rate_controller \<Rightarrow> (nat \<times> nat \<times> rate_controller) option" where
  "load_worker 0 env start duration local_dispatches now p = None"
| "load_worker (Suc fuel) env start duration local_dispatches now p =
     (if now - start \<ge> duration then Some (local_dispatches, now, p)
      else case env local_dispatches of (others, late) \<Rightarrow>
        case wait_for_next_slot start late now (((\<lambda>q. snd (claim_slot q)) ^^ others) p) of (now', p') \<Rightarrow>
          load_worker fuel env start duration (local_dispatches + 1) now' p')"


section \<open>Delays\<close>

text \<open>A controller whose two delays are whole numbers of microseconds, and whose clock is a float.\<close>

definition paced :: "nat \<Rightarrow> nat \<Rightarrow> rate_controller \<Rightarrow> bool" where
  "paced n m p \<longleftrightarrow>
     min_inter_arrival_us p = of_nat n \<and> max_inter_arrival_us p = of_nat m \<and> n \<le> m \<and> m \<le> 2 ^ 53 \<and>
     0 \<le> next_virtual_time_us p \<and> f64_round (next_virtual_time_us p) = next_virtual_time_us p"

lemma f64_round_of_nat: "n \<le> 2 ^ 53 \<Longrightarrow> f64_round (of_nat n) = of_nat n"
  using f64_of_nat_exact by (simp add: f64_of_nat_def)

lemma delay_bounds:
  assumes "paced n m p"
  shows "of_nat n \<le> current_delay p" "current_delay p \<le> of_nat m"
proof -
  let ?t = "next_virtual_time_us p" and ?r = "ramp_duration_us p"
  have nm: "n \<le> m" "m \<le> 2 ^ 53" "0 \<le> ?t" using assms by (simp_all add: paced_def)
  have span: "f64_sub (of_nat m) (of_nat n) = of_nat (m - n)"
    using nm f64_round_of_nat [of "m - n"] by (simp add: f64_sub_def of_nat_diff)
  have "of_nat n \<le> current_delay p \<and> current_delay p \<le> of_nat m"
  proof (cases "?t < ?r")
    case True
    let ?q = "f64_div ?t ?r"
    have "0 \<le> ?q" by (simp add: f64_div_def f64_round_nonneg)
    have "?q \<le> f64_round (of_nat 1)"
      unfolding f64_div_def using True nm(3) by (intro f64_round_mono) (simp add: divide_le_eq_1)
    then have "?q \<le> 1" using f64_round_of_nat [of 1] by simp
    have "f64_mul ?q (of_nat (m - n)) \<le> f64_round (of_nat (m - n))"
      unfolding f64_mul_def using \<open>?q \<le> 1\<close> by (intro f64_round_mono mult_left_le_one_le \<open>0 \<le> ?q\<close>) simp_all
    then have "f64_mul ?q (of_nat (m - n)) \<le> of_nat (m - n)" using nm f64_round_of_nat [of "m - n"] by simp
    then have "of_nat n \<le> of_nat m - f64_mul ?q (of_nat (m - n))" using nm(1) by (simp add: of_nat_diff)
    moreover have "of_nat m - f64_mul ?q (of_nat (m - n)) \<le> of_nat m" by (simp add: f64_mul_def f64_round_nonneg)
    ultimately have "f64_round (of_nat n) \<le> current_delay p" "current_delay p \<le> f64_round (of_nat m)"
      using True assms unfolding current_delay_def paced_def by (simp_all add: span) (simp_all add: f64_sub_def f64_round_mono)
    then show ?thesis using nm f64_round_of_nat [of n] f64_round_of_nat [of m] by simp
  next
    case False
    then show ?thesis using assms by (simp add: current_delay_def paced_def)
  qed
  then show "of_nat n \<le> current_delay p" "current_delay p \<le> of_nat m" by simp_all
qed

lemma claim_paced: "paced n m p \<Longrightarrow> paced n m (snd (claim_slot p))"
  by (simp add: paced_def claim_slot_def f64_add_def f64_round_nonneg)

text \<open>
  A claim moves the clock by at least the short delay and at most the long one, counted in whole microseconds:
  rounding to a float does not pass a whole number up to \<open>2 ^ 53\<close>.
\<close>

lemma claim_advances:
  assumes "paced n m p"
  shows "min (\<lfloor>next_virtual_time_us p\<rfloor> + int n) (2 ^ 53) \<le> \<lfloor>next_virtual_time_us (snd (claim_slot p))\<rfloor>"
    "\<lceil>next_virtual_time_us p\<rceil> + int m \<le> 2 ^ 53 \<Longrightarrow>
      \<lceil>next_virtual_time_us (snd (claim_slot p))\<rceil> \<le> \<lceil>next_virtual_time_us p\<rceil> + int m"
proof -
  let ?t = "next_virtual_time_us p"
  have t: "0 \<le> ?t" using assms by (simp add: paced_def)
  have next_eq: "next_virtual_time_us (snd (claim_slot p)) = f64_round (?t + current_delay p)"
    by (simp add: claim_slot_def f64_add_def)
  let ?b = "min (\<lfloor>?t\<rfloor> + int n) (2 ^ 53)"
  have "(of_int ?b :: rat) \<le> of_int (\<lfloor>?t\<rfloor> + int n)" by (subst of_int_le_iff) simp
  also have "\<dots> \<le> ?t + current_delay p"
    unfolding of_int_add of_int_of_nat_eq by (intro add_mono of_int_floor_le delay_bounds(1) [OF assms])
  finally have "f64_round (of_int ?b) \<le> f64_round (?t + current_delay p)" by (rule f64_round_mono)
  moreover have "f64_round (of_int ?b) = of_int ?b" using t f64_round_exact [of ?b 0] by simp
  ultimately show "?b \<le> \<lfloor>next_virtual_time_us (snd (claim_slot p))\<rfloor>" by (simp only: next_eq le_floor_iff)
  assume room: "\<lceil>?t\<rceil> + int m \<le> 2 ^ 53"
  have "?t + current_delay p \<le> of_int (\<lceil>?t\<rceil> + int m)"
    unfolding of_int_add of_int_of_nat_eq by (intro add_mono le_of_int_ceiling delay_bounds(2) [OF assms])
  then have "f64_round (?t + current_delay p) \<le> f64_round (of_int (\<lceil>?t\<rceil> + int m))" by (rule f64_round_mono)
  moreover have "0 \<le> \<lceil>?t\<rceil> + int m" using t by (simp add: add_nonneg_nonneg)
  then have "f64_round (of_int (\<lceil>?t\<rceil> + int m)) = of_int (\<lceil>?t\<rceil> + int m)"
    using room f64_round_exact [of "\<lceil>?t\<rceil> + int m" 0] by simp
  ultimately show "\<lceil>next_virtual_time_us (snd (claim_slot p))\<rceil> \<le> \<lceil>?t\<rceil> + int m" by (simp only: next_eq ceiling_le_iff)
qed



section \<open>The schedule\<close>

text \<open>The controller after \<open>k\<close> claims.\<close>

definition claimed :: "nat \<Rightarrow> rate_controller \<Rightarrow> rate_controller" where
  "claimed k p = ((\<lambda>q. snd (claim_slot q)) ^^ k) p"

lemma claimed_simps [simp]: "claimed 0 p = p" "claimed (Suc k) p = snd (claim_slot (claimed k p))"
  by (simp_all add: claimed_def)

lemma claimed_paced: "paced n m p \<Longrightarrow> paced n m (claimed k p)"
  by (induction k) (simp_all add: claim_paced)

lemma claimed_lower:
  assumes "paced n m p"
  shows "min (\<lfloor>next_virtual_time_us p\<rfloor> + int (n * k)) (2 ^ 53) \<le> \<lfloor>next_virtual_time_us (claimed k p)\<rfloor>"
proof (induction k)
  case 0
  then show ?case by simp
next
  case (Suc k)
  have "int (n * Suc k) = int (n * k) + int n" by simp
  with Suc claim_advances(1) [OF claimed_paced [OF assms], of k] show ?case unfolding claimed_simps by linarith
qed

lemma claimed_upper:
  assumes "paced n m p"
  shows "\<lceil>next_virtual_time_us p\<rceil> + int (m * k) \<le> 2 ^ 53 \<Longrightarrow>
    \<lceil>next_virtual_time_us (claimed k p)\<rceil> \<le> \<lceil>next_virtual_time_us p\<rceil> + int (m * k)"
proof (induction k)
  case 0
  then show ?case by simp
next
  case (Suc k)
  then have "\<lceil>next_virtual_time_us (claimed k p)\<rceil> \<le> \<lceil>next_virtual_time_us p\<rceil> + int (m * k)" by (simp add: algebra_simps)
  with Suc.prems claim_advances(2) [OF claimed_paced [OF assms], of k] show ?case by (simp add: algebra_simps)
qed

lemma new_paced:
  assumes "f64_div 1000000 target_tps = of_nat n" "n \<le> m" "m \<le> 2 ^ 53"
  shows "paced n m (DynamicRateController_new ramp_secs target_tps (of_nat m))"
  using assms by (simp add: DynamicRateController_new_def paced_def)

text \<open>The harness: a ramp of five seconds from 100 to 1000 transactions a second.\<close>

definition RAMP_SECS :: f64 where
  "RAMP_SECS = 5"

definition TARGET_TPS :: f64 where
  "TARGET_TPS = 1000"

definition INITIAL_DELAY_US :: f64 where
  "INITIAL_DELAY_US = 10000"

definition harness_controller :: rate_controller where
  "harness_controller = DynamicRateController_new RAMP_SECS TARGET_TPS INITIAL_DELAY_US"



section \<open>Properties\<close>

lemma slot_lower:
  assumes "paced n m p"
  shows "min (n * k) (2 ^ 53) \<le> f64_as_u64 (fst (claim_slot (claimed k p)))"
proof -
  have "0 \<le> \<lfloor>next_virtual_time_us p\<rfloor>" using assms by (simp add: paced_def)
  with claimed_lower [OF assms, of k] have "min (int (n * k)) (2 ^ 53) \<le> \<lfloor>next_virtual_time_us (claimed k p)\<rfloor>" by linarith
  then have "min (n * k) (2 ^ 53) \<le> nat \<lfloor>next_virtual_time_us (claimed k p)\<rfloor>"
    by (intro nat_mono [of "int (min (n * k) (2 ^ 53))", unfolded nat_int]) (simp only: of_nat_min of_nat_power of_nat_numeral)
  moreover have "min (n * k) (2 ^ 53) \<le> 2 ^ 64 - 1" by (rule order_trans [OF min.cobounded2]) simp
  ultimately show ?thesis by (simp only: f64_as_u64_def claim_slot_def fst_conv min.boundedI)
qed

text \<open>
  The pacer keeps the configured rate in 64-bit floats: with a short delay of \<open>n\<close> and a long delay of \<open>m\<close> whole
  microseconds, the \<open>k\<close>-th slot lies between \<open>n * k\<close> and \<open>m * k\<close> microseconds, whatever the ramp is, as long as
  the schedule stays within the whole numbers a float represents. Rounding never lets the generator exceed its target.
\<close>
theorem schedule_bounded:
  assumes "f64_div 1000000 target_tps = of_nat n" "n \<le> m" "0 < k" "m * k \<le> 2 ^ 53"
    and p_def: "p = DynamicRateController_new ramp_secs target_tps (of_nat m)"
  shows "n * k \<le> f64_as_u64 (fst (claim_slot (claimed k p))) \<and> f64_as_u64 (fst (claim_slot (claimed k p))) \<le> m * k"
proof -
  have m: "m \<le> 2 ^ 53" using assms(3,4) by (auto intro: order_trans [of _ "m * k"])
  then have p: "paced n m p" unfolding p_def by (intro new_paced assms)
  have "n * k \<le> 2 ^ 53" using assms(2,4) by (meson mult_le_mono1 order_trans)
  then have "n * k \<le> f64_as_u64 (fst (claim_slot (claimed k p)))" using slot_lower [OF p, of k] by (simp only: min_absorb1)
  moreover have "\<lceil>next_virtual_time_us p\<rceil> = 0" by (simp add: p_def DynamicRateController_new_def)
  then have "\<lceil>next_virtual_time_us (claimed k p)\<rceil> \<le> int (m * k)"
    using claimed_upper [OF p, of k] assms(4) by (simp flip: of_nat_mult)
  then have "nat \<lfloor>next_virtual_time_us (claimed k p)\<rfloor> \<le> m * k"
    using floor_le_ceiling [of "next_virtual_time_us (claimed k p)"] by linarith
  then have "f64_as_u64 (fst (claim_slot (claimed k p))) \<le> m * k"
    unfolding f64_as_u64_def claim_slot_def fst_conv by (rule order_trans [OF min.cobounded1])
  ultimately show ?thesis ..
qed

text \<open>A worker stops: its own claims alone carry the clock past the duration.\<close>

lemma worker_turns:
  assumes "paced n m p0" "duration \<le> 1000 * (n * N)" "duration \<le> 1000 * 2 ^ 53"
  shows "p = claimed c p0 \<Longrightarrow> i \<le> c \<Longrightarrow> i \<le> N + 1 \<Longrightarrow> N + 2 \<le> fuel + i \<Longrightarrow>
    (i = 0 \<or> start + 1000 * min (n * (i - 1)) (2 ^ 53) \<le> now) \<Longrightarrow>
    \<exists>k now' p'. load_worker fuel env start duration i now p = Some (k, now', p') \<and> i \<le> k \<and> k \<le> N + 1 \<and> duration \<le> now' - start"
proof (induction fuel arbitrary: p c i now)
  case 0
  then show ?case by simp
next
  case (Suc fuel)
  show ?case
  proof (cases "duration \<le> now - start")
    case True
    then show ?thesis using Suc.prems by simp
  next
    case False
    have "i \<le> N"
    proof (rule ccontr)
      assume "\<not> i \<le> N"
      then have "i = N + 1" using Suc.prems(3) by simp
      then show False using Suc.prems(5) assms(2,3) False by (simp add: min_def split: if_splits)
    qed
    obtain others late where env: "env i = (others, late)" by fastforce
    let ?c = "others + c"
    have p1: "((\<lambda>q. snd (claim_slot q)) ^^ others) p = claimed ?c p0"
      unfolding Suc.prems(1) claimed_def by (simp only: funpow_add comp_apply)
    obtain now' p' where wait: "wait_for_next_slot start late now (claimed ?c p0) = (now', p')" by fastforce
    then have p': "p' = claimed (Suc ?c) p0" by (auto simp: wait_for_next_slot_def claim_slot_def Let_def)
    have "min (n * i) (2 ^ 53) \<le> min (n * ?c) (2 ^ 53)" using Suc.prems(2) by (intro min.mono mult_le_mono) simp_all
    also note slot_lower [OF assms(1), of ?c]
    finally have "start + 1000 * min (n * i) (2 ^ 53) \<le> now'"
      using wait by (auto simp: wait_for_next_slot_def Let_def split: prod.splits if_splits)
    then have "\<exists>k now'' p''. load_worker fuel env start duration (i + 1) now' p' = Some (k, now'', p'') \<and> i + 1 \<le> k \<and> k \<le> N + 1 \<and>
        duration \<le> now'' - start"
      using Suc.prems(2,4) \<open>i \<le> N\<close> by (intro Suc.IH [OF p']) simp_all
    then show ?thesis using False env wait by (auto simp: p1)
  qed
qed

text \<open>
  C40. A worker of the load generator ends, whatever slots the other workers take and however late it is woken: with a
  short delay of \<open>n\<close> microseconds and a duration of at most \<open>N\<close> such delays it makes at most \<open>N + 1\<close> dispatches
  and returns at a time at which the duration has passed. The fuel that is enough is \<open>N + 2\<close> turns.
\<close>
theorem load_worker_ends:
  assumes "f64_div 1000000 target_tps = of_nat n" "n \<le> m" "m \<le> 2 ^ 53"
    and "duration \<le> 1000 * (n * N)" "duration \<le> 1000 * 2 ^ 53" "N + 2 \<le> fuel"
  shows "\<exists>k now' p'. load_worker fuel env start duration 0 now (DynamicRateController_new ramp_secs target_tps (of_nat m)) =
      Some (k, now', p') \<and> k \<le> N + 1 \<and> duration \<le> now' - start"
  using worker_turns [OF new_paced [OF assms(1-3)] assms(4,5), where c = 0 and i = 0, OF _ _ _ _ disjI1]
    assms(6) by auto

lemma harness_rate: "f64_div 1000000 TARGET_TPS = of_nat 1000"
  using f64_round_of_nat [of 1000] by (simp add: f64_div_def TARGET_TPS_def)

theorem schedule_bounded_witness:
  "35000000 \<le> f64_as_u64 (fst (claim_slot (claimed 35000 harness_controller))) \<and>
   f64_as_u64 (fst (claim_slot (claimed 35000 harness_controller))) \<le> 350000000"
  using schedule_bounded [OF harness_rate _ _ _ refl, of 10000 35000 RAMP_SECS] by (simp add: harness_controller_def INITIAL_DELAY_US_def)

theorem load_worker_ends_witness:
  "\<exists>k now' p'. load_worker 35002 (\<lambda>i. (1, 50)) 7 35000000000 0 7 harness_controller = Some (k, now', p') \<and>
     k \<le> 35001 \<and> 35000000000 \<le> now' - 7"
  using load_worker_ends [OF harness_rate, of 10000 35000000000 35000 35002 "\<lambda>i. (1, 50)" 7 7 RAMP_SECS]
  by (simp add: harness_controller_def INITIAL_DELAY_US_def)

end
