(* ===== verification/Bench_Metrics.thy ===== *)
theory Bench_Metrics
  imports Telemetry
begin

text \<open>
  The measuring side of the benchmark harness: the collector of \<^verbatim>\<open>benchmark/src/metrics\<close>, which reads the latency records the
  server's exporter writes, and the readiness poll of \<^verbatim>\<open>benchmark/src/main.rs\<close>. Instants and durations are in
  nanoseconds. The histogram crate and the JSON reader are parameters; counters are \<open>u64\<close> and wrap.
\<close>

section \<open>Stages\<close>

record 'h hist_crate =
  hist_new :: "u64 \<Rightarrow> u64 \<Rightarrow> nat \<Rightarrow> 'h option"
  hist_record :: "u64 \<Rightarrow> 'h \<Rightarrow> 'h option"
  hist_add :: "'h \<Rightarrow> 'h \<Rightarrow> 'h option"
  hist_len :: "'h \<Rightarrow> nat"

text \<open>What the crate documents: a fresh histogram is empty, and a recorded value is one sample more.\<close>

definition hist_counts :: "'h hist_crate \<Rightarrow> bool" where
  "hist_counts hc \<longleftrightarrow>
     (\<forall>lo hi s h. hist_new hc lo hi s = Some h \<longrightarrow> hist_len hc h = 0) \<and>
     (\<forall>v h h'. hist_record hc v h = Some h' \<longrightarrow> hist_len hc h' = Suc (hist_len hc h))"

definition HISTOGRAM_MAX_US :: u64 where
  "HISTOGRAM_MAX_US = 60000000"

definition HISTOGRAM_SIGFIGS :: nat where
  "HISTOGRAM_SIGFIGS = 3"

record 'h stage_metrics =
  sm_histogram :: 'h
  sm_dropped_count :: u64

definition StageMetrics_new :: "'h hist_crate \<Rightarrow> 'h stage_metrics run" where
  "StageMetrics_new hc =
     (case hist_new hc 1 HISTOGRAM_MAX_US HISTOGRAM_SIGFIGS of
        None \<Rightarrow> Panic ''Failed to initialize Hdrhistogram''
      | Some h \<Rightarrow> Done \<lparr>sm_histogram = h, sm_dropped_count = 0\<rparr>)"

definition stage_record :: "'h hist_crate \<Rightarrow> u64 \<Rightarrow> 'h stage_metrics \<Rightarrow> 'h stage_metrics" where
  "stage_record hc value_us sm =
     (case hist_record hc (max value_us 1) (sm_histogram sm) of
        None \<Rightarrow> sm\<lparr>sm_dropped_count := sm_dropped_count sm + 1\<rparr>
      | Some h \<Rightarrow> sm\<lparr>sm_histogram := h\<rparr>)"

definition stage_merge :: "'h hist_crate \<Rightarrow> 'h stage_metrics \<Rightarrow> 'h stage_metrics \<Rightarrow> 'h stage_metrics" where
  "stage_merge hc sm other =
     \<lparr>sm_histogram = (case hist_add hc (sm_histogram sm) (sm_histogram other) of None \<Rightarrow> sm_histogram sm | Some h \<Rightarrow> h),
      sm_dropped_count = sm_dropped_count sm + sm_dropped_count other\<rparr>"


section \<open>The collector\<close>

record 'h metrics_collector =
  mx_relayhost :: "'h stage_metrics"
  mx_nonce :: "'h stage_metrics"
  mx_sign :: "'h stage_metrics"
  mx_broadcast :: "'h stage_metrics"
  mx_total_pipeline :: "'h stage_metrics"
  mx_test_start :: instant
  mx_warmup :: nat
  mx_steady_state :: nat
  mx_total_received :: u64
  mx_total_filtered_out :: u64

definition MetricsCollector_new :: "'h hist_crate \<Rightarrow> instant \<Rightarrow> nat \<Rightarrow> nat \<Rightarrow> 'h metrics_collector run" where
  "MetricsCollector_new hc test_start warmup steady_state =
     bind_run (StageMetrics_new hc) (\<lambda>a. bind_run (StageMetrics_new hc) (\<lambda>b. bind_run (StageMetrics_new hc) (\<lambda>c.
     bind_run (StageMetrics_new hc) (\<lambda>d. bind_run (StageMetrics_new hc) (\<lambda>e.
       Done \<lparr>mx_relayhost = a, mx_nonce = b, mx_sign = c, mx_broadcast = d, mx_total_pipeline = e, mx_test_start = test_start,
         mx_warmup = warmup, mx_steady_state = steady_state, mx_total_received = 0, mx_total_filtered_out = 0\<rparr>)))))"

definition submit_metrics ::
  "'h hist_crate \<Rightarrow> latency_record \<Rightarrow> instant \<Rightarrow> 'h metrics_collector \<Rightarrow> 'h metrics_collector" where
  "submit_metrics hc latency_record received_at mx0 =
     (let mx = mx0\<lparr>mx_total_received := mx_total_received mx0 + 1\<rparr>;
          elapsed = received_at - mx_test_start mx in
      if elapsed < mx_warmup mx \<or> elapsed > mx_warmup mx + mx_steady_state mx
      then mx\<lparr>mx_total_filtered_out := mx_total_filtered_out mx + 1\<rparr>
      else mx\<lparr>mx_relayhost := stage_record hc (relayhost_duration_us latency_record) (mx_relayhost mx),
              mx_nonce := stage_record hc (nonce_duration_us latency_record) (mx_nonce mx),
              mx_sign := stage_record hc (sign_duration_us latency_record) (mx_sign mx),
              mx_broadcast := stage_record hc (broadcast_duration_us latency_record) (mx_broadcast mx),
              mx_total_pipeline := stage_record hc (total_pipeline_us latency_record) (mx_total_pipeline mx)\<rparr>)"

text \<open>What the biased selection of the reader yields next; a list that runs out is a reader that still waits.\<close>

datatype frame = Shutdown | Frame_Line string instant | Frame_Error | Frame_Closed

fun stream_loop ::
  "'h hist_crate \<Rightarrow> (string \<Rightarrow> latency_record option) \<Rightarrow> frame list \<Rightarrow> 'h metrics_collector \<Rightarrow> 'h metrics_collector option" where
  "stream_loop hc from_str [] collector = None"
| "stream_loop hc from_str (Frame_Line line now # frames) collector =
     stream_loop hc from_str frames
       (case from_str line of None \<Rightarrow> collector | Some latency_record \<Rightarrow> submit_metrics hc latency_record now collector)"
| "stream_loop hc from_str (Shutdown # frames) collector = Some collector"
| "stream_loop hc from_str (Frame_Error # frames) collector = Some collector"
| "stream_loop hc from_str (Frame_Closed # frames) collector = Some collector"

definition telemetry_stream_reader ::
  "'h hist_crate \<Rightarrow> (string \<Rightarrow> latency_record option) \<Rightarrow> string option \<Rightarrow> instant \<Rightarrow> nat \<Rightarrow> nat \<Rightarrow> frame list \<Rightarrow>
   (string + 'h metrics_collector option) run" where
  "telemetry_stream_reader hc from_str connect_error test_start warmup steady_state frames =
     (case connect_error of
        Some e \<Rightarrow> Done (Inl e)
      | None \<Rightarrow> bind_run (MetricsCollector_new hc test_start warmup steady_state)
          (\<lambda>collector. Done (Inr (stream_loop hc from_str frames collector))))"


section \<open>Readiness\<close>

text \<open>The poll: the outcome of the \<open>i\<close>-th connection attempt and the time it takes are arguments.\<close>

definition poll_pause :: nat where
  "poll_pause = 500000000"

fun poll_till_timeout :: "nat \<Rightarrow> (nat \<Rightarrow> bool \<times> nat) \<Rightarrow> nat \<Rightarrow> nat \<Rightarrow> nat \<Rightarrow> bool option" where
  "poll_till_timeout 0 connect timeout i elapsed = None"
| "poll_till_timeout (Suc fuel) connect timeout i elapsed =
     (if elapsed < timeout then
        (case connect i of (up, k) \<Rightarrow>
           if up then Some True else poll_till_timeout fuel connect timeout (Suc i) (elapsed + k + poll_pause))
      else Some False)"

text \<open>The poll ends after at most one attempt per pause within the timeout, and reports only a connection that succeeded.\<close>

lemma poll_returns:
  "timeout \<le> elapsed + fuel * poll_pause \<Longrightarrow>
     \<exists>up. poll_till_timeout (Suc fuel) connect timeout i elapsed = Some up \<and> (up \<longrightarrow> (\<exists>j \<ge> i. fst (connect j)))"
proof (induction fuel arbitrary: i elapsed)
  case 0
  then show ?case by (intro exI [of _ False]) simp
next
  case (Suc fuel)
  obtain up k where attempt: "connect i = (up, k)" by fastforce
  have "timeout \<le> elapsed + k + poll_pause + fuel * poll_pause" using Suc.prems by simp
  from Suc.IH [OF this, of "Suc i"] obtain r where
    "poll_till_timeout (Suc fuel) connect timeout (Suc i) (elapsed + k + poll_pause) = Some r" "r \<longrightarrow> (\<exists>j \<ge> Suc i. fst (connect j))"
    by (elim exE conjE)
  note r = this
  have unfold: "poll_till_timeout (Suc (Suc fuel)) connect timeout i elapsed =
      (if elapsed < timeout then if up then Some True else Some r else Some False)"
    by (subst poll_till_timeout.simps) (simp only: attempt r(1) prod.case)
  show ?case
  proof (cases "elapsed < timeout \<and> \<not> up")
    case True
    with r(2) show ?thesis unfolding unfold by (intro exI [of _ r]) (simp, meson Suc_leD)
  next
    case False
    then have "elapsed < timeout \<longrightarrow> up \<and> fst (connect i)" using attempt by simp
    with False attempt show ?thesis unfolding unfold by (intro exI [of _ "elapsed < timeout"]) (simp, metis fst_conv order_refl)
  qed
qed


section \<open>Conservation of samples\<close>

text \<open>The records a reader takes in before it stops, with their arrival times, and the steady window.\<close>

fun taken_in :: "(string \<Rightarrow> latency_record option) \<Rightarrow> frame list \<Rightarrow> (latency_record \<times> instant) list" where
  "taken_in from_str [] = []"
| "taken_in from_str (Frame_Line line now # frames) =
     (case from_str line of None \<Rightarrow> [] | Some r \<Rightarrow> [(r, now)]) @ taken_in from_str frames"
| "taken_in from_str (Shutdown # frames) = []"
| "taken_in from_str (Frame_Error # frames) = []"
| "taken_in from_str (Frame_Closed # frames) = []"

definition in_window :: "instant \<Rightarrow> nat \<Rightarrow> nat \<Rightarrow> instant \<Rightarrow> bool" where
  "in_window test_start warmup steady_state at \<longleftrightarrow> warmup \<le> at - test_start \<and> at - test_start \<le> warmup + steady_state"

definition stages :: "'h metrics_collector \<Rightarrow> 'h stage_metrics list" where
  "stages mx = [mx_relayhost mx, mx_nonce mx, mx_sign mx, mx_broadcast mx, mx_total_pipeline mx]"

definition samples :: "'h hist_crate \<Rightarrow> 'h stage_metrics \<Rightarrow> u64" where
  "samples hc sm = of_nat (hist_len hc (sm_histogram sm)) + sm_dropped_count sm"

lemma samples_record: "hist_counts hc \<Longrightarrow> samples hc (stage_record hc v sm) = samples hc sm + 1"
  by (auto simp: samples_def stage_record_def hist_counts_def split: option.splits)

text \<open>The books of a collector after the records \<open>rs\<close>.\<close>

definition balanced ::
  "'h hist_crate \<Rightarrow> instant \<Rightarrow> nat \<Rightarrow> nat \<Rightarrow> (latency_record \<times> instant) list \<Rightarrow> 'h metrics_collector \<Rightarrow> bool" where
  "balanced hc t0 w st rs mx \<longleftrightarrow>
     mx_test_start mx = t0 \<and> mx_warmup mx = w \<and> mx_steady_state mx = st \<and>
     mx_total_received mx = of_nat (length rs) \<and>
     mx_total_filtered_out mx = of_nat (length (filter (\<lambda>r. \<not> in_window t0 w st (snd r)) rs)) \<and>
     (\<forall>sm \<in> set (stages mx). samples hc sm = of_nat (length (filter (\<lambda>r. in_window t0 w st (snd r)) rs)))"

lemma submit_balanced:
  assumes "hist_counts hc" "balanced hc t0 w st rs mx"
  shows "balanced hc t0 w st (rs @ [(r, at)]) (submit_metrics hc r at mx)"
  using assms by (auto simp: balanced_def submit_metrics_def Let_def in_window_def stages_def samples_record not_less not_le)

lemma new_balanced:
  assumes "hist_counts hc" "MetricsCollector_new hc t0 w st = Done mx"
  shows "balanced hc t0 w st [] mx"
  using assms
  by (auto simp: MetricsCollector_new_def StageMetrics_new_def bind_run_def balanced_def stages_def samples_def hist_counts_def
      split: option.splits)

lemma loop_balanced:
  "hist_counts hc \<Longrightarrow> stream_loop hc from_str frames mx = Some mx' \<Longrightarrow> balanced hc t0 w st rs mx \<Longrightarrow>
    balanced hc t0 w st (rs @ taken_in from_str frames) mx'"
proof (induction hc from_str frames mx arbitrary: rs rule: stream_loop.induct)
  case (2 hc from_str line now frames mx)
  show ?case
  proof (cases "from_str line")
    case None
    with 2 show ?thesis by simp
  next
    case (Some r)
    have "balanced hc t0 w st (rs @ [(r, now)]) (submit_metrics hc r now mx)" using 2 by (intro submit_balanced)
    with Some 2 show ?thesis by fastforce
  qed
qed simp_all


text \<open>
  The collector's books balance. When the reader of the telemetry stream stops, the number of records received is the
  number of readable lines before the end, those outside the window from the warm-up to the end of the
  steady state are counted as filtered out, and at every one of the five stages the samples in the histogram and the
  dropped ones together are the records inside the window, modulo the width of the counters.
\<close>
theorem metrics_conserved:
  assumes "hist_counts hc"
    and "telemetry_stream_reader hc from_str None t0 w st frames = Done (Inr (Some mx))"
  shows "mx_total_received mx = of_nat (length (taken_in from_str frames)) \<and>
    mx_total_filtered_out mx = of_nat (length (filter (\<lambda>r. \<not> in_window t0 w st (snd r)) (taken_in from_str frames))) \<and>
    (\<forall>sm \<in> set (stages mx). samples hc sm = of_nat (length (filter (\<lambda>r. in_window t0 w st (snd r)) (taken_in from_str frames))) \<and>
       mx_total_received mx = mx_total_filtered_out mx + samples hc sm)"
proof -
  obtain mx0 where "MetricsCollector_new hc t0 w st = Done mx0" "stream_loop hc from_str frames mx0 = Some mx"
    using assms(2) by (auto simp: telemetry_stream_reader_def bind_run_def split: run.splits)
  then have "balanced hc t0 w st (taken_in from_str frames) mx"
    using loop_balanced [OF assms(1) _ new_balanced [OF assms(1)]] by fastforce
  moreover have "length rs = length (filter (\<lambda>r. \<not> P r) rs) + length (filter P rs)" for P and rs :: "(latency_record \<times> instant) list"
    using sum_length_filter_compl [of P rs] by simp
  ultimately show ?thesis by (simp add: balanced_def del: of_nat_add flip: of_nat_add)
qed


section \<open>Witness\<close>

text \<open>A histogram that keeps its samples and refuses values above a limit.\<close>

definition list_hist :: "u64 list hist_crate" where
  "list_hist = \<lparr>hist_new = (\<lambda>lo hi s. Some []), hist_record = (\<lambda>v h. if v \<le> HISTOGRAM_MAX_US then Some (v # h) else None),
     hist_add = (\<lambda>h h'. Some (h @ h')), hist_len = length\<rparr>"

definition sample_latency :: latency_record where
  "sample_latency = \<lparr>lr_execution_id = 5, relayhost_duration_us = 1, nonce_duration_us = 2, sign_duration_us = 0,
     broadcast_duration_us = 70000000, total_pipeline_us = 70000003\<rparr>"

definition sample_frames :: "frame list" where
  "sample_frames = [Frame_Line ''r'' 3, Frame_Line ''r'' 12, Frame_Line ''?'' 13, Frame_Line ''r'' 20, Shutdown, Frame_Line ''r'' 14]"

definition sample_reader :: "string \<Rightarrow> latency_record option" where
  "sample_reader line = (if line = ''r'' then Some sample_latency else None)"

lemma list_hist_counts: "hist_counts list_hist"
  by (auto simp: hist_counts_def list_hist_def split: if_splits)

theorem metrics_conserved_witness:
  "\<exists>mx. telemetry_stream_reader list_hist sample_reader None 0 5 10 sample_frames = Done (Inr (Some mx)) \<and>
     mx_total_received mx = 3 \<and> mx_total_filtered_out mx = 2 \<and> (\<forall>sm \<in> set (stages mx). samples list_hist sm = 1)"
proof -
  obtain mx where run: "telemetry_stream_reader list_hist sample_reader None 0 5 10 sample_frames = Done (Inr (Some mx))"
    by (simp add: telemetry_stream_reader_def MetricsCollector_new_def StageMetrics_new_def list_hist_def bind_run_def
        sample_frames_def sample_reader_def)
  have "taken_in sample_reader sample_frames = [(sample_latency, 3), (sample_latency, 12), (sample_latency, 20)]"
    by (simp add: sample_frames_def sample_reader_def)
  with metrics_conserved [OF list_hist_counts run] run show ?thesis by (auto simp: in_window_def)
qed

end
