(* ===== verification/Spec2Isabelle.thy ===== *)
theory Spec2Isabelle
  imports Nonce_Safety Rpc_Layer Server Delivery Telemetry Boot Scanner Retry_Tests Mock_Node Bench_Client Load_Pacer Bench_Metrics
begin

text \<open>
  A model of Lobby, a relay that accepts Ethereum transactions over HTTP, assigns their nonces, signs them with
  custody keys, broadcasts them and waits for their inclusion, and the theorems that make it correct.

  \<^bold>\<open>The program.\<close> The HTTP server (\<^verbatim>\<open>lobby/src/server\<close>) authenticates a client by its API key, normalises the
  EIP-1193 request and hands an execution to the orchestrator (\<^verbatim>\<open>crate/cortex\<close>). A submission takes a permit of a
  semaphore and spawns a pipeline. The pipeline (\<^verbatim>\<open>crate/cortex/src/pipeline.rs\<close>) calls five actors
  (\<^verbatim>\<open>crate/actors\<close>): relay host (records the intent), nonce (reserves, synchronises, resolves), sign,
  broadcast and validator. Each actor is a task that owns one table of a PostgreSQL database
  (\<^verbatim>\<open>database/migrations\<close>) and serves commands from a mailbox; several actors of a kind form a pool and a key is
  routed to one of them by its hash. Broadcast and validator reach the chain through the RPC layer
  (\<^verbatim>\<open>crate/utils/src/rpc\<close>): pools of endpoints with health metrics and load balancing. Every stage records a
  status in a registry that is copied to Redis (\<^verbatim>\<open>crate/cortex/src/artifacts/state.rs\<close>). A sweeper
  (\<^verbatim>\<open>lobby/src/bots/sweeper.rs\<close>) releases reservations that were abandoned. A benchmark harness (\<^verbatim>\<open>benchmark/src\<close>) runs the
  server against mock nodes, drives it with signed-in requests at a rising rate and collects the latencies it exports.

  \<^bold>\<open>Theories and sources.\<close>
  \<^item> \<^verbatim>\<open>Prelude\<close>, \<^verbatim>\<open>Rust_Text\<close>, \<^verbatim>\<open>F64\<close>: machine integers as words, \<open>ORDER BY\<close> and \<open>MAX\<close>, Rust's number and text
    functions, and \<open>f64\<close> as rationals rounded to 53 bits, with rounding proved monotone, idempotent and exact on
    the values it can hold.
  \<^item> \<^verbatim>\<open>Lobby_Types\<close>: the types of \<^verbatim>\<open>crate/primitives/src/types.rs\<close>.
  \<^item> \<^verbatim>\<open>Database\<close>: the store as a record of five tables, its clock, the script of faults and delays, statements that
    succeed or fail atomically, the program combinators and the rules for what a program keeps.
  \<^item> \<^verbatim>\<open>Nonce_Engine\<close>, \<^verbatim>\<open>Sweeper\<close>, \<^verbatim>\<open>Nonce_Safety\<close>: \<^verbatim>\<open>actors/src/nonce\<close> and the sweeper. Each SQL statement is one
    definition, each handler a program over them.
  \<^item> \<^verbatim>\<open>Sign_Engine\<close>, \<^verbatim>\<open>Broadcast_Engine\<close>, \<^verbatim>\<open>Validator_Engine\<close>, \<^verbatim>\<open>Relayhost_Engine\<close>: the other actors, in the same way.
  \<^item> \<^verbatim>\<open>Rlp\<close>, \<^verbatim>\<open>Eip1559\<close>, \<^verbatim>\<open>Custody\<close>: \<^verbatim>\<open>utils/src/eip1559\<close> (lint, normalisation, encoding, signing) and
    \<^verbatim>\<open>utils/src/custody\<close>.
  \<^item> \<^verbatim>\<open>Rpc_Port\<close>: the RPC layer as the engines see it, four calls over a network state.
  \<^item> \<^verbatim>\<open>Rpc_Metrics\<close>, \<^verbatim>\<open>Rpc_Pool\<close>, \<^verbatim>\<open>Rpc_Client\<close>, \<^verbatim>\<open>Rpc_Calls\<close>: the four files of \<^verbatim>\<open>utils/src/rpc\<close>. \<^verbatim>\<open>Rpc_Layer\<close>:
    the locale of what the engines rely on, interpreted by that client, and the service on top of it.
  \<^item> \<^verbatim>\<open>Retry\<close>, \<^verbatim>\<open>Cortex_Error\<close>, \<^verbatim>\<open>Cortex_Config\<close>, \<^verbatim>\<open>Shard_Pool\<close>, \<^verbatim>\<open>Status_Registry\<close>: \<^verbatim>\<open>cortex/src/artifacts\<close>.
  \<^item> \<^verbatim>\<open>Pipeline\<close>: the traits of \<^verbatim>\<open>primitives/src/traits.rs\<close> as records of operations and the pipeline over any
    implementation of them. \<^verbatim>\<open>Store_Frames\<close>: each actor writes its own table only, and one invariant of the store.
    \<^verbatim>\<open>Interleaving\<close>: the statements of any number of concurrent handlers in any order.
    \<^verbatim>\<open>Cortex\<close>: the handles as implementations, boot, submission, completion of tasks, and the running service as
    an inductive set of reachable systems.
    \<^verbatim>\<open>Delivery\<close>: one execution through all of it, on the good path.
  \<^item> \<^verbatim>\<open>Telemetry\<close>: \<^verbatim>\<open>cortex/src/telemetry\<close> and the pipeline with the calls behind the feature \<open>benchmark-telemetry\<close>.
  \<^item> \<^verbatim>\<open>Api_Keys\<close>, \<^verbatim>\<open>Server\<close>: \<^verbatim>\<open>utils/src/api\<close>, \<^verbatim>\<open>lobby/src/bin/generate_api_keys.rs\<close> and \<^verbatim>\<open>lobby/src/server\<close> with the
    routes of \<^verbatim>\<open>main.rs\<close>.
  \<^item> \<^verbatim>\<open>Boot\<close>: \<^verbatim>\<open>lobby/src/main.rs\<close>, from the log file to the listener, on a machine given as a record.
  \<^item> \<^verbatim>\<open>Scanner\<close>: \<^verbatim>\<open>lobby/src/bots/scanner.rs\<close>, statements, handler and loop. \<^verbatim>\<open>Retry_Tests\<close>: the unit tests of
    \<^verbatim>\<open>artifacts/retry.rs\<close>, proved for every runtime.
  \<^item> \<^verbatim>\<open>Mock_Node\<close>, \<^verbatim>\<open>Bench_Client\<close>, \<^verbatim>\<open>Load_Pacer\<close>, \<^verbatim>\<open>Bench_Metrics\<close>: \<^verbatim>\<open>benchmark/src\<close>: the node of \<^verbatim>\<open>mockrpc\<close> and an RPC port made of
    it; the keys, payloads, dispatches and the environment of \<^verbatim>\<open>loadgen\<close> and \<^verbatim>\<open>main.rs\<close>; the rate controller and the workers,
    in 64-bit floats; the collector of \<^verbatim>\<open>metrics\<close> and the readiness poll.

  \<^bold>\<open>State and effects.\<close> A statement is a function on the store that returns an error or a result and the new store;
  whether a row is locked by another transaction is an argument of the statement, because \<open>SKIP LOCKED\<close> and the gap
  filling depend on it. Before each statement the store follows its script: time passes, the connection
  fails, or another writer holds a row. A program returns an error or a value with the store; panics are values
  of the type \<open>run\<close>. Time is in microseconds and never runs backwards. Library code the sources only call
  (alloy, k256, sha3, rlp, serde, uuid, url, Redis, the generators) is a parameter; what the proofs need of it
  is a named hypothesis, and a witness instantiates it.

  \<^bold>\<open>What is shown.\<close>
  \<^item> Nonces: no nonce of an address is ever held by two reserved or finalized rows, a finalized nonce is never
    reassigned, and reserve, sync, resolve and sweep have complete outcomes, the defective ones included; those of reserve
    and resolve hold under delays, faults and row locks, where a reservation passes over a locked gap and a
    resolution of a locked row is refused. A sweep followed by a reservation refills the gap of an abandoned one.
  \<^item> Signing, broadcast, validation, intents: invariants of the tables under every fault, complete outcomes of the
    requests, a submitted execution is never sent again, a validation result is justified by a receipt, the
    validation loop returns.
  \<^item> Concurrency: the invariants of the store hold under every interleaving of statements, the running service
    performs nothing but such statements, and a broadcast is single flight: while one handler sends for an
    execution no other is admitted.
  \<^item> Encoding: the unsigned payload determines the transaction, and a signed transaction has the shape EIP-1559
    gives it.
  \<^item> Orchestration: retries and backoff are bounded; the registry reads its last write and a restart recovers it
    from Redis as long as the hour of its expiry has not passed;
    a pipeline always ends in a terminal status along a path of the life cycle and reports a confirmation only
    for an included transaction; the running service keeps the invariants of the whole store, bounds its
    concurrency and finishes its tasks.
  \<^item> Delivery: when the actors answer, the store is undisturbed, the node accepts the payload and mines it in
    time, a submission ends confirmed and the five tables record the delivery.
  \<^item> Telemetry: the instrumented pipeline does what the plain one does, but for the shard that validates, which the
    benchmark build finds by the execution and the default build by the chain; the time stamps of an execution are removed
    from memory only if it was broadcast.
  \<^item> RPC layer: the metrics refine the history of calls exactly in spite of rounding; selection returns an available
    endpoint whenever there is one; a call runs once on a served endpoint, is recorded once and returns its permit;
    the client built from the environment stays well formed under the running service.
  \<^item> Server: requests only perform steps of the orchestrator, for registered clients and their own address;
    generated API keys are accepted.
  \<^item> Custody and boot: an address resolves to the key of its one account; the boot serves exactly when each of its
    steps finds what it needs and otherwise ends as the first failing step says; what it leaves is a start of the
    service, and everything above holds of the service from there on.
  \<^item> Scanner: the complete outcome of a scan; one transaction without a receipt starves all others.
  \<^item> Benchmark: a submission over the mock node is delivered; the node counts transactions and ignores their nonces;
    every dispatch is accepted while a permit is free; the pacer keeps its rate and the workers end in spite of rounding;
    the collector's books balance; the lines the key generator writes are read back by the harness.

  \<^bold>\<open>Interfaces.\<close> The locales \<open>revision_table\<close> and \<open>lease_table\<close> (tables with revisions and leases), \<open>state_store\<close> (registry),
  \<open>broadcast_ownership\<close> (what a handler may assume of the row it inserted), \<open>store_contract\<close> (a predicate every
  handler keeps, and so every pipeline), \<open>pipeline_contract\<close> (what a pipeline relies on of its actors) and
  \<open>rpc_layer\<close> (what the engines rely on of the network) are interpreted on the definitions of the model.

  \<^bold>\<open>Bounds.\<close> The validation loop is run with \<open>loop_bound\<close>, the timeout divided by the poll interval plus two, which is
  proved enough. The scan of Redis takes a bound on the number of pages; a boot that exceeds it has the outcome \<open>Boot_Waits\<close>. The retry loop counts its attempts in
  a \<open>u32\<close> as the source does. The broadcast loop of the pipeline ends because a nonce is recovered at most once.
  \<open>str::trim\<close> strips at most as often as the text has bytes. The health of an endpoint is exact for fewer than
  \<open>2 ^ 47\<close> calls. A worker of the load generator needs two turns more than the shortest delay fits into the duration, and
  the schedule is exact up to \<open>2 ^ 53\<close> microseconds.

  \<^bold>\<open>Not modelled.\<close> A task of the running service is one step, so its status path and outcome are shown for a
  task that meets faults, delays and locks but no writes of another task; for concurrent tasks the theory of
  interleavings gives the invariants of the store. The theorems of the pipeline itself hold for any implementation of the
  actor traits, one whose store others write included. The atomics of the metrics are single steps. Logging is
  left out, as are serde attributes, \<open>Debug\<close> renderings, unit tests other than those of the retry, and the HTTP and database drivers. The boot is
  that of the default build: the channel and the exporter that the benchmark build starts beside it are modelled in
  \<^verbatim>\<open>Telemetry\<close>. The files a boot reads do not change while it runs, and its environment is text: the panic of
  \<open>env::vars\<close> on a variable that is not Unicode has no outcome in the model. Commands of Redis take no time of their own; time
  passes between them. The build leaves
  \<^verbatim>\<open>bots/scanner.rs\<close> out and has no RPC client of the shape it uses, so its lookup of endpoints is a parameter. Of the
  benchmark, the containers, the child process and the generation of test keys with k256 are library calls; its
  text is taken to be ASCII.
\<close>

end
